(* ===== verification/RM_Prelude.thy ===== *)
theory RM_Prelude
  imports Main "HOL-Library.Word"
begin

text \<open>
  Shared vocabulary of the development: machine widths, the ways in which a C function
  can fail to return, a small calculus of state-passing programs that may stop, and
  the generic lemmas on lists that the components share.
\<close>

section \<open>Machine words\<close>

type_synonym byte = "8 word"
type_synonym u16 = "16 word"
type_synonym u32 = "32 word"
type_synonym u64 = "64 word"

section \<open>How a call can end without returning\<close>

text \<open>
  \<^item> \<open>Exit n\<close>: the process called \<open>exit(n)\<close>;
  \<^item> \<open>Killed n\<close>: the process was terminated by signal \<open>n\<close>;
  \<^item> \<open>Undefined\<close>: the C program has no defined behaviour from here (a buffer is written
    past its end, a null or uninitialised pointer is used);
  \<^item> \<open>Blocked\<close>: the system call waits until another process acts.
\<close>

datatype halt = Exit int | Killed nat | Undefined | Blocked

abbreviation EXIT_SUCCESS :: int where "EXIT_SUCCESS \<equiv> 0"
abbreviation EXIT_FAILURE :: int where "EXIT_FAILURE \<equiv> 1"

section \<open>Programs over a state\<close>

text \<open>
  A program takes the state and gives back either the reason why it stopped or its
  result, and in both cases the state it leaves behind: what was written before an
  \<open>exit\<close> stays written.
\<close>

type_synonym ('s, 'a) prog = "'s \<Rightarrow> (halt + 'a) \<times> 's"

named_theorems prog_simps \<open>evaluation of programs\<close>
named_theorems preserves_intros \<open>rules that an invariant is kept\<close>

definition ret :: "'a \<Rightarrow> ('s, 'a) prog" where
  "ret a s = (Inr a, s)"

definition stop :: "halt \<Rightarrow> ('s, 'a) prog" where
  "stop h s = (Inl h, s)"

definition bnd :: "('s, 'a) prog \<Rightarrow> ('a \<Rightarrow> ('s, 'b) prog) \<Rightarrow> ('s, 'b) prog" where
  "bnd m f s = (case m s of (Inl h, s') \<Rightarrow> (Inl h, s') | (Inr a, s') \<Rightarrow> f a s')"

definition gets :: "('s \<Rightarrow> 'a) \<Rightarrow> ('s, 'a) prog" where
  "gets f s = (Inr (f s), s)"

definition modify :: "('s \<Rightarrow> 's) \<Rightarrow> ('s, unit) prog" where
  "modify f s = (Inr (), f s)"

lemmas prog_defs = ret_def stop_def bnd_def gets_def modify_def

lemma ret_run [prog_simps]: "ret a s = (Inr a, s)"
  by (simp add: ret_def)

lemma stop_run [prog_simps]: "stop h s = (Inl h, s)"
  by (simp add: stop_def)

lemma gets_run [prog_simps]: "gets f s = (Inr (f s), s)"
  by (simp add: gets_def)

lemma modify_run [prog_simps]: "modify f s = (Inr (), f s)"
  by (simp add: modify_def)

lemma bnd_ok [prog_simps]: "m s = (Inr a, s') \<Longrightarrow> bnd m f s = f a s'"
  by (simp add: bnd_def)

lemma bnd_halt [prog_simps]: "m s = (Inl h, s') \<Longrightarrow> bnd m f s = (Inl h, s')"
  by (simp add: bnd_def)

lemma bnd_ret_left: "bnd (ret a) f = f a"
  by (rule ext) (simp add: prog_defs)

lemma bnd_ret_right: "bnd m ret = m"
  by (rule ext) (simp add: prog_defs split: prod.splits sum.splits)

lemma bnd_assoc: "bnd (bnd m f) g = bnd m (\<lambda>a. bnd (f a) g)"
  by (rule ext) (simp add: prog_defs split: prod.splits sum.splits)

text \<open>The two ways through a sequence, as an inversion rule.\<close>

lemma bnd_cases:
  assumes "bnd m f s = r"
  obtains (halt) h s' where "m s = (Inl h, s')" "r = (Inl h, s')"
  | (ok) a s' where "m s = (Inr a, s')" "r = f a s'"
  using assms by (auto simp: bnd_def split: prod.splits sum.splits)

subsection \<open>Kept invariants\<close>

text \<open>An invariant is kept by a program whether or not the program returns.\<close>

definition preserves :: "('s \<Rightarrow> bool) \<Rightarrow> ('s, 'a) prog \<Rightarrow> bool" where
  "preserves I m \<longleftrightarrow> (\<forall>s. I s \<longrightarrow> I (snd (m s)))"

lemma preservesI: "(\<And>s. I s \<Longrightarrow> I (snd (m s))) \<Longrightarrow> preserves I m"
  by (simp add: preserves_def)

lemma preservesD: "preserves I m \<Longrightarrow> I s \<Longrightarrow> I (snd (m s))"
  by (simp add: preserves_def)

lemma preserves_ret [preserves_intros]: "preserves I (ret a)"
  by (simp add: preserves_def ret_def)

lemma preserves_stop [preserves_intros]: "preserves I (stop h)"
  by (simp add: preserves_def stop_def)

lemma preserves_gets [preserves_intros]: "preserves I (gets f)"
  by (simp add: preserves_def gets_def)

lemma preserves_modify: "(\<And>s. I s \<Longrightarrow> I (f s)) \<Longrightarrow> preserves I (modify f)"
  by (simp add: preserves_def modify_def)

lemma preserves_bnd [preserves_intros]:
  assumes m: "preserves I m" and f: "\<And>a. preserves I (f a)"
  shows "preserves I (bnd m f)"
proof (rule preservesI)
  fix s assume "I s"
  with m have "I (snd (m s))" by (rule preservesD)
  then show "I (snd (bnd m f s))"
    using f by (auto simp: bnd_def preserves_def split: prod.split sum.split)
qed

lemma preserves_if [preserves_intros]:
  "(b \<Longrightarrow> preserves I m) \<Longrightarrow> (\<not> b \<Longrightarrow> preserves I n) \<Longrightarrow> preserves I (if b then m else n)"
  by simp

subsection \<open>Triples\<close>

text \<open>
  \<open>valid P m Q E\<close>: from a state with \<open>P\<close>, the program returns \<open>a\<close> in a state with \<open>Q a\<close> or stops
  for the reason \<open>h\<close> in a state with \<open>E h\<close>. \<open>keeps I E m\<close> is the triple of an invariant.
\<close>

definition valid :: "('s \<Rightarrow> bool) \<Rightarrow> ('s, 'a) prog \<Rightarrow> ('a \<Rightarrow> 's \<Rightarrow> bool) \<Rightarrow> (halt \<Rightarrow> 's \<Rightarrow> bool) \<Rightarrow> bool" where
  "valid P m Q E \<longleftrightarrow> (\<forall>s. P s \<longrightarrow> (case m s of (Inl h, s') \<Rightarrow> E h s' | (Inr a, s') \<Rightarrow> Q a s'))"

abbreviation keeps :: "('s \<Rightarrow> bool) \<Rightarrow> (halt \<Rightarrow> 's \<Rightarrow> bool) \<Rightarrow> ('s, 'a) prog \<Rightarrow> bool" where
  "keeps I E m \<equiv> valid I m (\<lambda>_. I) E"

named_theorems valid_intros \<open>rules for triples\<close>

lemma validI:
  "(\<And>s a s'. P s \<Longrightarrow> m s = (Inr a, s') \<Longrightarrow> Q a s') \<Longrightarrow>
   (\<And>s h s'. P s \<Longrightarrow> m s = (Inl h, s') \<Longrightarrow> E h s') \<Longrightarrow> valid P m Q E"
  unfolding valid_def by (auto split: prod.split sum.split)

lemma valid_returns: "valid P m Q E \<Longrightarrow> P s \<Longrightarrow> m s = (Inr a, s') \<Longrightarrow> Q a s'"
  by (auto simp: valid_def)

lemma valid_stops: "valid P m Q E \<Longrightarrow> P s \<Longrightarrow> m s = (Inl h, s') \<Longrightarrow> E h s'"
  by (auto simp: valid_def)

lemma valid_bnd:
  assumes "valid P m R E" "\<And>a. valid (R a) (f a) Q E"
  shows "valid P (bnd m f) Q E"
  using assms by (fastforce simp: valid_def bnd_def split: prod.splits sum.splits)

lemma valid_ret: "(\<And>s. P s \<Longrightarrow> Q a s) \<Longrightarrow> valid P (ret a) Q E"
  by (simp add: valid_def ret_def)

lemma valid_stop: "(\<And>s. P s \<Longrightarrow> E h s) \<Longrightarrow> valid P (stop h) Q E"
  by (simp add: valid_def stop_def)

lemma valid_gets: "(\<And>s. P s \<Longrightarrow> Q (f s) s) \<Longrightarrow> valid P (gets f) Q E"
  by (simp add: valid_def gets_def)

lemma valid_modify: "(\<And>s. P s \<Longrightarrow> Q () (f s)) \<Longrightarrow> valid P (modify f) Q E"
  by (simp add: valid_def modify_def)

lemma valid_if [valid_intros]:
  "(b \<Longrightarrow> valid P m Q E) \<Longrightarrow> (\<not> b \<Longrightarrow> valid P n Q E) \<Longrightarrow> valid P (if b then m else n) Q E"
  by simp

lemma valid_weaken:
  "valid P m Q E \<Longrightarrow> (\<And>s. P' s \<Longrightarrow> P s) \<Longrightarrow> (\<And>a s. Q a s \<Longrightarrow> Q' a s) \<Longrightarrow>
   (\<And>h s. E h s \<Longrightarrow> E' h s) \<Longrightarrow> valid P' m Q' E'"
  unfolding valid_def by (fastforce split: prod.splits sum.splits)

lemma keeps_bnd [valid_intros]: "keeps I E m \<Longrightarrow> (\<And>a. keeps I E (f a)) \<Longrightarrow> keeps I E (bnd m f)"
  by (rule valid_bnd)

lemma keeps_ret [valid_intros]: "keeps I E (ret a)"
  by (simp add: valid_ret)

lemma keeps_gets [valid_intros]: "keeps I E (gets f)"
  by (simp add: valid_gets)

section \<open>A program over a part of the state\<close>

definition within :: "('s \<Rightarrow> 't) \<Rightarrow> ('t \<Rightarrow> 's \<Rightarrow> 's) \<Rightarrow> ('t, 'a) prog \<Rightarrow> ('s, 'a) prog" where
  "within part put m s = (case m (part s) of (r, t) \<Rightarrow> (r, put t s))"

lemma within_run [prog_simps]: "m (part s) = (r, t) \<Longrightarrow> within part put m s = (r, put t s)"
  by (simp add: within_def)

lemma within_ret: "(\<And>s. put (part s) s = s) \<Longrightarrow> within part put (ret a) = ret a"
  by (rule ext) (simp add: within_def ret_def)

lemma preserves_within:
  "(\<And>s t. I s \<Longrightarrow> I (put t s)) \<Longrightarrow> preserves I (within part put m)"
  by (auto simp: preserves_def within_def split: prod.split)

section \<open>Lists\<close>

lemma take_drop_length: "take n xs @ drop (length (take n xs)) xs = xs"
  by (simp add: min_def)

section \<open>C strings\<close>

text \<open>
  A C string is the list of its characters before the terminating NUL. \<open>c_str\<close> reads a
  string out of a buffer; \<open>snprintf_buf n\<close> is what \<open>snprintf(buf, n, \<dots>)\<close> leaves in a
  buffer of \<open>n > 0\<close> bytes: at most \<open>n - 1\<close> characters.
\<close>

definition c_str :: "string \<Rightarrow> string" where
  "c_str = takeWhile (\<lambda>c. c \<noteq> CHR 0x00)"

definition snprintf_buf :: "nat \<Rightarrow> string \<Rightarrow> string" where
  "snprintf_buf n s = take (n - 1) s"

lemma snprintf_buf_fits: "length s < n \<Longrightarrow> snprintf_buf n s = s"
  by (simp add: snprintf_buf_def)

lemma snprintf_buf_length: "0 < n \<Longrightarrow> length (snprintf_buf n s) < n"
  by (simp add: snprintf_buf_def)

lemma c_str_no_nul: "CHR 0x00 \<notin> set s \<Longrightarrow> c_str s = s"
  unfolding c_str_def by (rule takeWhile_eq_all_conv [THEN iffD2]) auto

section \<open>Loops over wake-ups\<close>

text \<open>
  What the three service loops have in common: one turn per element of a list, after which
  the loop goes on with the rest or the process has stopped. \<open>awake\<close> is the loop's condition
  on the state.
\<close>

locale service_loop =
  fixes loop :: "'w list \<Rightarrow> ('s, unit) prog"
    and turn :: "'w \<Rightarrow> ('s, 'f) prog"
    and going :: "'f \<Rightarrow> bool"
    and awake :: "'s \<Rightarrow> bool"
  assumes goes_on: "awake s \<Longrightarrow> turn w s = (Inr f, s') \<Longrightarrow> going f \<Longrightarrow> loop (w # ws) s = loop ws s'"
    and stops: "awake s \<Longrightarrow> turn w s = (Inl h, s') \<Longrightarrow> loop (w # ws) s = (Inl h, s')"
    and waits: "loop [] s = (Inl Blocked, s)"
begin

text \<open>Turns without an effect can be left out, however many there are.\<close>

lemma idles:
  assumes "awake s" "turn w s = (Inr f, s)" "going f"
  shows "loop (replicate n w @ ws) s = loop ws s"
  by (induction n) (simp_all add: goes_on [OF assms])

lemma idles_for_ever:
  assumes "awake s" "turn w s = (Inr f, s)" "going f"
  shows "loop (replicate n w) s = (Inl Blocked, s)"
  using idles [OF assms, of n "[]"] waits by simp

end

end
