(* ===== verification/RM_Scan.thy ===== *)
theory RM_Scan
  imports RM_Prelude
begin

text \<open>
  The C library's text routines the program uses: character classes of \<open>ctype.h\<close>, \<open>strtol\<close>,
  \<open>tolower\<close> and the directives of \<open>sscanf\<close> that occur
  (\<open>%s\<close>, \<open>%*s\<close>, \<open>%d\<close>, \<open>%hu\<close>, white space and literal characters), in the C locale on a
  64-bit Linux (\<open>long\<close> has 64 bits).
\<close>

section \<open>Characters\<close>

definition code :: "char \<Rightarrow> nat" where
  "code c = of_char c"

definition is_space :: "char \<Rightarrow> bool" where
  "is_space c \<longleftrightarrow> code c = 32 \<or> 9 \<le> code c \<and> code c \<le> 13"

definition is_digit :: "char \<Rightarrow> bool" where
  "is_digit c \<longleftrightarrow> 48 \<le> code c \<and> code c \<le> 57"

definition tolower :: "char \<Rightarrow> char" where
  "tolower c = (if 65 \<le> code c \<and> code c \<le> 90 then char_of (code c + 32) else c)"

lemma code_less: "code c < 256"
  by (simp add: code_def)

lemma code_char_of: "n < 256 \<Longrightarrow> code (char_of n) = n"
  by (simp add: code_def)

lemma tolower_idem [simp]: "tolower (tolower c) = tolower c"
  using code_less [of c] by (simp add: tolower_def code_char_of)

section \<open>Numbers\<close>

definition skip_space :: "string \<Rightarrow> string" where
  "skip_space = dropWhile is_space"

definition split_sign :: "string \<Rightarrow> int \<times> string" where
  "split_sign s = (case s of [] \<Rightarrow> (1, [])
     | c # r \<Rightarrow> if c = CHR ''-'' then (-1, r) else if c = CHR ''+'' then (1, r) else (1, c # r))"

definition digits_val :: "string \<Rightarrow> int" where
  "digits_val = foldl (\<lambda>a d. 10 * a + (int (code d) - 48)) 0"

definition LONG_MAX :: int where "LONG_MAX = 9223372036854775807"
definition LONG_MIN :: int where "LONG_MIN = - 9223372036854775808"
definition ULONG_MAX :: int where "ULONG_MAX = 18446744073709551615"

text \<open>
  \<open>scan_int\<close>: optional white space, an optional sign, digits; \<open>None\<close> when there is no digit
  (then \<open>strtol\<close> leaves \<open>endptr\<close> at the start and \<open>sscanf\<close> fails to match), otherwise the
  sign, the magnitude and what follows. \<open>strtol\<close> saturates.
\<close>

definition scan_int :: "string \<Rightarrow> (int \<times> int \<times> string) option" where
  "scan_int s =
     (let (sg, r) = split_sign (skip_space s); ds = takeWhile is_digit r in
      if ds = [] then None else Some (sg, digits_val ds, dropWhile is_digit r))"

definition clamp_long :: "int \<Rightarrow> int" where
  "clamp_long v = (if v < LONG_MIN then LONG_MIN else if v > LONG_MAX then LONG_MAX else v)"

definition strtol :: "string \<Rightarrow> int option" where
  "strtol s = map_option (\<lambda>(sg, m, _). clamp_long (sg * m)) (scan_int s)"

text \<open>\<open>%d\<close> stores the \<open>long\<close> as \<open>int\<close>; \<open>%hu\<close> an \<open>unsigned long\<close> (saturating) as \<open>unsigned short\<close>.\<close>

definition scanned_int :: "int \<Rightarrow> int \<Rightarrow> int" where
  "scanned_int sg m = sint (word_of_int (clamp_long (sg * m)) :: 32 word)"

definition scanned_ushort :: "int \<Rightarrow> int \<Rightarrow> u16" where
  "scanned_ushort sg m = word_of_int (if m > ULONG_MAX then ULONG_MAX else sg * m)"

section \<open>sscanf\<close>

datatype directive = FSpace | FLit char | FStr | FSkipStr | FInt | FUShort
datatype scanned = SStr string | SInt int | SUShort u16

text \<open>The values assigned, in order; scanning stops at the first directive that fails.\<close>

fun sscanf :: "directive list \<Rightarrow> string \<Rightarrow> scanned list" where
  "sscanf [] s = []"
| "sscanf (FSpace # ds) s = sscanf ds (skip_space s)"
| "sscanf (FLit c # ds) s = (case s of [] \<Rightarrow> [] | x # r \<Rightarrow> if x = c then sscanf ds r else [])"
| "sscanf (FStr # ds) s =
     (let s' = skip_space s; tok = takeWhile (\<lambda>c. \<not> is_space c) s' in
      if tok = [] then [] else SStr tok # sscanf ds (dropWhile (\<lambda>c. \<not> is_space c) s'))"
| "sscanf (FSkipStr # ds) s =
     (let s' = skip_space s; tok = takeWhile (\<lambda>c. \<not> is_space c) s' in
      if tok = [] then [] else sscanf ds (dropWhile (\<lambda>c. \<not> is_space c) s'))"
| "sscanf (FInt # ds) s =
     (case scan_int s of None \<Rightarrow> [] | Some (sg, m, r) \<Rightarrow> SInt (scanned_int sg m) # sscanf ds r)"
| "sscanf (FUShort # ds) s =
     (case scan_int s of None \<Rightarrow> [] | Some (sg, m, r) \<Rightarrow> SUShort (scanned_ushort sg m) # sscanf ds r)"

text \<open>The values assigned are of the kinds the format names, from its start.\<close>

fun fits_directives :: "directive list \<Rightarrow> scanned list \<Rightarrow> bool" where
  "fits_directives (FSpace # ds) vs = fits_directives ds vs"
| "fits_directives (FLit c # ds) vs = (vs = [] \<or> fits_directives ds vs)"
| "fits_directives (FSkipStr # ds) vs = (vs = [] \<or> fits_directives ds vs)"
| "fits_directives (FStr # ds) (SStr t # vs) = fits_directives ds vs"
| "fits_directives (FInt # ds) (SInt t # vs) = fits_directives ds vs"
| "fits_directives (FUShort # ds) (SUShort t # vs) = fits_directives ds vs"
| "fits_directives ds vs = (vs = [])"

lemma sscanf_fits: "fits_directives ds (sscanf ds s)"
  by (induction ds s rule: sscanf.induct) (auto simp: Let_def split: list.split option.split)

section \<open>Decimal output and the scanner\<close>

text \<open>\<open>%d\<close> and \<open>%hu\<close> of a number: its decimal digits (with a sign).\<close>

fun show_nat :: "nat \<Rightarrow> string" where
  "show_nat n = (if n < 10 then [char_of (n + 48)] else show_nat (n div 10) @ [char_of (n mod 10 + 48)])"

declare show_nat.simps [simp del]

definition show_int :: "int \<Rightarrow> string" where
  "show_int i = (if i < 0 then CHR ''-'' # show_nat (nat (- i)) else show_nat (nat i))"

lemma is_digit_char_of: "(n :: nat) < 10 \<Longrightarrow> is_digit (char_of (n + 48))"
  by (simp add: is_digit_def code_char_of)

lemma show_nat_digits: "c \<in> set (show_nat n) \<Longrightarrow> is_digit c"
proof (induction n rule: show_nat.induct)
  case (1 n)
  then show ?case
    by (subst (asm) show_nat.simps) (auto simp: is_digit_char_of split: if_splits)
qed

lemma show_nat_not_nil [simp]: "show_nat n \<noteq> []"
  by (subst show_nat.simps) simp

lemma digits_val_snoc: "digits_val (ds @ [d]) = 10 * digits_val ds + (int (code d) - 48)"
  by (simp add: digits_val_def)

lemma digits_val_show_nat [simp]: "digits_val (show_nat n) = int n"
proof (induction n rule: show_nat.induct)
  case (1 n)
  show ?case
  proof (cases "n < 10")
    case True
    then show ?thesis by (subst show_nat.simps) (simp add: digits_val_def code_char_of)
  next
    case False
    with 1 have "digits_val (show_nat (n div 10)) = int (n div 10)" by simp
    with False show ?thesis
      by (subst show_nat.simps) (simp add: digits_val_snoc code_char_of zdiv_int zmod_int)
  qed
qed

lemma digit_not_space: "is_digit c \<Longrightarrow> \<not> is_space c"
  by (auto simp: is_digit_def is_space_def)

lemma digit_not_sign: "is_digit c \<Longrightarrow> c \<noteq> CHR ''-'' \<and> c \<noteq> CHR ''+''"
  by (auto simp: is_digit_def code_def)

lemma skip_space_show_nat: "skip_space (show_nat n @ r) = show_nat n @ r"
  using show_nat_digits [of _ n] digit_not_space
  by (cases "show_nat n") (auto simp: skip_space_def)

lemma split_sign_show_nat: "split_sign (show_nat n @ r) = (1, show_nat n @ r)"
proof (cases "show_nat n")
  case (Cons c cs)
  then have "is_digit c" using show_nat_digits [of c n] by simp
  then show ?thesis using Cons digit_not_sign by (simp add: split_sign_def)
qed simp

lemma takeWhile_show_nat:
  "r = [] \<or> \<not> is_digit (hd r) \<Longrightarrow> takeWhile is_digit (show_nat n @ r) = show_nat n"
  "r = [] \<or> \<not> is_digit (hd r) \<Longrightarrow> dropWhile is_digit (show_nat n @ r) = r"
  by (cases r; simp add: takeWhile_append2 dropWhile_append2 show_nat_digits)+

lemma takeWhile_show_nat_all [simp]:
  "takeWhile is_digit (show_nat n) = show_nat n" "dropWhile is_digit (show_nat n) = []"
  using takeWhile_show_nat [of "[]" n] by (simp_all only: append_Nil2 simp_thms)

lemma scan_int_show_nat:
  "r = [] \<or> \<not> is_digit (hd r) \<Longrightarrow> scan_int (show_nat n @ r) = Some (1, int n, r)"
  by (simp add: scan_int_def skip_space_show_nat split_sign_show_nat takeWhile_show_nat)

end
