(* ===== verification/RM_FS.thy ===== *)
theory RM_FS
  imports RM_Scan "HOL-Library.AList"
begin

unbundle bit_operations_syntax

text \<open>
  Files and directories as the directory tool sees them: a tree of named nodes with
  permission bits, path resolution, the calls \<open>stat\<close>, \<open>access\<close>, \<open>mkdir\<close>, \<open>opendir\<close> with
  \<open>readdir\<close>, \<open>chmod\<close>, \<open>remove\<close>, \<open>nftw\<close>, and \<open>stdio\<close> streams. Every file belongs to the user
  the process runs as, so only the owner's bits matter, and none does for root. There are
  no symbolic or hard links and no special files. A string is resolved by its components;
  the paths of the directory tool have no dot-dot component (\<open>RM_Config\<close> walks paths that
  may have them). A read or a write may fail: the faults of the disk are part of the state,
  each from a position of a file on and for good.
\<close>

section \<open>Trees\<close>

type_synonym mode = "16 word"

datatype node = File mode "byte list" | Dir mode "(string \<times> node) list"

text \<open>
  The disk: reading a file fails from position \<open>bad_from\<close> on, and a file cannot be made
  longer than \<open>full_at\<close>; \<open>None\<close> is no such position.
\<close>

record disk =
  bad_from :: "string list \<Rightarrow> nat option"
  full_at :: "string list \<Rightarrow> nat option"

definition good_disk :: disk where
  "good_disk = \<lparr>bad_from = (\<lambda>_. None), full_at = (\<lambda>_. None)\<rparr>"

lemma good_disk_simps [simp]: "bad_from good_disk p = None" "full_at good_disk p = None"
  by (simp_all add: good_disk_def)

record fsys =
  fs_root :: node
  as_root :: bool
  fs_umask :: mode
  fs_disk :: disk

fun upto_pos :: "nat option \<Rightarrow> byte list \<Rightarrow> byte list" where
  "upto_pos None c = c"
| "upto_pos (Some k) c = take k c"

lemma upto_pos_Nil [simp]: "upto_pos k [] = []"
  by (cases k) simp_all

lemma upto_pos_append: "upto_pos k (upto_pos k c @ bs) = upto_pos k (c @ bs)"
  by (cases k) (simp_all add: min_def)

lemma length_upto_pos: "length (upto_pos k c) \<le> length c"
  by (cases k) simp_all

text \<open>What of a file's content can be read, and what of it arrives in a copy.\<close>

definition legible :: "disk \<Rightarrow> string list \<Rightarrow> byte list \<Rightarrow> byte list" where
  "legible F p c = upto_pos (bad_from F p) c"

definition copied :: "disk \<Rightarrow> string list \<Rightarrow> string list \<Rightarrow> byte list \<Rightarrow> byte list" where
  "copied F ps pd c = upto_pos (full_at F pd) (legible F ps c)"

definition intact :: "disk \<Rightarrow> string list \<Rightarrow> string list \<Rightarrow> bool" where
  "intact F ps pd \<longleftrightarrow> bad_from F ps = None \<and> full_at F pd = None"

lemma copied_intact [simp]: "intact F ps pd \<Longrightarrow> copied F ps pd c = c"
  by (simp add: intact_def copied_def legible_def)

lemma legible_intact [simp]: "bad_from F p = None \<Longrightarrow> legible F p c = c"
  by (simp add: legible_def)

text \<open>Bits of the owner: read 0400, write 0200, search 0100.\<close>

definition may_read :: "bool \<Rightarrow> mode \<Rightarrow> bool" where "may_read r m = (r \<or> bit m 8)"
definition may_write :: "bool \<Rightarrow> mode \<Rightarrow> bool" where "may_write r m = (r \<or> bit m 7)"
definition may_search :: "bool \<Rightarrow> mode \<Rightarrow> bool" where "may_search r m = (r \<or> bit m 6)"

lemma may_root [simp]: "may_read True m" "may_write True m" "may_search True m"
  by (simp_all add: may_read_def may_write_def may_search_def)

subsection \<open>Lookup and update\<close>

text \<open>\<open>lookup r\<close> follows a path, as root or needing the search bit of every directory on it.\<close>

fun lookup :: "bool \<Rightarrow> node \<Rightarrow> string list \<Rightarrow> node option" where
  "lookup r n [] = Some n"
| "lookup r (File m c) (x # xs) = None"
| "lookup r (Dir m es) (x # xs) =
     (if may_search r m then (case map_of es x of None \<Rightarrow> None | Some n \<Rightarrow> lookup r n xs) else None)"

text \<open>\<open>upd p new\<close> puts a node at \<open>p\<close>, or removes the one there; the parent must exist.\<close>

fun upd :: "string list \<Rightarrow> node option \<Rightarrow> node \<Rightarrow> node" where
  "upd [] new n = (case new of None \<Rightarrow> n | Some m \<Rightarrow> m)"
| "upd (x # xs) new (File m c) = File m c"
| "upd [x] new (Dir m es) =
     Dir m (case new of None \<Rightarrow> AList.delete x es | Some n \<Rightarrow> AList.update x n es)"
| "upd (x # y # xs) new (Dir m es) =
     (case map_of es x of None \<Rightarrow> Dir m es
      | Some n \<Rightarrow> Dir m (AList.update x (upd (y # xs) new n) es))"

lemma lookup_root: "lookup r n p = Some x \<Longrightarrow> lookup True n p = Some x"
  by (induction r n p rule: lookup.induct) (auto split: option.splits if_splits)

lemma lookup_append:
  "lookup r n (p @ q) = (case lookup r n p of None \<Rightarrow> None | Some m \<Rightarrow> lookup r m q)"
  by (induction r n p rule: lookup.induct) (auto split: option.splits)

text \<open>What is found at or below an updated position, and elsewhere.\<close>

lemma lookup_upd_same:
  assumes "lookup True n p = Some (Dir m es)"
  shows "lookup True (upd (p @ [x]) (Some new) n) (p @ x # q) = lookup True new q"
  using assms
proof (induction p arbitrary: n)
  case Nil
  then show ?case by (simp add: update_conv')
next
  case (Cons y p)
  then obtain m' es' n' where n: "n = Dir m' es'" "map_of es' y = Some n'"
      "lookup True n' p = Some (Dir m es)"
    by (cases n) (auto split: option.splits)
  obtain z zs where z: "p @ [x] = z # zs" by (cases p) auto
  show ?case using Cons.IH [OF n(3)] n z by (simp add: update_conv')
qed

lemma lookup_upd_delete:
  assumes "lookup True n p = Some (Dir m es)"
  shows "lookup True (upd (p @ [x]) None n) (p @ x # q) = None"
  using assms
proof (induction p arbitrary: n)
  case Nil
  then show ?case by (simp add: delete_conv')
next
  case (Cons y p)
  then obtain m' es' n' where n: "n = Dir m' es'" "map_of es' y = Some n'"
      "lookup True n' p = Some (Dir m es)"
    by (cases n) (auto split: option.splits)
  obtain z zs where z: "p @ [x] = z # zs" by (cases p) auto
  show ?case using Cons.IH [OF n(3)] n z by (simp add: update_conv')
qed

text \<open>
  The content of a file and the presence of a directory are what a path shows; both are
  untouched by an update at a position that is no prefix of the path.
\<close>

definition file_at :: "node \<Rightarrow> string list \<Rightarrow> byte list option" where
  "file_at n p = (case lookup True n p of Some (File m c) \<Rightarrow> Some c | _ \<Rightarrow> None)"

definition dir_at :: "node \<Rightarrow> string list \<Rightarrow> bool" where
  "dir_at n p = (case lookup True n p of Some (Dir m es) \<Rightarrow> True | _ \<Rightarrow> False)"

definition entry_at :: "node \<Rightarrow> string list \<Rightarrow> bool" where
  "entry_at n p = (lookup True n p \<noteq> None)"

definition prefix_of :: "string list \<Rightarrow> string list \<Rightarrow> bool" where
  "prefix_of p q \<longleftrightarrow> (\<exists>r. q = p @ r)"

lemma prefix_of_Cons [simp]: "prefix_of (x # p) (y # q) \<longleftrightarrow> x = y \<and> prefix_of p q"
  by (auto simp: prefix_of_def)

lemma prefix_of_Nil [simp]: "prefix_of [] q" "prefix_of p [] \<longleftrightarrow> p = []"
  by (auto simp: prefix_of_def)

lemma lookup_upd_other:
  assumes "\<not> prefix_of p q"
  shows "file_at (upd p new n) q = file_at n q \<and> dir_at (upd p new n) q = dir_at n q \<and>
    entry_at (upd p new n) q = entry_at n q"
  using assms
proof (induction p new n arbitrary: q rule: upd.induct)
  case (1 new n)
  then show ?case by simp
next
  case (2 x xs new m c)
  then show ?case by simp
next
  case (3 x new m es)
  then show ?case
    by (cases q; cases new)
      (auto simp: file_at_def dir_at_def entry_at_def update_conv' delete_conv' fun_upd_def)
next
  case (4 x y xs new m es)
  show ?case
  proof (cases "map_of es x")
    case None
    then show ?thesis by simp
  next
    case (Some n)
    show ?thesis
    proof (cases q)
      case Nil
      with Some show ?thesis by (simp add: file_at_def dir_at_def entry_at_def)
    next
      case (Cons z zs)
      with Some 4 show ?thesis
        by (cases "z = x") (auto simp: file_at_def dir_at_def entry_at_def update_conv')
    qed
  qed
qed

section \<open>Path strings\<close>

text \<open>The components of a path: what stands between slashes, without empty ones and dots.\<close>

fun split_slash :: "string \<Rightarrow> string \<Rightarrow> string list" where
  "split_slash acc [] = [rev acc]"
| "split_slash acc (c # cs) =
     (if c = CHR ''/'' then rev acc # split_slash [] cs else split_slash (c # acc) cs)"

definition resolve :: "string \<Rightarrow> string list" where
  "resolve s = filter (\<lambda>x. x \<noteq> [] \<and> x \<noteq> ''.'') (split_slash [] s)"

text \<open>A name \<open>readdir\<close> can report besides dot and dot-dot.\<close>

definition plain_name :: "string \<Rightarrow> bool" where
  "plain_name x \<longleftrightarrow> x \<noteq> [] \<and> x \<noteq> ''.'' \<and> x \<noteq> ''..'' \<and> CHR ''/'' \<notin> set x"

lemma split_slash_plain: "CHR ''/'' \<notin> set x \<Longrightarrow> split_slash acc x = [rev acc @ x]"
  by (induction x arbitrary: acc) auto

lemma split_slash_append:
  "split_slash acc (s @ CHR ''/'' # t) = split_slash acc s @ split_slash [] t"
  by (induction s arbitrary: acc) auto

lemma resolve_child: "plain_name x \<Longrightarrow> resolve (s @ CHR ''/'' # x) = resolve s @ [x]"
  by (simp add: resolve_def split_slash_append split_slash_plain plain_name_def)

section \<open>System calls\<close>

definition node_of :: "fsys \<Rightarrow> string list \<Rightarrow> node option" where
  "node_of fs p = lookup (as_root fs) (fs_root fs) p"

definition set_node :: "string list \<Rightarrow> node option \<Rightarrow> fsys \<Rightarrow> fsys" where
  "set_node p new fs = fs\<lparr>fs_root := upd p new (fs_root fs)\<rparr>"

text \<open>Entries may be added to or removed from the directory that holds \<open>p\<close>.\<close>

definition may_change :: "fsys \<Rightarrow> string list \<Rightarrow> bool" where
  "may_change fs p \<longleftrightarrow> p \<noteq> [] \<and> (case node_of fs (butlast p) of
     Some (Dir m es) \<Rightarrow> may_write (as_root fs) m \<and> may_search (as_root fs) m | _ \<Rightarrow> False)"

definition sys_mkdir :: "string list \<Rightarrow> mode \<Rightarrow> fsys \<Rightarrow> int \<times> fsys" where
  "sys_mkdir p m fs =
     (if entry_at (fs_root fs) p \<or> \<not> may_change fs p then (-1, fs)
      else (0, set_node p (Some (Dir (m AND NOT (fs_umask fs)) [])) fs))"

text \<open>
  \<open>opendir\<close> and the names \<open>readdir\<close> reports, dot and dot-dot among them, each name once;
  \<open>readdir\<close> itself does not fail.
\<close>

definition sys_opendir :: "string list \<Rightarrow> fsys \<Rightarrow> string list option" where
  "sys_opendir p fs = (case node_of fs p of
     Some (Dir m es) \<Rightarrow> if may_read (as_root fs) m then Some (''.'' # ''..'' # remdups (map fst es)) else None
   | _ \<Rightarrow> None)"

definition sys_remove :: "string list \<Rightarrow> fsys \<Rightarrow> int \<times> fsys" where
  "sys_remove p fs = (case node_of fs p of
     None \<Rightarrow> (-1, fs)
   | Some (File m c) \<Rightarrow> if may_change fs p then (0, set_node p None fs) else (-1, fs)
   | Some (Dir m es) \<Rightarrow> if may_change fs p \<and> es = [] then (0, set_node p None fs) else (-1, fs))"

fun with_mode :: "mode \<Rightarrow> node \<Rightarrow> node" where
  "with_mode m (File _ c) = File m c"
| "with_mode m (Dir _ es) = Dir m es"

definition sys_chmod :: "string list \<Rightarrow> mode \<Rightarrow> fsys \<Rightarrow> int \<times> fsys" where
  "sys_chmod p m fs = (case node_of fs p of
     None \<Rightarrow> (-1, fs) | Some n \<Rightarrow> (0, set_node p (Some (with_mode m n)) fs))"

text \<open>\<open>access(path, R_OK | W_OK | X_OK)\<close>.\<close>

definition sys_access_rwx :: "string list \<Rightarrow> fsys \<Rightarrow> int" where
  "sys_access_rwx p fs = (case node_of fs p of
     None \<Rightarrow> -1
   | Some (File m c) \<Rightarrow> if may_read (as_root fs) m \<and> may_write (as_root fs) m \<and>
        (bit m 0 \<or> bit m 3 \<or> bit m 6) then 0 else -1
   | Some (Dir m es) \<Rightarrow> if may_read (as_root fs) m \<and> may_write (as_root fs) m \<and>
        may_search (as_root fs) m then 0 else -1)"

section \<open>Streams\<close>

record stream =
  st_path :: "string list"
  st_pos :: nat
  st_reads :: bool
  st_writes :: bool

definition content :: "fsys \<Rightarrow> string list \<Rightarrow> byte list" where
  "content fs p = (case file_at (fs_root fs) p of None \<Rightarrow> [] | Some c \<Rightarrow> c)"

definition set_content :: "string list \<Rightarrow> byte list \<Rightarrow> fsys \<Rightarrow> fsys" where
  "set_content p c fs = (case lookup True (fs_root fs) p of
     Some (File m _) \<Rightarrow> set_node p (Some (File m c)) fs | _ \<Rightarrow> fs)"

text \<open>\<open>fopen(path, "rb")\<close> and \<open>fopen(path, "wb")\<close>; the second stream cannot be read.\<close>

definition fopen_rb :: "string list \<Rightarrow> fsys \<Rightarrow> stream option" where
  "fopen_rb p fs = (case node_of fs p of
     Some (File m c) \<Rightarrow> if may_read (as_root fs) m
        then Some \<lparr>st_path = p, st_pos = 0, st_reads = True, st_writes = False\<rparr> else None
   | Some (Dir m es) \<Rightarrow> if may_read (as_root fs) m
        then Some \<lparr>st_path = p, st_pos = 0, st_reads = True, st_writes = False\<rparr> else None
   | None \<Rightarrow> None)"

definition out_stream :: "string list \<Rightarrow> stream" where
  "out_stream p = \<lparr>st_path = p, st_pos = 0, st_reads = False, st_writes = True\<rparr>"

definition fopen_wb :: "string list \<Rightarrow> fsys \<Rightarrow> (stream \<times> fsys) option" where
  "fopen_wb p fs = (case node_of fs p of
     Some (File m c) \<Rightarrow> if may_write (as_root fs) m
        then Some (out_stream p, set_node p (Some (File m [])) fs) else None
   | Some (Dir m es) \<Rightarrow> None
   | None \<Rightarrow> if entry_at (fs_root fs) p \<or> \<not> may_change fs p then None
        else Some (out_stream p, set_node p (Some (File (0x1B6 AND NOT (fs_umask fs)) [])) fs))"

text \<open>
  What \<open>fread\<close> gives stops at the end of the file and at a read error alike; the error flag
  of the stream is never asked for by the program. \<open>fwrite\<close> stops at a full disk.
\<close>

definition readable :: "fsys \<Rightarrow> string list \<Rightarrow> byte list" where
  "readable fs p = legible (fs_disk fs) p (content fs p)"

definition fread :: "nat \<Rightarrow> stream \<Rightarrow> fsys \<Rightarrow> byte list \<times> stream" where
  "fread n f fs = (if \<not> st_reads f then ([], f)
     else (let bs = take n (drop (st_pos f) (readable fs (st_path f))) in
           (bs, f\<lparr>st_pos := st_pos f + length bs\<rparr>)))"

definition fwrite :: "byte list \<Rightarrow> stream \<Rightarrow> fsys \<Rightarrow> stream \<times> fsys" where
  "fwrite bs f fs = (if \<not> st_writes f then (f, fs)
     else (let c = content fs (st_path f);
               c' = upto_pos (full_at (fs_disk fs) (st_path f))
                      (take (st_pos f) c @ bs @ drop (st_pos f + length bs) c) in
           (f\<lparr>st_pos := st_pos f + length bs\<rparr>, set_content (st_path f) c' fs)))"

definition rewind_stream :: "stream \<Rightarrow> stream" where
  "rewind_stream f = f\<lparr>st_pos := 0\<rparr>"

subsection \<open>What the calls change\<close>

lemma set_node_fields [simp]:
  "as_root (set_node p n fs) = as_root fs" "fs_umask (set_node p n fs) = fs_umask fs"
  "fs_disk (set_node p n fs) = fs_disk fs"
  "fs_root (set_node p n fs) = upd p n (fs_root fs)"
  by (simp_all add: set_node_def)

lemma set_content_fields [simp]:
  "as_root (set_content p c fs) = as_root fs" "fs_umask (set_content p c fs) = fs_umask fs"
  "fs_disk (set_content p c fs) = fs_disk fs"
  by (simp_all add: set_content_def split: option.split node.split)

lemma may_change_parent:
  assumes "may_change fs p"
  obtains q x m es where "p = q @ [x]" "lookup True (fs_root fs) q = Some (Dir m es)"
proof -
  from assms have "p = butlast p @ [last p]" by (simp add: may_change_def)
  moreover from assms obtain m es where "lookup True (fs_root fs) (butlast p) = Some (Dir m es)"
    by (auto simp: may_change_def node_of_def split: option.splits node.splits dest: lookup_root)
  ultimately show ?thesis using that by blast
qed

lemma found_parent:
  assumes "lookup True n (p @ [x]) = Some y"
  obtains m es where "lookup True n p = Some (Dir m es)"
proof (cases "lookup True n p")
  case (Some z)
  with assms show ?thesis using that by (cases z) (auto simp: lookup_append)
qed (use assms in \<open>simp add: lookup_append\<close>)

lemma lookup_set_existing:
  assumes "lookup True n p = Some y" "p \<noteq> []"
  shows "lookup True (upd p (Some new) n) (p @ q) = lookup True new q"
proof -
  from assms(2) have p: "p = butlast p @ [last p]" by simp
  with assms(1) obtain m es where "lookup True n (butlast p) = Some (Dir m es)"
    by (metis found_parent)
  from lookup_upd_same [OF this, of "last p" new q] p show ?thesis
    by (metis append.assoc append_Cons append_Nil)
qed

lemma lookup_set_new:
  assumes "may_change fs p"
  shows "lookup True (upd p (Some new) (fs_root fs)) (p @ q) = lookup True new q"
  using assms by (rule may_change_parent) (simp add: lookup_upd_same)

lemma lookup_delete:
  assumes "may_change fs p"
  shows "lookup True (upd p None (fs_root fs)) (p @ q) = None"
  using assms by (rule may_change_parent) (simp add: lookup_upd_delete)

lemma file_at_lookup: "file_at n p = Some c \<longleftrightarrow> (\<exists>m. lookup True n p = Some (File m c))"
  by (auto simp: file_at_def split: option.splits node.splits)

lemma dir_at_lookup: "dir_at n p \<longleftrightarrow> (\<exists>m es. lookup True n p = Some (Dir m es))"
  by (auto simp: dir_at_def split: option.splits node.splits)

lemma file_not_dir: "file_at n p = Some c \<Longrightarrow> \<not> dir_at n p"
  by (auto simp: file_at_lookup dir_at_lookup)

lemma set_content_frame:
  assumes "\<not> prefix_of p q"
  shows "file_at (fs_root (set_content p c fs)) q = file_at (fs_root fs) q"
    and "dir_at (fs_root (set_content p c fs)) q = dir_at (fs_root fs) q"
  using lookup_upd_other [OF assms] by (simp_all add: set_content_def split: option.split node.split)

lemma file_at_set_content:
  assumes "file_at (fs_root fs) p = Some c0" "p \<noteq> []"
  shows "file_at (fs_root (set_content p c fs)) p = Some c"
proof -
  from assms(1) obtain m where "lookup True (fs_root fs) p = Some (File m c0)"
    by (auto simp: file_at_lookup)
  with lookup_set_existing [OF this assms(2), of "File m c" "[]"] show ?thesis
    by (simp add: set_content_def file_at_def)
qed

end
