(* ===== verification/RM_Directory.thy ===== *)
theory RM_Directory
  imports RM_FS
begin

unbundle bit_operations_syntax

text \<open>
  \<open>src/libs/directory_tool.c\<close>: copying one file with verification, copying or moving a
  directory tree, creating the program's directories and the permission walks around a
  timed backup or transfer. SHA-256 is OpenSSL's and a parameter: a record of its three
  calls, which are taken to succeed, as is \<open>readdir\<close> on an open directory. The error count, a C
  \<open>int\<close>, is an unbounded integer: it would take 2147483648 failing entries to overflow it.
\<close>

section \<open>Hashing\<close>

record 'c sha =
  sha_init :: 'c
  sha_update :: "'c \<Rightarrow> byte list \<Rightarrow> 'c"
  sha_final :: "'c \<Rightarrow> byte list"

text \<open>
  What OpenSSL documents of the incremental interface: feeding two pieces is feeding their
  concatenation.
\<close>

definition streaming :: "('c, 'x) sha_scheme \<Rightarrow> bool" where
  "streaming H \<longleftrightarrow> (\<forall>x a b. sha_update H (sha_update H x a) b = sha_update H x (a @ b)) \<and>
     (\<forall>x. sha_update H x [] = x)"

definition digest :: "('c, 'x) sha_scheme \<Rightarrow> byte list \<Rightarrow> byte list" where
  "digest H c = sha_final H (sha_update H (sha_init H) c)"

text \<open>The loop of \<open>hash_file\<close>: 1024 bytes at a time until nothing is read, an error included.\<close>

function hash_loop :: "('c, 'x) sha_scheme \<Rightarrow> fsys \<Rightarrow> stream \<Rightarrow> 'c \<Rightarrow> 'c" where
  "hash_loop H fs f ctx =
     (let (bs, f') = fread 1024 f fs in
      if bs = [] then ctx else hash_loop H fs f' (sha_update H ctx bs))"
  by pat_completeness auto
termination
proof (relation "measure (\<lambda>(H, fs, f, ctx). length (readable fs (st_path f)) - st_pos f)")
  fix H :: "('c, 'x) sha_scheme" and fs f ctx r bs f'
  assume r: "r = fread 1024 f fs" "(bs, f') = r" "bs \<noteq> []"
  then have "st_pos f < length (readable fs (st_path f))" "f' = f\<lparr>st_pos := st_pos f + length bs\<rparr>"
    "0 < length bs"
    by (auto simp: fread_def Let_def split: if_splits)
  then show "((H, fs, f', sha_update H ctx bs), H, fs, f, ctx)
      \<in> measure (\<lambda>(H, fs, f, ctx). length (readable fs (st_path f)) - st_pos f)"
    by (cases bs) auto
qed simp

declare hash_loop.simps [simp del]

definition hash_file :: "('c, 'x) sha_scheme \<Rightarrow> stream \<Rightarrow> fsys \<Rightarrow> byte list" where
  "hash_file H source fs = sha_final H (hash_loop H fs (rewind_stream source) (sha_init H))"

definition verify_files :: "('c, 'x) sha_scheme \<Rightarrow> stream \<Rightarrow> stream \<Rightarrow> fsys \<Rightarrow> int" where
  "verify_files H source dest fs =
     (if hash_file H source fs = hash_file H dest fs then 0 else -1)"

section \<open>One file\<close>

text \<open>The enum \<open>transfer_method_t\<close>; a variable of it may hold another number.\<close>

datatype transfer_method = BACKUP | TRANSFER | NoMethod nat

definition str_transfer_name :: "transfer_method \<Rightarrow> string" where
  "str_transfer_name meth = (case meth of BACKUP \<Rightarrow> ''BACKUP'' | TRANSFER \<Rightarrow> ''TRANSFER''
     | _ \<Rightarrow> ''UNDEFINED'')"

definition TRANSACT_SUCCESS :: int where "TRANSACT_SUCCESS = 0"
definition TRANSACT_ERR_OPEN :: int where "TRANSACT_ERR_OPEN = -1"
definition TRANSACT_HASH_FAILED :: int where "TRANSACT_HASH_FAILED = -2"

text \<open>The copying loop need not end for arbitrary streams; \<open>None\<close> is "runs for ever".\<close>

partial_function (option) copy_loop ::
  "stream \<Rightarrow> stream \<Rightarrow> fsys \<Rightarrow> (stream \<times> stream \<times> fsys) option" where
  "copy_loop source dest fs =
     (let (bytes, source') = fread 1024 source fs in
      if bytes = [] then Some (source', dest, fs)
      else (let (dest', fs') = fwrite bytes dest fs in copy_loop source' dest' fs'))"

definition transact_transfer_file ::
  "('c, 'x) sha_scheme \<Rightarrow> string \<Rightarrow> string \<Rightarrow> transfer_method \<Rightarrow> fsys \<Rightarrow> (int \<times> fsys) option" where
  "transact_transfer_file H source_path dest_path meth fs =
     (case fopen_rb (resolve source_path) fs of
        None \<Rightarrow> Some (TRANSACT_ERR_OPEN, fs)
      | Some source \<Rightarrow>
     (case fopen_wb (resolve dest_path) fs of
        None \<Rightarrow> Some (TRANSACT_ERR_OPEN, fs)
      | Some (dest, fs1) \<Rightarrow>
     (case copy_loop source dest fs1 of
        None \<Rightarrow> None
      | Some (source', dest', fs2) \<Rightarrow>
          if verify_files H source' dest' fs2 < 0 then Some (TRANSACT_HASH_FAILED, fs2)
          else (case meth of
                  TRANSFER \<Rightarrow> Some (TRANSACT_SUCCESS, snd (sys_remove (resolve source_path) fs2))
                | _ \<Rightarrow> Some (TRANSACT_SUCCESS, fs2)))))"

section \<open>A tree\<close>

definition D_PATH_SIZE :: nat where "D_PATH_SIZE = 1024"

definition child_path :: "string \<Rightarrow> string \<Rightarrow> string" where
  "child_path dir d_name = snprintf_buf D_PATH_SIZE (dir @ ''/'' @ d_name)"

text \<open>The head of \<open>transfer_directory\<close>: \<open>mkdir(destination, 07)\<close>, then \<open>opendir(source)\<close>.\<close>

definition begin_directory :: "string \<Rightarrow> string \<Rightarrow> fsys \<Rightarrow> string list option \<times> fsys" where
  "begin_directory source destination fs =
     (let fs1 = snd (sys_mkdir (resolve destination) 0x7 fs) in
      (sys_opendir (resolve source) fs1, fs1))"

text \<open>
  The loop over the entries. \<open>fuel\<close> bounds the depth of the recursion into directories;
  \<open>None\<close> means it ran out. The entries are those present when the directory is opened.
\<close>

fun transfer_entries ::
  "('c, 'x) sha_scheme \<Rightarrow> nat \<Rightarrow> string \<Rightarrow> string \<Rightarrow> transfer_method \<Rightarrow> string list \<Rightarrow> int \<Rightarrow> fsys \<Rightarrow>
     (int \<times> fsys) option" where
  "transfer_entries H fuel source destination meth [] no_errors fs = Some (no_errors, fs)"
| "transfer_entries H fuel source destination meth (d_name # ds) no_errors fs =
     (if d_name = ''.'' \<or> d_name = ''..'' then
        transfer_entries H fuel source destination meth ds no_errors fs
      else
        (let src_path = child_path source d_name; dest_path = child_path destination d_name in
         case node_of fs (resolve src_path) of
           None \<Rightarrow> transfer_entries H fuel source destination meth ds no_errors fs
         | Some (Dir m es) \<Rightarrow>
             (case fuel of 0 \<Rightarrow> None
              | Suc n \<Rightarrow>
                (case begin_directory src_path dest_path fs of
                   (None, fs1) \<Rightarrow>
                     transfer_entries H fuel source destination meth ds (no_errors + 1) fs1
                 | (Some names, fs1) \<Rightarrow>
                     (case transfer_entries H n src_path dest_path meth names 0 fs1 of
                        None \<Rightarrow> None
                      | Some (e, fs2) \<Rightarrow>
                          transfer_entries H fuel source destination meth ds (no_errors + e) fs2)))
         | Some (File m c) \<Rightarrow>
             (case meth of
                NoMethod k \<Rightarrow>
                  transfer_entries H fuel source destination meth ds (no_errors + 1) fs
              | _ \<Rightarrow>
                (case transact_transfer_file H src_path dest_path meth fs of
                   None \<Rightarrow> None
                 | Some (r, fs1) \<Rightarrow>
                     transfer_entries H fuel source destination meth ds
                       (if r \<noteq> TRANSACT_SUCCESS then no_errors + 1 else no_errors) fs1))))"

definition transfer_directory ::
  "('c, 'x) sha_scheme \<Rightarrow> nat \<Rightarrow> string \<Rightarrow> string \<Rightarrow> transfer_method \<Rightarrow> fsys \<Rightarrow> (int \<times> fsys) option" where
  "transfer_directory H fuel source destination meth fs =
     (case begin_directory source destination fs of
        (None, fs1) \<Rightarrow> Some (1, fs1)
      | (Some names, fs1) \<Rightarrow> transfer_entries H fuel source destination meth names 0 fs1)"

section \<open>The loops read and copy everything\<close>

lemma fread_reads:
  assumes "st_reads f"
  shows "fread n f fs = (take n (drop (st_pos f) (readable fs (st_path f))),
    f\<lparr>st_pos := st_pos f + length (take n (drop (st_pos f) (readable fs (st_path f))))\<rparr>)"
  using assms by (simp add: fread_def Let_def)

lemma hash_loop_unreadable: "\<not> st_reads f \<Longrightarrow> hash_loop H fs f ctx = ctx"
  by (subst hash_loop.simps) (simp add: fread_def)

lemma hash_loop_digest:
  assumes "streaming H" "st_reads f"
  shows "hash_loop H fs f ctx = sha_update H ctx (drop (st_pos f) (readable fs (st_path f)))"
  using assms
proof (induction H fs f ctx rule: hash_loop.induct)
  case (1 H fs f ctx)
  define rest where "rest = drop (st_pos f) (readable fs (st_path f))"
  define f' where "f' = f\<lparr>st_pos := st_pos f + length (take 1024 rest)\<rparr>"
  have r: "fread 1024 f fs = (take 1024 rest, f')"
    using fread_reads [OF "1.prems"(2)] by (simp add: rest_def f'_def)
  show ?case
  proof (cases "rest = []")
    case True
    with r "1.prems"(1) show ?thesis
      by (subst hash_loop.simps) (simp add: streaming_def rest_def)
  next
    case False
    then have "hash_loop H fs f' (sha_update H ctx (take 1024 rest)) =
        sha_update H (sha_update H ctx (take 1024 rest)) (drop (st_pos f') (readable fs (st_path f')))"
      using "1.prems" by (intro "1.IH" [OF r [symmetric] refl]) (simp_all add: f'_def)
    moreover have "drop (st_pos f') (readable fs (st_path f')) = drop 1024 rest"
      by (simp add: f'_def rest_def min_def add.commute)
    ultimately have "hash_loop H fs f' (sha_update H ctx (take 1024 rest)) = sha_update H ctx rest"
      using "1.prems"(1) by (simp add: streaming_def)
    with r False show ?thesis by (subst hash_loop.simps) (simp add: rest_def)
  qed
qed

text \<open>What the copying loop does to two different files.\<close>

definition same_but :: "string list \<Rightarrow> fsys \<Rightarrow> fsys \<Rightarrow> bool" where
  "same_but p fs fs' \<longleftrightarrow> as_root fs' = as_root fs \<and> fs_umask fs' = fs_umask fs \<and> fs_disk fs' = fs_disk fs \<and>
     (\<forall>q. \<not> prefix_of p q \<longrightarrow> file_at (fs_root fs') q = file_at (fs_root fs) q \<and>
        dir_at (fs_root fs') q = dir_at (fs_root fs) q \<and>
        entry_at (fs_root fs') q = entry_at (fs_root fs) q)"

lemma same_but_refl [simp]: "same_but p fs fs"
  by (simp add: same_but_def)

lemma same_but_trans: "same_but p fs fs1 \<Longrightarrow> same_but p fs1 fs2 \<Longrightarrow> same_but p fs fs2"
  by (simp add: same_but_def)

lemma same_but_set_node [simp]: "same_but p fs (set_node p n fs)"
  by (simp add: same_but_def lookup_upd_other)

lemma same_but_set_content [simp]: "same_but p fs (set_content p c fs)"
  by (simp add: set_content_def split: option.split node.split)

lemma copy_loop_files:
  assumes "st_reads src" "st_writes dst" "\<not> prefix_of (st_path dst) (st_path src)"
    "st_path dst \<noteq> []" "file_at (fs_root fs) (st_path dst) = Some (upto_pos k d)" "st_pos dst = length d"
    "full_at (fs_disk fs) (st_path dst) = k"
  shows "\<exists>src' dst' fs'. copy_loop src dst fs = Some (src', dst', fs') \<and>
    st_path src' = st_path src \<and> st_reads src' \<and> st_path dst' = st_path dst \<and>
    st_reads dst' = st_reads dst \<and>
    file_at (fs_root fs') (st_path dst) =
      Some (upto_pos k (d @ drop (st_pos src) (readable fs (st_path src)))) \<and>
    same_but (st_path dst) fs fs'"
  using assms
proof (induction "length (readable fs (st_path src)) - st_pos src" arbitrary: src dst fs d
    rule: less_induct)
  case less
  define c where "c = readable fs (st_path src)"
  define bs where "bs = take 1024 (drop (st_pos src) c)"
  define src1 where "src1 = src\<lparr>st_pos := st_pos src + length bs\<rparr>"
  define dst1 where "dst1 = dst\<lparr>st_pos := st_pos dst + length bs\<rparr>"
  define fs1 where "fs1 = set_content (st_path dst) (upto_pos k (d @ bs)) fs"
  have r: "fread 1024 src fs = (bs, src1)"
    using fread_reads [OF less.prems(1)] by (simp add: bs_def c_def src1_def)
  show ?case
  proof (cases "bs = []")
    case True
    then have "drop (st_pos src) c = []" by (simp add: bs_def)
    with True r less.prems show ?thesis
      by (subst copy_loop.simps) (simp add: src1_def c_def)
  next
    case False
    have "content fs (st_path dst) = upto_pos k d" using less.prems(5) by (simp add: content_def)
    then have w: "fwrite bs dst fs = (dst1, fs1)"
      using less.prems(2,6,7) length_upto_pos [of k d]
      by (simp add: fwrite_def Let_def dst1_def fs1_def upto_pos_append)
    have c1: "readable fs1 (st_path src) = c"
      using set_content_frame(1) [OF less.prems(3)]
      by (simp add: readable_def content_def fs1_def c_def)
    have d1: "file_at (fs_root fs1) (st_path dst1) = Some (upto_pos k (d @ bs))"
      using file_at_set_content [OF less.prems(5,4)] by (simp add: fs1_def dst1_def)
    have "0 < length bs" "st_pos src < length c" using False by (auto simp: bs_def)
    then have "length c - (st_pos src + length bs) < length c - st_pos src" by linarith
    then have "length (readable fs1 (st_path src1)) - st_pos src1 < length c - st_pos src"
      using c1 by (simp add: src1_def)
    from less.hyps [of fs1 src1, folded c_def, OF this, of dst1 "d @ bs"]
    obtain src' dst' fs' where IH: "copy_loop src1 dst1 fs1 = Some (src', dst', fs')"
      "st_path src' = st_path src1" "st_reads src'" "st_path dst' = st_path dst1"
      "st_reads dst' = st_reads dst1"
      "file_at (fs_root fs') (st_path dst1) =
         Some (upto_pos k ((d @ bs) @ drop (st_pos src1) (readable fs1 (st_path src1))))"
      "same_but (st_path dst1) fs1 fs'"
      using less.prems d1 by (auto simp: src1_def dst1_def fs1_def)
    have "copy_loop src dst fs = Some (src', dst', fs')"
      using r w False IH(1) by (subst copy_loop.simps) simp
    moreover have "bs @ drop (st_pos src1) c = drop (st_pos src) c"
      using take_drop_length [of 1024 "drop (st_pos src) c"]
      by (simp add: bs_def src1_def add.commute)
    moreover have "same_but (st_path dst) fs fs'"
      using IH(7) by (auto simp: fs1_def dst1_def intro: same_but_trans [OF same_but_set_content])
    ultimately show ?thesis using IH c1 by (simp add: src1_def dst1_def c_def)
  qed
qed

lemma copy_loop_nothing:
  assumes "readable fs (st_path src) = []"
  shows "copy_loop src dst fs = Some (src, dst, fs)"
  using assms by (subst copy_loop.simps) (simp add: fread_def)

lemma hash_file_source:
  assumes "streaming H" "st_reads f"
  shows "hash_file H f fs = digest H (readable fs (st_path f))"
  using hash_loop_digest [OF assms(1), of "rewind_stream f"] assms(2)
  by (simp add: hash_file_def digest_def rewind_stream_def)

lemma hash_file_unreadable:
  assumes "streaming H" "\<not> st_reads f"
  shows "hash_file H f fs = digest H []"
  using assms by (simp add: hash_file_def digest_def rewind_stream_def hash_loop_unreadable streaming_def)

section \<open>What copying one file does\<close>

lemma fopen_rbD:
  assumes "fopen_rb p fs = Some f"
  shows "st_path f = p" "st_reads f" "st_pos f = 0" "lookup True (fs_root fs) p \<noteq> None"
  using assms
  by (auto simp: fopen_rb_def node_of_def split: option.splits node.splits if_splits dest: lookup_root)

lemma fopen_wbD:
  assumes "fopen_wb p fs = Some (f, fs1)"
  shows "f = out_stream p" "file_at (fs_root fs1) p = Some []" "same_but p fs fs1"
    "p \<noteq> [] \<Longrightarrow> prefix_of p q \<Longrightarrow> q \<noteq> p \<Longrightarrow> \<not> entry_at (fs_root fs1) q"
    "\<not> dir_at (fs_root fs) p"
proof -
  show "f = out_stream p" "same_but p fs fs1"
    using assms by (auto simp: fopen_wb_def split: option.splits node.splits if_splits)
  have "\<exists>m. \<forall>r. lookup True (fs_root fs1) (p @ r) = lookup True (File m []) r"
  proof (cases "node_of fs p")
    case None
    with assms have c: "may_change fs p"
      and e: "fs1 = set_node p (Some (File (0x1B6 AND NOT (fs_umask fs)) [])) fs"
      by (auto simp: fopen_wb_def split: if_splits)
    from lookup_set_new [OF c] show ?thesis by (auto simp: e)
  next
    case (Some n)
    with assms obtain m c where n: "n = File m c"
      and e: "fs1 = set_node p (Some (File m [])) fs"
      by (auto simp: fopen_wb_def split: node.splits if_splits)
    from Some have l: "lookup True (fs_root fs) p = Some n"
      unfolding node_of_def by (rule lookup_root)
    show ?thesis
    proof (cases "p = []")
      case True
      with l n e show ?thesis by auto
    next
      case False
      from lookup_set_existing [OF l False] show ?thesis by (auto simp: e)
    qed
  qed
  then obtain m where m: "lookup True (fs_root fs1) (p @ r) = lookup True (File m []) r" for r by blast
  from m [of "[]"] show "file_at (fs_root fs1) p = Some []" by (simp add: file_at_def)
  show "\<not> entry_at (fs_root fs1) q" if "prefix_of p q" "q \<noteq> p"
  proof -
    from that obtain r where "q = p @ r" "r \<noteq> []" by (auto simp: prefix_of_def)
    with m [of r] show ?thesis by (cases r) (auto simp: entry_at_def)
  qed
  show "\<not> dir_at (fs_root fs) p"
  proof
    assume "dir_at (fs_root fs) p"
    with assms show False
      by (auto simp: fopen_wb_def node_of_def dir_at_lookup entry_at_def split: option.splits
          node.splits if_splits dest: lookup_root)
  qed
qed

lemma sys_removeD:
  "sys_remove p fs = (r, fs') \<Longrightarrow> file_at (fs_root fs) p = Some c \<Longrightarrow>
   same_but p fs fs' \<and> (fs' = fs \<or> (\<forall>q. \<not> entry_at (fs_root fs') (p @ q)))"
  by (auto simp: sys_remove_def node_of_def file_at_lookup entry_at_def
      split: option.splits node.splits if_splits dest: lookup_root lookup_delete)

text \<open>
  The result of a transaction, in terms of the paths' contents alone: the destination gets
  what can be read of the source and written there, and only what can be read is verified.
\<close>

lemma transact_cases:
  assumes "streaming H" and src: "file_at (fs_root fs) ps = Some c" and pd: "pd \<noteq> []" "\<not> prefix_of pd ps"
    and ps: "ps = resolve source_path" "pd = resolve dest_path"
  obtains (open_error) "transact_transfer_file H source_path dest_path meth fs = Some (TRANSACT_ERR_OPEN, fs)"
  | (copied_file) fs2 fs' r where
      "transact_transfer_file H source_path dest_path meth fs = Some (r, fs')"
      "\<not> dir_at (fs_root fs) pd"
      "same_but pd fs fs2" "file_at (fs_root fs2) pd = Some (copied (fs_disk fs) ps pd c)"
      "r = (if digest H (legible (fs_disk fs) ps c) = digest H [] then TRANSACT_SUCCESS else TRANSACT_HASH_FAILED)"
      "fs' = (if r = TRANSACT_SUCCESS \<and> meth = TRANSFER then snd (sys_remove ps fs2) else fs2)"
proof (cases "fopen_rb ps fs")
  case None
  then show ?thesis by (intro open_error) (simp add: transact_transfer_file_def ps)
next
  case (Some source)
  note rb = fopen_rbD [OF Some]
  show ?thesis
  proof (cases "fopen_wb pd fs")
    case None
    with Some show ?thesis by (intro open_error) (simp add: transact_transfer_file_def flip: ps)
  next
    case (Some out)
    then obtain fs1 where wb: "fopen_wb pd fs = Some (out_stream pd, fs1)"
      by (cases out) (auto dest: fopen_wbD(1))
    note w = fopen_wbD [OF wb]
    let ?l = "legible (fs_disk fs) ps c"
    have c1: "readable fs1 ps = ?l"
      using w(3) pd(2) src by (simp add: same_but_def content_def readable_def)
    from copy_loop_files [of source "out_stream pd" fs1 "full_at (fs_disk fs1) pd" "[]"] rb w(2) pd
    obtain src' dst' fs2 where cp: "copy_loop source (out_stream pd) fs1 = Some (src', dst', fs2)"
      "st_path src' = ps" "st_reads src'" "\<not> st_reads dst'"
      "file_at (fs_root fs2) pd = Some (upto_pos (full_at (fs_disk fs1) pd) (readable fs1 ps))"
      "same_but pd fs1 fs2"
      by (auto simp: out_stream_def)
    have "readable fs2 ps = ?l"
      using cp(6) w(3) pd(2) src by (simp add: same_but_def content_def readable_def)
    then have v: "verify_files H src' dst' fs2 = (if digest H ?l = digest H [] then 0 else -1)"
      using hash_file_source [OF assms(1) cp(3)] hash_file_unreadable [OF assms(1) cp(4)] cp(2)
      by (simp add: verify_files_def)
    have t: "transact_transfer_file H source_path dest_path meth fs =
        (if digest H ?l = digest H []
         then Some (TRANSACT_SUCCESS, if meth = TRANSFER then snd (sys_remove ps fs2) else fs2)
         else Some (TRANSACT_HASH_FAILED, fs2))"
      using \<open>fopen_rb ps fs = Some source\<close> wb cp(1) v
      by (simp add: transact_transfer_file_def split: transfer_method.split flip: ps)
    show ?thesis
    proof (rule copied_file [of "if digest H ?l = digest H [] then TRANSACT_SUCCESS else TRANSACT_HASH_FAILED"
          "if digest H ?l = digest H [] \<and> meth = TRANSFER then snd (sys_remove ps fs2) else fs2" fs2])
      show "same_but pd fs fs2" using w(3) cp(6) by (rule same_but_trans)
    qed (use t w cp(5) c1 in \<open>auto simp: TRANSACT_SUCCESS_def TRANSACT_HASH_FAILED_def copied_def
          same_but_def\<close>)
  qed
qed

end
