(* ===== verification/RM_Transfer.thy ===== *)
theory RM_Transfer
  imports RM_Directory
begin

text \<open>
  What \<open>transfer_directory\<close> does to the file system as a whole. Two states are compared
  position by position: \<open>view\<close> says what stands at a path, and \<open>cell\<close> is the contract of a
  transfer for one position below the source and the matching one below the destination.
  The contract is closed under sequences of steps, so a transfer of any tree satisfies it
  whatever fails on the way.
\<close>

section \<open>Views\<close>

datatype view = Absent | IsFile "byte list" | IsDir

definition view :: "fsys \<Rightarrow> string list \<Rightarrow> view" where
  "view fs p = (case lookup True (fs_root fs) p of
     None \<Rightarrow> Absent | Some (File m c) \<Rightarrow> IsFile c | Some (Dir m es) \<Rightarrow> IsDir)"

lemma view_file: "view fs p = IsFile c \<longleftrightarrow> file_at (fs_root fs) p = Some c"
  by (auto simp: view_def file_at_def split: option.splits node.splits)

lemma view_dir: "view fs p = IsDir \<longleftrightarrow> dir_at (fs_root fs) p"
  by (auto simp: view_def dir_at_def split: option.splits node.splits)

lemma view_absent: "view fs p = Absent \<longleftrightarrow> \<not> entry_at (fs_root fs) p"
  by (auto simp: view_def entry_at_def split: option.splits node.splits)

lemma view_alt: "view fs p = (case file_at (fs_root fs) p of Some c \<Rightarrow> IsFile c
    | None \<Rightarrow> if dir_at (fs_root fs) p then IsDir else Absent)"
  by (auto simp: view_def file_at_def dir_at_def split: option.splits node.splits)

lemma view_eqI:
  "file_at (fs_root fs') q = file_at (fs_root fs) q \<Longrightarrow>
   dir_at (fs_root fs') q = dir_at (fs_root fs) q \<Longrightarrow> view fs' q = view fs q"
  by (simp add: view_alt)

lemma same_but_view: "same_but p fs fs' \<Longrightarrow> \<not> prefix_of p q \<Longrightarrow> view fs' q = view fs q"
  by (rule view_eqI) (simp_all add: same_but_def)

lemma view_below: "view fs (p @ r) \<noteq> Absent \<Longrightarrow> r \<noteq> [] \<Longrightarrow> view fs p = IsDir"
  by (cases r)
    (auto simp: view_absent entry_at_def view_dir dir_at_lookup lookup_append
      split: option.splits elim: lookup.elims)

section \<open>The contract of a transfer\<close>

text \<open>
  From source \<open>s\<close> at \<open>ps\<close> and destination \<open>d\<close> at \<open>pd\<close> to \<open>s'\<close> and \<open>d'\<close>: the source stays, or
  it was a file of a content that may be removed (\<open>R\<close>), and the destination now holds what of
  it could be copied; the destination stays, or it becomes a directory where the source is
  one and nothing stood, or a file with what could be copied of the source file, never in
  place of a directory.
\<close>

definition cell ::
  "(string list \<Rightarrow> byte list \<Rightarrow> bool) \<Rightarrow> disk \<Rightarrow> string list \<Rightarrow> string list \<Rightarrow>
     view \<Rightarrow> view \<Rightarrow> view \<Rightarrow> view \<Rightarrow> bool" where
  "cell R F ps pd s d s' d' \<longleftrightarrow>
     (s' = s \<or> (\<exists>c. s = IsFile c \<and> s' = Absent \<and> R ps c \<and> d' = IsFile (copied F ps pd c))) \<and>
     (d' = d \<or> (s = IsDir \<and> d = Absent \<and> d' = IsDir) \<or>
        (\<exists>c. s = IsFile c \<and> d \<noteq> IsDir \<and> d' = IsFile (copied F ps pd c)))"

definition moved ::
  "(string list \<Rightarrow> byte list \<Rightarrow> bool) \<Rightarrow> string list \<Rightarrow> string list \<Rightarrow> fsys \<Rightarrow> fsys \<Rightarrow> bool" where
  "moved R sp dp fs fs' \<longleftrightarrow> as_root fs' = as_root fs \<and> fs_disk fs' = fs_disk fs \<and>
     (\<forall>q. \<not> prefix_of sp q \<and> \<not> prefix_of dp q \<longrightarrow> view fs' q = view fs q) \<and>
     (\<forall>q. cell R (fs_disk fs) (sp @ q) (dp @ q) (view fs (sp @ q)) (view fs (dp @ q)) (view fs' (sp @ q)) (view fs' (dp @ q)))"

definition apart :: "string list \<Rightarrow> string list \<Rightarrow> bool" where
  "apart p q \<longleftrightarrow> \<not> prefix_of p q \<and> \<not> prefix_of q p"

lemma cell_refl [simp]: "cell R F ps pd s d s d"
  by (simp add: cell_def)

lemma cell_trans: "cell R F ps pd s d s1 d1 \<Longrightarrow> cell R F ps pd s1 d1 s2 d2 \<Longrightarrow> cell R F ps pd s d s2 d2"
  by (cases s; cases s1; cases d; cases d1) (auto simp: cell_def)

lemma moved_refl [simp]: "moved R sp dp fs fs"
  by (simp add: moved_def)

lemma moved_trans: "moved R sp dp fs fs1 \<Longrightarrow> moved R sp dp fs1 fs2 \<Longrightarrow> moved R sp dp fs fs2"
  unfolding moved_def by (auto intro: cell_trans)

lemma moved_cell:
  "moved R sp dp fs fs' \<Longrightarrow>
   cell R (fs_disk fs) (sp @ q) (dp @ q) (view fs (sp @ q)) (view fs (dp @ q)) (view fs' (sp @ q)) (view fs' (dp @ q))"
  by (simp add: moved_def)

lemma moved_fields: "moved R sp dp fs fs' \<Longrightarrow> as_root fs' = as_root fs \<and> fs_disk fs' = fs_disk fs"
  by (simp add: moved_def)

lemma moved_source_shrinks: "moved R sp dp fs fs' \<Longrightarrow> view fs' (sp @ q) \<noteq> Absent \<Longrightarrow>
    view fs' (sp @ q) = view fs (sp @ q)"
  by (drule moved_cell [of _ _ _ _ _ q]) (auto simp: cell_def)

lemma apart_child: "apart p q \<Longrightarrow> apart (p @ r) (q @ r')"
  by (auto simp: apart_def prefix_of_def append_eq_append_conv2)

lemma apart_not_nil: "apart p q \<Longrightarrow> p \<noteq> [] \<and> q \<noteq> []"
  by (auto simp: apart_def)

lemma apart_append: "apart p q \<Longrightarrow> \<not> prefix_of p (q @ r) \<and> \<not> prefix_of q (p @ r)"
  by (auto simp: apart_def prefix_of_def append_eq_append_conv2)

lemma prefix_of_append: "prefix_of (p @ q) (p @ r) \<longleftrightarrow> prefix_of q r"
  by (auto simp: prefix_of_def)

lemma prefix_of_appendD: "prefix_of (p @ q) r \<Longrightarrow> prefix_of p r"
  by (auto simp: prefix_of_def)

text \<open>A step below an entry of the two directories is a step below the directories.\<close>

lemma moved_child:
  assumes "apart sp dp" "moved R (sp @ [x]) (dp @ [x]) fs fs'"
  shows "moved R sp dp fs fs'"
proof -
  have out: "view fs' q = view fs q" if "\<not> prefix_of (sp @ [x]) q" "\<not> prefix_of (dp @ [x]) q" for q
    using assms(2) that by (simp add: moved_def)
  have "cell R (fs_disk fs) (sp @ q) (dp @ q) (view fs (sp @ q)) (view fs (dp @ q)) (view fs' (sp @ q)) (view fs' (dp @ q))" for q
  proof (cases "prefix_of [x] q")
    case True
    then obtain r where "q = x # r" by (auto simp: prefix_of_def)
    with moved_cell [OF assms(2), of r] show ?thesis by simp
  next
    case False
    have "\<not> prefix_of (sp @ [x]) (dp @ q)" "\<not> prefix_of (dp @ [x]) (sp @ q)"
      using apart_append [OF assms(1)] by (auto dest: prefix_of_appendD)
    with False have "view fs' (sp @ q) = view fs (sp @ q)" "view fs' (dp @ q) = view fs (dp @ q)"
      by (auto intro!: out simp: prefix_of_append)
    then show ?thesis by simp
  qed
  moreover have "view fs' q = view fs q" if "\<not> prefix_of sp q" "\<not> prefix_of dp q" for q
    using that by (auto intro!: out dest: prefix_of_appendD)
  ultimately show ?thesis using assms(2) by (simp add: moved_def)
qed

section \<open>The single steps satisfy it\<close>

text \<open>
  A file is removed by a move whose verification succeeded: what can be read of it has the
  digest of the empty content.
\<close>

definition removable ::
  "('c, 'x) sha_scheme \<Rightarrow> transfer_method \<Rightarrow> disk \<Rightarrow> string list \<Rightarrow> byte list \<Rightarrow> bool" where
  "removable H meth F p c \<longleftrightarrow> meth = TRANSFER \<and> digest H (legible F p c) = digest H []"

lemma transact_moved:
  assumes "streaming H" "apart (resolve s) (resolve d)" "view fs (resolve s) = IsFile c"
    and t: "transact_transfer_file H s d meth fs = Some (r, fs')"
  shows "moved (removable H meth (fs_disk fs)) (resolve s) (resolve d) fs fs'"
    and "r = TRANSACT_SUCCESS \<Longrightarrow> digest H (legible (fs_disk fs) (resolve s) c) = digest H []"
proof -
  let ?R = "removable H meth (fs_disk fs)"
  let ?sp = "resolve s" and ?dp = "resolve d"
  have src: "file_at (fs_root fs) ?sp = Some c" using assms(3) by (simp add: view_file)
  have pd: "?dp \<noteq> []" "\<not> prefix_of ?dp ?sp" using assms(2) apart_not_nil by (auto simp: apart_def)
  have "moved ?R ?sp ?dp fs fs' \<and> (r = TRANSACT_SUCCESS \<longrightarrow> digest H (legible (fs_disk fs) ?sp c) = digest H [])"
    using assms(1) src pd refl refl
  proof (cases rule: transact_cases [where meth = meth])
    case open_error
    with t show ?thesis by (simp add: TRANSACT_SUCCESS_def TRANSACT_ERR_OPEN_def)
  next
    case (copied_file fs2 fs3 r')
    note same = same_but_view [OF copied_file(3)]
    have d2: "view fs2 ?dp = IsFile (copied (fs_disk fs) ?sp ?dp c)" using copied_file(4) by (simp add: view_file)
    have d: "view fs ?dp \<noteq> IsDir" using copied_file(2) by (simp add: view_dir)
    have below: "view fs2 (?dp @ q) = Absent" "view fs (?dp @ q) = Absent" "view fs (?sp @ q) = Absent"
      if "q \<noteq> []" for q
      using view_below [OF _ that, of fs2 ?dp] view_below [OF _ that, of fs ?dp]
        view_below [OF _ that, of fs ?sp] d2 d assms(3) by force+
    have s2: "view fs2 (?sp @ q) = view fs (?sp @ q)" for q
      using apart_append [OF assms(2)] by (intro same) auto
    have m2: "moved ?R ?sp ?dp fs fs2"
    proof -
      have "cell ?R (fs_disk fs) (?sp @ q) (?dp @ q) (view fs (?sp @ q)) (view fs (?dp @ q)) (view fs2 (?sp @ q)) (view fs2 (?dp @ q))" for q
        using below [of q] s2 [of q] d2 d assms(3) by (cases "q = []") (auto simp: cell_def)
      then show ?thesis using same copied_file(3) by (simp add: moved_def same_but_def)
    qed
    have m3: "moved ?R ?sp ?dp fs2 fs3"
    proof (cases "r' = TRANSACT_SUCCESS \<and> meth = TRANSFER")
      case True
      then have rm: "?R ?sp c" using copied_file(5)
        by (auto simp: removable_def TRANSACT_SUCCESS_def TRANSACT_HASH_FAILED_def split: if_splits)
      obtain k where k: "sys_remove ?sp fs2 = (k, fs3)" using True copied_file(6) by (cases "sys_remove ?sp fs2") auto
      have f2: "file_at (fs_root fs2) ?sp = Some c" using s2 [of "[]"] assms(3) by (simp add: view_file)
      from sys_removeD [OF k f2] have sb: "same_but ?sp fs2 fs3"
        and gone: "fs3 = fs2 \<or> (\<forall>q. view fs3 (?sp @ q) = Absent)" by (simp_all add: view_absent)
      have "cell ?R (fs_disk fs) (?sp @ q) (?dp @ q) (view fs2 (?sp @ q)) (view fs2 (?dp @ q)) (view fs3 (?sp @ q)) (view fs3 (?dp @ q))" for q
      proof -
        have "view fs3 (?dp @ q) = view fs2 (?dp @ q)"
          using apart_append [OF assms(2)] by (intro same_but_view [OF sb]) auto
        moreover have "fs3 = fs2 \<or> view fs3 (?sp @ q) = Absent" using gone by blast
        ultimately show ?thesis using rm below [of q] s2 [of q] d2 assms(3)
          by (cases "q = []") (auto simp: cell_def removable_def)
      qed
      then show ?thesis using sb copied_file(3) by (auto simp: moved_def same_but_def intro: same_but_view [OF sb])
    next
      case False
      with copied_file(6) have "fs3 = fs2" by auto
      then show ?thesis by simp
    qed
    from t copied_file(1) have "r = r'" "fs' = fs3" by simp_all
    with moved_trans [OF m2 m3] copied_file(5) show ?thesis
      by (auto simp: TRANSACT_SUCCESS_def TRANSACT_HASH_FAILED_def split: if_splits)
  qed
  then show "moved ?R ?sp ?dp fs fs'" "r = TRANSACT_SUCCESS \<Longrightarrow> digest H (legible (fs_disk fs) ?sp c) = digest H []"
    by auto
qed

lemma mkdir_moved:
  assumes "apart sp dp" "view fs sp = IsDir"
  shows "moved R sp dp fs (snd (sys_mkdir dp m fs))"
proof (cases "entry_at (fs_root fs) dp \<or> \<not> may_change fs dp")
  case True
  then show ?thesis by (simp add: sys_mkdir_def)
next
  case False
  let ?n = "Dir (and m (not (fs_umask fs))) []"
  have e: "snd (sys_mkdir dp m fs) = set_node dp (Some ?n) fs"
    using False by (simp add: sys_mkdir_def)
  have at: "view (set_node dp (Some ?n) fs) (dp @ q) = (if q = [] then IsDir else Absent)" for q
    using lookup_set_new [of fs dp ?n q] False by (cases q) (simp_all add: view_def)
  have "view fs dp = Absent" using False by (simp add: view_absent)
  then have before: "view fs (dp @ q) = Absent" for q
    using view_below [of fs dp q] by (cases "q = []") auto
  have other: "view (set_node dp (Some ?n) fs) q = view fs q" if "\<not> prefix_of dp q" for q
    by (rule same_but_view [OF same_but_set_node that])
  show ?thesis unfolding e using at before other apart_append [OF assms(1)] assms(2)
    by (auto simp: moved_def cell_def)
qed

section \<open>Names and path lengths\<close>

text \<open>
  \<open>tree_fits l sp fs\<close>: below \<open>sp\<close> every entry has a plain name, and a path string of length
  \<open>l\<close> extended by the entry's components still fits the buffers of 1024 bytes.
\<close>

definition path_len :: "string list \<Rightarrow> nat" where
  "path_len q = sum_list (map (\<lambda>x. Suc (length x)) q)"

definition tree_fits :: "nat \<Rightarrow> string list \<Rightarrow> fsys \<Rightarrow> bool" where
  "tree_fits l sp fs \<longleftrightarrow>
     (\<forall>q. view fs (sp @ q) \<noteq> Absent \<longrightarrow> l + path_len q < D_PATH_SIZE \<and> list_all plain_name q)"

lemma tree_fits_moved:
  "tree_fits l sp fs \<Longrightarrow> moved R sp dp fs fs' \<Longrightarrow> tree_fits l sp fs'"
  by (auto simp: tree_fits_def dest: moved_source_shrinks)

lemma tree_fits_child:
  assumes "tree_fits l sp fs"
  shows "tree_fits (l + Suc (length x)) (sp @ [x]) fs"
  unfolding tree_fits_def
proof (intro allI impI)
  fix q assume "view fs ((sp @ [x]) @ q) \<noteq> Absent"
  with assms have "l + path_len (x # q) < D_PATH_SIZE \<and> list_all plain_name (x # q)"
    unfolding tree_fits_def by (metis append.assoc append_Cons append_Nil)
  then show "l + Suc (length x) + path_len q < D_PATH_SIZE \<and> list_all plain_name q"
    by (simp add: path_len_def)
qed

text \<open>Names that may be processed: the two dots, or plain names short enough.\<close>

definition good_name :: "nat \<Rightarrow> string \<Rightarrow> bool" where
  "good_name l x \<longleftrightarrow> x = ''.'' \<or> x = ''..'' \<or> plain_name x \<and> l + Suc (length x) < D_PATH_SIZE"

lemma child_path_fits:
  "length dir + Suc (length x) < D_PATH_SIZE \<Longrightarrow> child_path dir x = dir @ CHR ''/'' # x"
  by (simp add: child_path_def snprintf_buf_fits)

lemma resolve_child_path:
  "plain_name x \<Longrightarrow> length dir + Suc (length x) < D_PATH_SIZE \<Longrightarrow>
   resolve (child_path dir x) = resolve dir @ [x]"
  by (simp add: child_path_fits resolve_child)

lemma opendir_names:
  assumes "sys_opendir sp fs = Some names" "x \<in> set names"
  shows "x = ''.'' \<or> x = ''..'' \<or> view fs (sp @ [x]) \<noteq> Absent"
proof -
  from assms(1) obtain m es where "lookup True (fs_root fs) sp = Some (Dir m es)"
    and "names = ''.'' # ''..'' # remdups (map fst es)"
    by (auto simp: sys_opendir_def node_of_def split: option.splits node.splits if_splits
        dest: lookup_root)
  with assms(2) show ?thesis
    by (auto simp: view_absent entry_at_def lookup_append dest: map_of_eq_None_iff [THEN iffD1]
        split: option.splits)
qed

lemma opendir_good:
  assumes "tree_fits l sp fs" "sys_opendir sp fs = Some names"
  shows "list_all (good_name l) names"
proof (clarsimp simp: list_all_iff)
  fix x assume "x \<in> set names"
  with opendir_names [OF assms(2)] assms(1) show "good_name l x"
    unfolding tree_fits_def by (fastforce simp: good_name_def path_len_def)
qed

lemma opendir_is_dir: "sys_opendir sp fs = Some names \<Longrightarrow> view fs sp = IsDir"
  by (auto simp: sys_opendir_def node_of_def view_def split: option.splits node.splits if_splits
      dest: lookup_root)

lemma node_of_view:
  "node_of fs p = Some (Dir m es) \<Longrightarrow> view fs p = IsDir"
  "node_of fs p = Some (File m c) \<Longrightarrow> view fs p = IsFile c"
  by (auto simp: node_of_def view_def dest: lookup_root)

section \<open>Every transfer keeps the contract\<close>

definition ready :: "string \<Rightarrow> string \<Rightarrow> fsys \<Rightarrow> bool" where
  "ready source destination fs \<longleftrightarrow> apart (resolve source) (resolve destination) \<and>
     tree_fits (length source) (resolve source) fs \<and>
     tree_fits (length destination) (resolve source) fs"

definition good_names :: "string \<Rightarrow> string \<Rightarrow> string list \<Rightarrow> bool" where
  "good_names source destination names \<longleftrightarrow>
     list_all (good_name (length source)) names \<and> list_all (good_name (length destination)) names"

lemma ready_moved:
  "ready source destination fs \<Longrightarrow> moved R (resolve source) (resolve destination) fs fs' \<Longrightarrow>
   ready source destination fs'"
  by (auto simp: ready_def intro: tree_fits_moved)

lemma good_names_Cons:
  assumes "good_names source destination (x # xs)" "x \<noteq> ''.''" "x \<noteq> ''..''"
  shows "resolve (child_path source x) = resolve source @ [x]"
    "resolve (child_path destination x) = resolve destination @ [x]"
    "length (child_path source x) = length source + Suc (length x)"
    "length (child_path destination x) = length destination + Suc (length x)"
    "plain_name x" "good_names source destination xs"
  using assms by (auto simp: good_names_def good_name_def resolve_child child_path_fits)

lemma ready_child:
  assumes "ready source destination fs" "good_names source destination (x # xs)"
    "x \<noteq> ''.''" "x \<noteq> ''..''"
  shows "ready (child_path source x) (child_path destination x) fs"
  using assms(1) good_names_Cons [OF assms(2-4)] tree_fits_child [of _ "resolve source" fs x]
  by (simp add: ready_def apart_child)

lemma begin_moved:
  assumes "ready source destination fs" "view fs (resolve source) = IsDir"
    "begin_directory source destination fs = (r, fs1)"
  shows "moved R (resolve source) (resolve destination) fs fs1"
    and "r = Some names \<Longrightarrow> good_names source destination names"
proof -
  from assms(3) have f: "fs1 = snd (sys_mkdir (resolve destination) 0x7 fs)"
    and r: "r = sys_opendir (resolve source) fs1"
    by (auto simp: begin_directory_def Let_def)
  from assms(1,2) show m: "moved R (resolve source) (resolve destination) fs fs1"
    unfolding f by (intro mkdir_moved) (simp_all add: ready_def)
  from ready_moved [OF assms(1) m] show "r = Some names \<Longrightarrow> good_names source destination names"
    unfolding r by (auto simp: good_names_def ready_def intro: opendir_good)
qed

text \<open>
  The loop as a relation between its start and its end, one rule per branch of the source:
  the proofs below are inductions over it.
\<close>

inductive transfer_run ::
  "('c, 'x) sha_scheme \<Rightarrow> transfer_method \<Rightarrow> string \<Rightarrow> string \<Rightarrow> string list \<Rightarrow> int \<Rightarrow> fsys \<Rightarrow>
     int \<Rightarrow> fsys \<Rightarrow> bool" for H meth where
  finished: "transfer_run H meth source destination [] e fs e fs"
| skipped: "x = ''.'' \<or> x = ''..'' \<or> node_of fs (resolve (child_path source x)) = None \<Longrightarrow>
    transfer_run H meth source destination xs e fs e' fs' \<Longrightarrow>
    transfer_run H meth source destination (x # xs) e fs e' fs'"
| unknown: "x \<noteq> ''.'' \<Longrightarrow> x \<noteq> ''..'' \<Longrightarrow> node_of fs (resolve (child_path source x)) = Some (File m c) \<Longrightarrow>
    meth = NoMethod k \<Longrightarrow>
    transfer_run H meth source destination xs (e + 1) fs e' fs' \<Longrightarrow>
    transfer_run H meth source destination (x # xs) e fs e' fs'"
| one_file: "x \<noteq> ''.'' \<Longrightarrow> x \<noteq> ''..'' \<Longrightarrow> node_of fs (resolve (child_path source x)) = Some (File m c) \<Longrightarrow>
    meth \<in> {BACKUP, TRANSFER} \<Longrightarrow>
    transact_transfer_file H (child_path source x) (child_path destination x) meth fs = Some (r, fs1) \<Longrightarrow>
    transfer_run H meth source destination xs (if r \<noteq> TRANSACT_SUCCESS then e + 1 else e) fs1 e' fs' \<Longrightarrow>
    transfer_run H meth source destination (x # xs) e fs e' fs'"
| closed_dir: "x \<noteq> ''.'' \<Longrightarrow> x \<noteq> ''..'' \<Longrightarrow> node_of fs (resolve (child_path source x)) = Some (Dir m es) \<Longrightarrow>
    begin_directory (child_path source x) (child_path destination x) fs = (None, fs1) \<Longrightarrow>
    transfer_run H meth source destination xs (e + 1) fs1 e' fs' \<Longrightarrow>
    transfer_run H meth source destination (x # xs) e fs e' fs'"
| sub_dir: "x \<noteq> ''.'' \<Longrightarrow> x \<noteq> ''..'' \<Longrightarrow> node_of fs (resolve (child_path source x)) = Some (Dir m es) \<Longrightarrow>
    begin_directory (child_path source x) (child_path destination x) fs = (Some names, fs1) \<Longrightarrow>
    transfer_run H meth (child_path source x) (child_path destination x) names 0 fs1 k fs2 \<Longrightarrow>
    transfer_run H meth source destination xs (e + k) fs2 e' fs' \<Longrightarrow>
    transfer_run H meth source destination (x # xs) e fs e' fs'"

lemma transfer_entries_run:
  "transfer_entries H fuel source destination meth names e fs = Some (e', fs') \<Longrightarrow>
   transfer_run H meth source destination names e fs e' fs'"
proof (induction fuel arbitrary: source destination names e fs e' fs' rule: less_induct)
  case (less fuel)
  from less.prems show ?case
  proof (induction names arbitrary: e fs)
    case Nil
    then show ?case by (simp add: transfer_run.finished)
  next
    case (Cons x xs)
    let ?S = "child_path source x" and ?D = "child_path destination x"
    show ?case
    proof (cases "(x = ''.'' \<or> x = ''..'') \<or> node_of fs (resolve ?S) = None")
      case True
      with Cons show ?thesis
        by (auto simp: Let_def intro: transfer_run.skipped split: if_splits)
    next
      case False
      then obtain n where nd: "x \<noteq> ''.''" "x \<noteq> ''..''" and n: "node_of fs (resolve ?S) = Some n"
        by auto
      show ?thesis
      proof (cases n)
        case (File m c)
        with n have f: "node_of fs (resolve ?S) = Some (File m c)" by simp
        show ?thesis
        proof (cases "meth \<in> {BACKUP, TRANSFER}")
          case True
          with Cons.prems nd f obtain r fs1
            where t: "transact_transfer_file H ?S ?D meth fs = Some (r, fs1)"
            and "transfer_entries H fuel source destination meth xs
               (if r \<noteq> TRANSACT_SUCCESS then e + 1 else e) fs1 = Some (e', fs')"
            by (auto simp: Let_def split: option.splits)
          with Cons.IH show ?thesis by (intro transfer_run.one_file [OF nd f True t])
        next
          case False
          then obtain k where "meth = NoMethod k" by (cases meth) auto
          with Cons nd f show ?thesis by (auto simp: Let_def intro: transfer_run.unknown)
        qed
      next
        case (Dir m es)
        with n have d: "node_of fs (resolve ?S) = Some (Dir m es)" by simp
        with Cons.prems nd obtain n' where fuel: "fuel = Suc n'"
          by (cases fuel) (auto simp: Let_def)
        obtain b fs1 where b: "begin_directory ?S ?D fs = (b, fs1)" by force
        show ?thesis
        proof (cases b)
          case None
          with Cons nd d fuel b show ?thesis
            by (auto simp: Let_def intro: transfer_run.closed_dir)
        next
          case (Some ns)
          with b have b': "begin_directory ?S ?D fs = (Some ns, fs1)" by simp
          with Cons.prems nd d fuel obtain k fs2
            where inner: "transfer_entries H n' ?S ?D meth ns 0 fs1 = Some (k, fs2)"
            and rest: "transfer_entries H fuel source destination meth xs (e + k) fs2 = Some (e', fs')"
            by (auto simp: Let_def split: option.splits)
          show ?thesis
            by (rule transfer_run.sub_dir [OF nd d b' less.IH [OF _ inner] Cons.IH [OF rest]])
              (simp add: fuel)
        qed
      qed
    qed
  qed
qed

lemma transfer_run_moved:
  assumes "transfer_run H meth source destination names e fs e' fs'" "streaming H"
    "ready source destination fs" "good_names source destination names" "fs_disk fs = F"
  shows "moved (removable H meth F) (resolve source) (resolve destination) fs fs' \<and> e \<le> e'"
  using assms
proof (induction rule: transfer_run.induct)
  case (finished source destination e fs)
  then show ?case by simp
next
  case (skipped x fs source destination xs e e' fs')
  then show ?case by (simp add: good_names_def)
next
  case (unknown x fs source m c k destination xs e e' fs')
  then have "moved (removable H meth F) (resolve source) (resolve destination) fs fs' \<and> e + 1 \<le> e'"
    by (simp add: good_names_def)
  then show ?case by simp
next
  case (one_file x fs source m c destination r fs1 xs e e' fs')
  note nd = one_file.hyps(1,2)
  note gn = good_names_Cons [OF one_file.prems(3) nd]
  from ready_child [OF one_file.prems(2,3) nd]
  have "moved (removable H meth F) (resolve (child_path source x)) (resolve (child_path destination x)) fs fs1"
    using transact_moved(1) [OF one_file.prems(1) _ node_of_view(2) [OF one_file.hyps(3)] one_file.hyps(5)]
      one_file.prems(4) by (simp add: ready_def)
  then have m: "moved (removable H meth F) (resolve source) (resolve destination) fs fs1"
    using one_file.prems(2) moved_child by (simp add: gn ready_def)
  from one_file.IH [OF one_file.prems(1) ready_moved [OF one_file.prems(2) m] gn(6)] moved_trans [OF m]
    moved_fields [OF m] one_file.prems(4)
  show ?case by (auto split: if_splits)
next
  case (closed_dir x fs source m es destination fs1 xs e e' fs')
  note nd = closed_dir.hyps(1,2)
  note gn = good_names_Cons [OF closed_dir.prems(3) nd]
  from begin_moved(1) [where R = "removable H meth F", OF ready_child [OF closed_dir.prems(2,3) nd]
      node_of_view(1) [OF closed_dir.hyps(3)] closed_dir.hyps(4)]
  have m: "moved (removable H meth F) (resolve source) (resolve destination) fs fs1"
    using closed_dir.prems(2) moved_child by (simp add: gn ready_def)
  from closed_dir.IH [OF closed_dir.prems(1) ready_moved [OF closed_dir.prems(2) m] gn(6)] moved_trans [OF m]
    moved_fields [OF m] closed_dir.prems(4)
  show ?case by auto
next
  case (sub_dir x fs source m es destination names fs1 k fs2 xs e e' fs')
  note nd = sub_dir.hyps(1,2)
  note gn = good_names_Cons [OF sub_dir.prems(3) nd]
  note rc = ready_child [OF sub_dir.prems(2,3) nd]
  note vd = node_of_view(1) [OF sub_dir.hyps(3)]
  note m1 = begin_moved(1) [where R = "removable H meth F", OF rc vd sub_dir.hyps(4)]
  note good = begin_moved(2) [OF rc vd sub_dir.hyps(4) refl]
  from sub_dir.IH(1) [OF sub_dir.prems(1) ready_moved [OF rc m1] good] moved_fields [OF m1] sub_dir.prems(4)
  have k: "0 \<le> k" and "moved (removable H meth F) (resolve (child_path source x)) (resolve (child_path destination x)) fs fs2"
    using moved_trans [OF m1] by auto
  then have m: "moved (removable H meth F) (resolve source) (resolve destination) fs fs2"
    using sub_dir.prems(2) moved_child by (simp add: gn ready_def)
  from sub_dir.IH(2) [OF sub_dir.prems(1) ready_moved [OF sub_dir.prems(2) m] gn(6)] moved_trans [OF m] k
    moved_fields [OF m] sub_dir.prems(4)
  show ?case by auto
qed

end
