(* ===== verification/RM_TransferThms.thy ===== *)
theory RM_TransferThms
  imports RM_Transfer
begin

unbundle bit_operations_syntax

text \<open>
  The properties of \<open>transfer_directory\<close>: it ends, it removes a file only after copying what
  can be read of it, as root it copies the whole source, and the number it returns is that
  of the files whose legible content has another digest than the empty file.
\<close>

section \<open>Enough fuel\<close>

definition deep :: "nat \<Rightarrow> string list \<Rightarrow> fsys \<Rightarrow> bool" where
  "deep n sp fs \<longleftrightarrow> (\<forall>q. view fs (sp @ q) \<noteq> Absent \<longrightarrow> length q \<le> n)"

lemma deep_moved: "deep n sp fs \<Longrightarrow> moved R sp dp fs fs' \<Longrightarrow> deep n sp fs'"
  by (auto simp: deep_def dest: moved_source_shrinks)

lemma deep_child:
  assumes "deep (Suc n) sp fs"
  shows "deep n (sp @ [x]) fs"
  unfolding deep_def
proof (intro allI impI)
  fix q assume "view fs ((sp @ [x]) @ q) \<noteq> Absent"
  then have "view fs (sp @ (x # q)) \<noteq> Absent" by simp
  with assms have "length (x # q) \<le> Suc n" unfolding deep_def by blast
  then show "length q \<le> n" by simp
qed

lemma transact_returns:
  assumes "streaming H" "apart (resolve s) (resolve d)" "view fs (resolve s) = IsFile c"
  obtains r fs' where "transact_transfer_file H s d meth fs = Some (r, fs')"
proof -
  have src: "file_at (fs_root fs) (resolve s) = Some c" using assms(3) by (simp add: view_file)
  have pd: "resolve d \<noteq> []" "\<not> prefix_of (resolve d) (resolve s)"
    using assms(2) apart_not_nil by (auto simp: apart_def)
  from assms(1) src pd refl refl show ?thesis
    using that by (cases rule: transact_cases [where meth = meth])
qed

lemma transfer_entries_returns:
  assumes "streaming H" "ready source destination fs" "good_names source destination names"
    "deep fuel (resolve source) fs" "fs_disk fs = F"
  shows "\<exists>e' fs'. transfer_entries H fuel source destination meth names e fs = Some (e', fs')"
  using assms
proof (induction fuel arbitrary: source destination names e fs rule: less_induct)
  case (less fuel)
  from less.prems show ?case
  proof (induction names arbitrary: e fs)
    case Nil
    then show ?case by simp
  next
    case (Cons x xs)
    let ?S = "child_path source x" and ?D = "child_path destination x"
    have gxs: "good_names source destination xs" using Cons.prems(3) by (simp add: good_names_def)
    note F = Cons.prems(5)
    have go: "\<exists>e' fs'. transfer_entries H fuel source destination meth xs k fs1 = Some (e', fs')"
      if "moved (removable H meth F) (resolve source) (resolve destination) fs fs1" for k fs1
      by (rule Cons.IH [OF Cons.prems(1) ready_moved [OF Cons.prems(2) that] gxs
            deep_moved [OF Cons.prems(4) that]]) (use moved_fields [OF that] Cons.prems(5) in simp)
    show ?case
    proof (cases "(x = ''.'' \<or> x = ''..'') \<or> node_of fs (resolve ?S) = None")
      case True
      with go [OF moved_refl] show ?thesis by (auto simp: Let_def)
    next
      case False
      then obtain n where nd: "x \<noteq> ''.''" "x \<noteq> ''..''" and n: "node_of fs (resolve ?S) = Some n"
        by auto
      note gn = good_names_Cons [OF Cons.prems(3) nd]
      note rc = ready_child [OF Cons.prems(2,3) nd]
      have up: "moved (removable H meth F) (resolve source) (resolve destination) fs fs1"
        if "moved (removable H meth F) (resolve ?S) (resolve ?D) fs fs1" for fs1
        using that Cons.prems(2) moved_child by (simp add: gn ready_def)
      show ?thesis
      proof (cases n)
        case (File m c)
        with n have v: "view fs (resolve ?S) = IsFile c" by (simp add: node_of_view(2))
        have ap: "apart (resolve ?S) (resolve ?D)" using rc by (simp add: ready_def)
        obtain r fs1 where t: "transact_transfer_file H ?S ?D meth fs = Some (r, fs1)"
          by (rule transact_returns [OF Cons.prems(1) ap v])
        from go [OF up [OF transact_moved(1) [OF Cons.prems(1) ap v t, unfolded F]]] go [OF moved_refl]
        show ?thesis using nd n File t by (auto simp: Let_def split: transfer_method.split)
      next
        case (Dir m es)
        with n have v: "view fs (resolve ?S) = IsDir" by (simp add: node_of_view(1))
        with Cons.prems(4) gn(1) have "length [x] \<le> fuel"
          unfolding deep_def by (metis view.distinct(3))
        then obtain n' where fuel: "fuel = Suc n'" by (cases fuel) auto
        obtain b fs1 where b: "begin_directory ?S ?D fs = (b, fs1)" by force
        note m1 = begin_moved(1) [where R = "removable H meth F", OF rc v b]
        show ?thesis
        proof (cases b)
          case None
          with go [OF up [OF m1]] nd n Dir fuel b show ?thesis by (simp add: Let_def)
        next
          case (Some ns)
          have good: "good_names ?S ?D ns" by (rule begin_moved(2) [OF rc v b Some])
          have dc: "deep n' (resolve ?S) fs1"
            using deep_moved [OF _ m1, of n'] deep_child Cons.prems(4) fuel by (simp add: gn)
          from less.IH [OF _ Cons.prems(1) ready_moved [OF rc m1] good dc, of 0] fuel
            moved_fields [OF m1] F
          obtain k fs2 where inner: "transfer_entries H n' ?S ?D meth ns 0 fs1 = Some (k, fs2)"
            by auto
          then have "moved (removable H meth F) (resolve ?S) (resolve ?D) fs1 fs2"
            using transfer_run_moved [OF transfer_entries_run Cons.prems(1) ready_moved [OF rc m1] good]
              moved_fields [OF m1] F by blast
          from go [OF up [OF moved_trans [OF m1 this]]]
          show ?thesis using nd n Dir fuel b Some inner by (simp add: Let_def)
        qed
      qed
    qed
  qed
qed

section \<open>Whole directories\<close>

lemma transfer_directory_moved:
  assumes "streaming H" "ready source destination fs" "view fs (resolve source) = IsDir"
    "transfer_directory H fuel source destination meth fs = Some (e, fs')"
  shows "moved (removable H meth (fs_disk fs)) (resolve source) (resolve destination) fs fs' \<and> 0 \<le> e"
proof -
  obtain b fs1 where b: "begin_directory source destination fs = (b, fs1)" by force
  note m1 = begin_moved(1) [where R = "removable H meth (fs_disk fs)", OF assms(2,3) b]
  show ?thesis
  proof (cases b)
    case None
    with assms(4) b m1 show ?thesis by (auto simp: transfer_directory_def)
  next
    case (Some names)
    with assms(4) b have "transfer_entries H fuel source destination meth names 0 fs1 = Some (e, fs')"
      by (simp add: transfer_directory_def)
    from transfer_run_moved [OF transfer_entries_run [OF this] assms(1) ready_moved [OF assms(2) m1]
        begin_moved(2) [OF assms(2,3) b Some]] moved_fields [OF m1]
    show ?thesis using moved_trans [OF m1] by auto
  qed
qed

section \<open>Copying as root\<close>

text \<open>No file of the source meets a directory at its destination, or the reverse.\<close>

definition fits_over :: "view \<Rightarrow> view \<Rightarrow> bool" where
  "fits_over s d \<longleftrightarrow> \<not> ((\<exists>c. s = IsFile c) \<and> d = IsDir) \<and> \<not> (s = IsDir \<and> (\<exists>c. d = IsFile c))"

definition compatible :: "string list \<Rightarrow> string list \<Rightarrow> fsys \<Rightarrow> bool" where
  "compatible sp dp fs \<longleftrightarrow> (\<forall>q. fits_over (view fs (sp @ q)) (view fs (dp @ q)))"

lemma fits_over_cell: "fits_over s d \<Longrightarrow> cell R F ps pd s d s' d' \<Longrightarrow> fits_over s' d'"
  by (cases s; cases d) (auto simp: fits_over_def cell_def)

lemma compatible_moved: "compatible sp dp fs \<Longrightarrow> moved R sp dp fs fs' \<Longrightarrow> compatible sp dp fs'"
  unfolding compatible_def by (blast intro: fits_over_cell moved_cell)

lemma compatible_child: "compatible sp dp fs \<Longrightarrow> compatible (sp @ [x]) (dp @ [x]) fs"
  by (simp add: compatible_def)

lemma moved_root: "moved R sp dp fs fs' \<Longrightarrow> as_root fs' = as_root fs"
  by (simp add: moved_def)

lemma moved_dest_dir: "moved R sp dp fs fs' \<Longrightarrow> view fs (dp @ q) = IsDir \<Longrightarrow> view fs' (dp @ q) = IsDir"
  by (drule moved_cell [of _ _ _ _ _ q]) (auto simp: cell_def)

text \<open>A copy stays a copy.\<close>

definition copy_at :: "string list \<Rightarrow> string list \<Rightarrow> fsys \<Rightarrow> string list \<Rightarrow> byte list \<Rightarrow> bool" where
  "copy_at sp dp fs q c \<longleftrightarrow> 
     view fs (dp @ q) = IsFile (copied (fs_disk fs) (sp @ q) (dp @ q) c) \<and> view fs (sp @ q) \<in> {IsFile c, Absent}"

lemma copy_at_moved: "copy_at sp dp fs q c \<Longrightarrow> moved R sp dp fs fs' \<Longrightarrow> copy_at sp dp fs' q c"
  using moved_cell [of R sp dp fs fs' q] moved_fields [of R sp dp fs fs']
  by (auto simp: copy_at_def cell_def)

lemma source_or_copy:
  assumes "moved R sp dp fs fs'" "view fs (sp @ q) = IsFile c"
  shows "view fs' (sp @ q) = IsFile c \<or> copy_at sp dp fs' q c \<and> R (sp @ q) c \<and> view fs' (sp @ q) = Absent"
  using moved_cell [OF assms(1), of q] moved_fields [OF assms(1)] assms(2) by (auto simp: cell_def copy_at_def)

lemma may_change_root:
  assumes "as_root fs" "view fs p = IsDir"
  shows "may_change fs (p @ [x])"
  using assms by (auto simp: may_change_def node_of_def view_dir dir_at_lookup)

text \<open>A file whose verification against an empty stream fails.\<close>

definition suspect :: "('c, 'x) sha_scheme \<Rightarrow> disk \<Rightarrow> string list \<Rightarrow> byte list \<Rightarrow> bool" where
  "suspect H F p c \<longleftrightarrow> digest H (legible F p c) \<noteq> digest H []"

lemma not_removable: "suspect H F p c \<Longrightarrow> \<not> removable H meth F p c"
  by (simp add: suspect_def removable_def)

text \<open>A file that was dealt with: copied, and gone from the source where a move verified it.\<close>

definition handled ::
  "('c, 'x) sha_scheme \<Rightarrow> transfer_method \<Rightarrow> string list \<Rightarrow> string list \<Rightarrow> fsys \<Rightarrow> string list \<Rightarrow>
     byte list \<Rightarrow> bool" where
  "handled H meth sp dp fs q c \<longleftrightarrow> copy_at sp dp fs q c \<and>
     (meth = TRANSFER \<and> \<not> suspect H (fs_disk fs) (sp @ q) c \<longrightarrow> view fs (sp @ q) = Absent)"

lemma handled_moved:
  "handled H meth sp dp fs q c \<Longrightarrow> moved R sp dp fs fs' \<Longrightarrow> handled H meth sp dp fs' q c"
  using copy_at_moved [of sp dp fs q c R fs'] moved_cell [of R sp dp fs fs' q]
    moved_fields [of R sp dp fs fs'] by (auto simp: handled_def cell_def)

lemma removed_handled:
  "copy_at sp dp fs q c \<Longrightarrow> view fs (sp @ q) = Absent \<Longrightarrow> handled H meth sp dp fs q c"
  by (simp add: handled_def)

lemma may_change_file:
  assumes "file_at (fs_root fs) p = Some c" "p \<noteq> []" "as_root fs"
  shows "may_change fs p"
proof -
  from assms(2) have p: "p = butlast p @ [last p]" by simp
  from assms(1) p obtain m where "lookup True (fs_root fs) (butlast p @ [last p]) = Some (File m c)"
    by (metis file_at_lookup)
  then obtain m' es where "lookup True (fs_root fs) (butlast p) = Some (Dir m' es)"
    by (rule found_parent)
  with assms(2,3) show ?thesis by (simp add: may_change_def node_of_def)
qed

lemma remove_root:
  assumes "file_at (fs_root fs) p = Some c" "p \<noteq> []" "as_root fs"
  shows "sys_remove p fs = (0, set_node p None fs)"
  using assms may_change_file [OF assms] by (auto simp: sys_remove_def node_of_def file_at_lookup)

lemma transact_root:
  assumes "streaming H" "apart (resolve s) (resolve d)" "view fs (resolve s) = IsFile c"
    "as_root fs" "resolve d = dp @ [x]" "view fs dp = IsDir" "view fs (resolve d) \<noteq> IsDir"
    "transact_transfer_file H s d meth fs = Some (r, fs')"
  shows "handled H meth (resolve s) (resolve d) fs' [] c"
    and "r = (if suspect H (fs_disk fs) (resolve s) c then TRANSACT_HASH_FAILED else TRANSACT_SUCCESS)"
proof -
  let ?sp = "resolve s" and ?dp = "resolve d"
  have src: "file_at (fs_root fs) ?sp = Some c" using assms(3) by (simp add: view_file)
  have pd: "?dp \<noteq> []" "\<not> prefix_of ?dp ?sp" using assms(2) apart_not_nil by (auto simp: apart_def)
  have rb: "fopen_rb ?sp fs \<noteq> None"
    using src assms(4) by (auto simp: fopen_rb_def node_of_def file_at_lookup)
  have "may_change fs ?dp" using may_change_root [OF assms(4,6)] assms(5) by simp
  then have wb: "fopen_wb ?dp fs \<noteq> None"
    using assms(4,7) by (auto simp: fopen_wb_def node_of_def entry_at_def view_def split: option.splits node.splits)
  have not_open: "transact_transfer_file H s d meth fs \<noteq> Some (TRANSACT_ERR_OPEN, fs)"
    using rb wb
    by (auto simp: transact_transfer_file_def TRANSACT_SUCCESS_def TRANSACT_ERR_OPEN_def
        TRANSACT_HASH_FAILED_def split: option.splits if_splits transfer_method.splits)
  note m = transact_moved(1) [OF assms(1-3,8)]
  have "(meth = TRANSFER \<and> \<not> suspect H (fs_disk fs) ?sp c \<longrightarrow> view fs' ?sp = Absent) \<and>
      view fs' ?dp = IsFile (copied (fs_disk fs) ?sp ?dp c) \<and>
      r = (if suspect H (fs_disk fs) (resolve s) c then TRANSACT_HASH_FAILED else TRANSACT_SUCCESS)"
    using assms(1) src pd refl refl
  proof (cases rule: transact_cases [where meth = meth])
    case open_error
    with not_open show ?thesis by simp
  next
    case (copied_file fs2 fs3 r')
    have "view fs3 ?dp = view fs2 ?dp \<and>
      (r' = TRANSACT_SUCCESS \<and> meth = TRANSFER \<longrightarrow> view fs3 ?sp = Absent)"
    proof (cases "r' = TRANSACT_SUCCESS \<and> meth = TRANSFER")
      case True
      obtain k where k: "sys_remove ?sp fs2 = (k, fs3)" using True copied_file(6) by (cases "sys_remove ?sp fs2") auto
      have "view fs2 ?sp = IsFile c"
        using same_but_view [OF copied_file(3) pd(2)] assms(3) by simp
      then have "file_at (fs_root fs2) ?sp = Some c" by (simp add: view_file)
      from sys_removeD [OF k this] have sb: "same_but ?sp fs2 fs3" by simp
      have np: "\<not> prefix_of ?sp ?dp" using assms(2) by (simp add: apart_def)
      have "sys_remove ?sp fs2 = (0, set_node ?sp None fs2)"
        using \<open>file_at (fs_root fs2) ?sp = Some c\<close> copied_file(3) assms(2,4)
        by (intro remove_root) (auto simp: same_but_def dest: apart_not_nil)
      with k have gone: "view fs3 ?sp = Absent"
        using lookup_delete [OF may_change_file [of fs2 ?sp c], of "[]"]
          \<open>file_at (fs_root fs2) ?sp = Some c\<close> copied_file(3) assms(2,4)
        by (auto simp: same_but_def view_absent entry_at_def dest: apart_not_nil)
      with same_but_view [OF sb np] show ?thesis by simp
    next
      case False
      with copied_file(6) show ?thesis by auto
    qed
    with copied_file assms(8) show ?thesis
      by (auto simp: view_file suspect_def TRANSACT_SUCCESS_def TRANSACT_HASH_FAILED_def)
  qed
  then show "handled H meth ?sp ?dp fs' [] c"
    "r = (if suspect H (fs_disk fs) (resolve s) c then TRANSACT_HASH_FAILED else TRANSACT_SUCCESS)"
    using moved_cell [OF m, of "[]"] moved_fields [OF m] assms(3) by (auto simp: handled_def copy_at_def cell_def)
qed

lemma begin_root:
  assumes "as_root fs" "view fs (resolve s) = IsDir" "apart (resolve s) (resolve d)"
    "may_change fs (resolve d)" "\<nexists>c. view fs (resolve d) = IsFile c"
    "begin_directory s d fs = (b, fs1)"
  obtains names where "b = Some names" "view fs1 (resolve d) = IsDir"
    "\<And>x q. view fs1 (resolve s @ x # q) \<noteq> Absent \<Longrightarrow> x \<in> set names"
    "distinct (filter plain_name names)"
proof -
  let ?sp = "resolve s" and ?dp = "resolve d"
  from assms(6) have f: "fs1 = snd (sys_mkdir ?dp 0x7 fs)" and b: "b = sys_opendir ?sp fs1"
    by (auto simp: begin_directory_def Let_def)
  have m: "moved R ?sp ?dp fs fs1" for R
    unfolding f by (rule mkdir_moved [OF assms(3,2)])
  have r: "as_root fs1" using moved_root [OF m [of "\<lambda>_ _. True"]] assms(1) by simp
  have "view fs1 ?sp = IsDir"
    using moved_cell [OF m [of "\<lambda>_ _. True"], of "[]"] assms(2) by (simp add: cell_def)
  then obtain k es where l: "lookup True (fs_root fs1) ?sp = Some (Dir k es)"
    by (auto simp: view_dir dir_at_lookup)
  then have names: "b = Some (''.'' # ''..'' # remdups (map fst es))"
    using r by (simp add: b sys_opendir_def node_of_def)
  have "view fs1 ?dp = IsDir"
  proof (cases "view fs ?dp")
    case Absent
    then have e: "fs1 = set_node ?dp (Some (Dir (and 0x7 (not (fs_umask fs))) [])) fs"
      using assms(4) by (simp add: f sys_mkdir_def view_absent)
    then show ?thesis using lookup_set_new [OF assms(4), of _ "[]"] by (simp add: e view_def)
  next
    case (IsFile c)
    with assms(5) show ?thesis by blast
  next
    case IsDir
    with moved_dest_dir [OF m [of "\<lambda>_ _. True"], where q = "[]"] show ?thesis by simp
  qed
  moreover have "x \<in> set (''.'' # ''..'' # remdups (map fst es))" if "view fs1 (?sp @ x # q) \<noteq> Absent" for x q
  proof -
    from that l have "map_of es x \<noteq> None"
      by (auto simp: view_absent entry_at_def lookup_append split: option.splits)
    then show ?thesis by (auto simp: map_of_eq_None_iff)
  qed
  moreover have "distinct (filter plain_name (''.'' # ''..'' # remdups (map fst es)))"
    by (simp add: plain_name_def)
  ultimately show ?thesis using that names by blast
qed

text \<open>
  What a run of the loop does as root: it copies what is below the names it is given, and
  counts one error for each file there whose legible content has another digest than the
  empty one.
\<close>

definition suspects ::
  "('c, 'x) sha_scheme \<Rightarrow> string list \<Rightarrow> string list \<Rightarrow> fsys \<Rightarrow> string list set" where
  "suspects H sp names fs = {x # q | x q. x \<in> set names \<and> plain_name x \<and>
     (\<exists>c. view fs (sp @ x # q) = IsFile c \<and> suspect H (fs_disk fs) (sp @ x # q) c)}"

definition suspects_below :: "('c, 'x) sha_scheme \<Rightarrow> string list \<Rightarrow> fsys \<Rightarrow> string list set" where
  "suspects_below H sp fs =
     {q. \<exists>c. view fs (sp @ q) = IsFile c \<and> suspect H (fs_disk fs) (sp @ q) c}"

lemma finite_lookup: "finite {q. lookup True n q \<noteq> None}"
proof (induction n)
  case (File m c)
  have "{q. lookup True (File m c) q \<noteq> None} \<subseteq> {[]}"
  proof
    fix q assume "q \<in> {q. lookup True (File m c) q \<noteq> None}"
    then show "q \<in> {[]}" by (cases q) auto
  qed
  then show ?case by (rule finite_subset) simp
next
  case (Dir m es)
  let ?U = "insert [] (\<Union>e \<in> set es. Cons (fst e) ` {q. lookup True (snd e) q \<noteq> None})"
  have "{q. lookup True (Dir m es) q \<noteq> None} \<subseteq> ?U"
  proof
    fix q assume q: "q \<in> {q. lookup True (Dir m es) q \<noteq> None}"
    show "q \<in> ?U"
    proof (cases q)
      case (Cons x r)
      with q show ?thesis by (force split: option.splits dest: map_of_SomeD)
    qed simp
  qed
  moreover have "finite ?U"
    by (intro finite.insertI finite_UN_I finite_imageI Dir.IH) (auto intro: snds.intros)
  ultimately show ?case by (rule finite_subset)
qed

lemma finite_view: "finite {q. view fs (sp @ q) \<noteq> Absent}"
proof (cases "lookup True (fs_root fs) sp")
  case None
  then have "{q. view fs (sp @ q) \<noteq> Absent} = {}"
    by (simp add: view_absent entry_at_def lookup_append)
  then show ?thesis by simp
next
  case (Some n)
  then have "{q. view fs (sp @ q) \<noteq> Absent} = {q. lookup True n q \<noteq> None}"
    by (simp add: view_absent entry_at_def lookup_append)
  then show ?thesis using finite_lookup by simp
qed

lemma finite_suspects [simp]: "finite (suspects H sp names fs)"
  by (rule finite_subset [OF _ finite_view [of fs sp]]) (auto simp: suspects_def)

text \<open>A step of a transfer leaves the suspects where they are.\<close>

lemma suspect_moved:
  assumes "moved (removable H meth (fs_disk fs)) sp dp fs fs'"
  shows "(\<exists>c. view fs' (sp @ q) = IsFile c \<and> suspect H (fs_disk fs') (sp @ q) c) \<longleftrightarrow>
    (\<exists>c. view fs (sp @ q) = IsFile c \<and> suspect H (fs_disk fs) (sp @ q) c)"
  using moved_cell [OF assms, of q] moved_fields [OF assms]
  by (auto simp: cell_def dest: not_removable) (metis, metis)

lemma suspects_moved:
  "moved (removable H meth (fs_disk fs)) sp dp fs fs' \<Longrightarrow> suspects H sp names fs' = suspects H sp names fs"
  unfolding suspects_def by (simp only: suspect_moved)

lemma suspects_below_moved:
  "moved (removable H meth (fs_disk fs)) sp dp fs fs' \<Longrightarrow> suspects_below H sp fs' = suspects_below H sp fs"
  unfolding suspects_below_def by (simp only: suspect_moved)

text \<open>The suspects below a directory are those below its names.\<close>

lemma suspects_all:
  assumes "view fs sp = IsDir" "\<And>x q. view fs (sp @ x # q) \<noteq> Absent \<Longrightarrow> x \<in> set names \<and> plain_name x"
  shows "suspects H sp names fs = suspects_below H sp fs"
proof (rule set_eqI)
  fix q
  show "q \<in> suspects H sp names fs \<longleftrightarrow> q \<in> suspects_below H sp fs"
  proof (cases q)
    case Nil
    with assms(1) show ?thesis by (simp add: suspects_def suspects_below_def)
  next
    case (Cons x r)
    with assms(2) [of x r] show ?thesis by (auto simp: suspects_def suspects_below_def)
  qed
qed

lemma suspects_child:
  "plain_name x \<Longrightarrow> suspects H sp [x] fs = Cons x ` suspects_below H (sp @ [x]) fs"
  by (auto simp: suspects_def suspects_below_def)

lemma suspects_Cons:
  assumes "plain_name x \<Longrightarrow> x \<notin> set xs"
  shows "card (suspects H sp (x # xs) fs) = card (suspects H sp [x] fs) + card (suspects H sp xs fs)"
proof -
  have "suspects H sp (x # xs) fs = suspects H sp [x] fs \<union> suspects H sp xs fs"
    by (auto simp: suspects_def)
  moreover have "suspects H sp [x] fs \<inter> suspects H sp xs fs = {}"
    using assms by (auto simp: suspects_def)
  ultimately show ?thesis by (simp add: card_Un_disjoint)
qed

definition copies_below ::
  "('c, 'x) sha_scheme \<Rightarrow> transfer_method \<Rightarrow> string list \<Rightarrow> string list \<Rightarrow> string list \<Rightarrow> int \<Rightarrow> fsys \<Rightarrow> int \<Rightarrow> fsys \<Rightarrow> bool" where
  "copies_below H meth sp dp names e fs e' fs' \<longleftrightarrow>
     (\<forall>x \<in> set names. \<forall>q c. plain_name x \<and> view fs (sp @ x # q) = IsFile c \<longrightarrow>
        handled H meth sp dp fs' (x # q) c) \<and>
     e' = e + int (card (suspects H sp names fs))"

text \<open>Processing one name, then the rest.\<close>

lemma copies_below_Cons:
  assumes m1: "moved (removable H meth (fs_disk fs)) sp dp fs fs1"
    and m2: "moved (removable H meth (fs_disk fs)) sp dp fs1 fs'"
    and new: "plain_name x \<Longrightarrow> x \<notin> set xs"
    and hd: "\<And>q c. plain_name x \<Longrightarrow> view fs (sp @ x # q) = IsFile c \<Longrightarrow> handled H meth sp dp fs1 (x # q) c"
    and k: "k = e + int (card (suspects H sp [x] fs))"
    and tl: "copies_below H meth sp dp xs k fs1 e' fs'"
  shows "copies_below H meth sp dp (x # xs) e fs e' fs'"
  unfolding copies_below_def
proof (intro conjI ballI allI impI)
  fix y q c assume y: "y \<in> set (x # xs)" and v: "plain_name y \<and> view fs (sp @ y # q) = IsFile c"
  show "handled H meth sp dp fs' (y # q) c"
  proof (cases "y = x")
    case True
    with hd [of q c] v have "handled H meth sp dp fs1 (y # q) c" by auto
    with handled_moved [OF _ m2] show ?thesis by blast
  next
    case False
    with y have xs: "y \<in> set xs" by simp
    from source_or_copy [OF m1 conjunct2 [OF v]] show ?thesis
    proof
      assume "view fs1 (sp @ y # q) = IsFile c"
      with tl xs v show ?thesis unfolding copies_below_def by blast
    next
      assume "copy_at sp dp fs1 (y # q) c \<and> removable H meth (fs_disk fs) (sp @ y # q) c \<and>
        view fs1 (sp @ y # q) = Absent"
      with handled_moved [OF removed_handled m2] show ?thesis by blast
    qed
  qed
next
  show "e' = e + int (card (suspects H sp (x # xs) fs))"
    using tl suspects_moved [OF m1] suspects_Cons [where x = x and xs = xs and sp = sp and fs = fs and H = H, OF new]
    by (simp add: copies_below_def k)
qed

lemma root_nothing_below:
  assumes "as_root fs" "node_of fs p = None"
  shows "view fs (p @ q) = Absent"
  using assms by (simp add: node_of_def view_absent entry_at_def lookup_append)

lemma tree_fits_plain:
  "tree_fits l sp fs \<Longrightarrow> view fs (sp @ y # q) = IsFile c \<Longrightarrow> plain_name y"
  unfolding tree_fits_def by (metis list.pred_inject(2) view.distinct(1))

text \<open>What the head of a transfer leaves for the loop, as root.\<close>

lemma sub_directory_begin:
  assumes "ready s d fs" "as_root fs" "view fs (resolve s) = IsDir"
    "compatible (resolve s) (resolve d) fs" "may_change fs (resolve d)"
    "begin_directory s d fs = (Some names, fs1)"
  shows "moved R (resolve s) (resolve d) fs fs1 \<and> good_names s d names \<and> ready s d fs1 \<and>
    as_root fs1 \<and> view fs1 (resolve d) = IsDir \<and> compatible (resolve s) (resolve d) fs1 \<and>
    distinct (filter plain_name names) \<and>
    (\<forall>q. view fs1 (resolve s @ q) = view fs (resolve s @ q)) \<and>
    (\<forall>H. suspects H (resolve s) names fs1 = suspects_below H (resolve s) fs1) \<and>
    (\<forall>x q. view fs1 (resolve s @ x # q) \<noteq> Absent \<longrightarrow> x \<in> set names \<and> plain_name x)"
proof -
  have ap: "apart (resolve s) (resolve d)" using assms(1) by (simp add: ready_def)
  have nofile: "\<nexists>c. view fs (resolve d) = IsFile c"
    using assms(3,4) unfolding compatible_def fits_over_def by (metis append_Nil2)
  from begin_root [OF assms(2,3) ap assms(5) nofile assms(6)]
  have dd: "view fs1 (resolve d) = IsDir"
    and all: "\<And>x q. view fs1 (resolve s @ x # q) \<noteq> Absent \<Longrightarrow> x \<in> set names"
    and dn: "distinct (filter plain_name names)" by auto
  note m = begin_moved(1) [OF assms(1,3,6)]
  note good = begin_moved(2) [OF assms(1,3,6) refl]
  note rd = ready_moved [OF assms(1) m]
  have same: "view fs1 (resolve s @ q) = view fs (resolve s @ q)" for q
    using moved_cell [OF m [where R = "\<lambda>_ _. False"], of q] by (simp add: cell_def)
  have plain: "plain_name x" if "view fs1 (resolve s @ x # q) \<noteq> Absent" for x q
  proof -
    from that rd have "list_all plain_name (x # q)"
      unfolding ready_def tree_fits_def by blast
    then show ?thesis by simp
  qed
  have "suspects H (resolve s) names fs1 = suspects_below H (resolve s) fs1" for H :: "('a, 'b) sha_scheme"
    using all plain same [of "[]"] assms(3) by (intro suspects_all) auto
  then show ?thesis using m good rd dd dn same all plain moved_root [OF m] assms(2)
      compatible_moved [OF assms(4) m] by blast
qed

lemma run_copies_below:
  assumes "transfer_run H meth source destination names e fs e' fs'" "streaming H"
    "ready source destination fs" "good_names source destination names" "as_root fs"
    "view fs (resolve destination) = IsDir" "compatible (resolve source) (resolve destination) fs"
    "meth = BACKUP \<or> meth = TRANSFER" "distinct (filter plain_name names)"
  shows "copies_below H meth (resolve source) (resolve destination) names e fs e' fs'"
  using assms
proof (induction rule: transfer_run.induct)
  case (finished source destination e fs)
  then show ?case by (simp add: copies_below_def suspects_def)
next
  case (skipped x fs source destination xs e e' fs')
  have gxs: "good_names source destination xs" using skipped.prems(3) by (simp add: good_names_def)
  have new: "plain_name x \<Longrightarrow> x \<notin> set xs" and dxs: "distinct (filter plain_name xs)"
    using skipped.prems(8) by (auto split: if_splits)
  have tl: "copies_below H meth (resolve source) (resolve destination) xs e fs e' fs'"
    using skipped.IH skipped.prems gxs dxs by blast
  note run = transfer_run_moved [OF skipped.hyps(2) skipped.prems(1,2) gxs refl]
  have none: "view fs (resolve source @ x # q) = Absent" if p: "plain_name x" for q
  proof -
    from p have nd: "x \<noteq> ''.''" "x \<noteq> ''..''" by (auto simp: plain_name_def)
    with skipped.hyps(1) have "node_of fs (resolve (child_path source x)) = None" by simp
    from root_nothing_below [OF skipped.prems(4) this, of q] good_names_Cons(1) [OF skipped.prems(3) nd]
    show ?thesis by simp
  qed
  then have "suspects H (resolve source) [x] fs = {}" by (auto simp: suspects_def)
  with none show ?case
    by (intro copies_below_Cons [OF moved_refl conjunct1 [OF run] new _ _ tl]) simp_all
next
  case (unknown x fs source m c k destination xs e e' fs')
  then show ?case by auto
next
  case (one_file x fs source m c destination r fs1 xs e e' fs')
  let ?S = "child_path source x" and ?D = "child_path destination x"
  note nd = one_file.hyps(1,2)
  note gn = good_names_Cons [OF one_file.prems(3) nd]
  have new: "plain_name x \<Longrightarrow> x \<notin> set xs" and dxs: "distinct (filter plain_name xs)"
    using one_file.prems(8) by (auto split: if_splits)
  note v = node_of_view(2) [OF one_file.hyps(3)]
  have ap: "apart (resolve ?S) (resolve ?D)"
    using ready_child [OF one_file.prems(2,3) nd] by (simp add: ready_def)
  note mc = transact_moved(1) [OF one_file.prems(1) ap v one_file.hyps(5)]
  have m: "moved (removable H meth (fs_disk fs)) (resolve source) (resolve destination) fs fs1"
    using mc one_file.prems(2) moved_child by (simp add: gn ready_def)
  have nodir: "view fs (resolve ?D) \<noteq> IsDir"
    using one_file.prems(6) v gn unfolding compatible_def fits_over_def by metis
  note tr = transact_root [OF one_file.prems(1) ap v one_file.prems(4) gn(2) one_file.prems(5) nodir
      one_file.hyps(5)]
  have dest: "view fs1 (resolve destination) = IsDir"
    using moved_dest_dir [OF m, of "[]"] one_file.prems(5) by simp
  note rd = ready_moved [OF one_file.prems(2) m]
  have tl: "copies_below H meth (resolve source) (resolve destination) xs
      (if r \<noteq> TRANSACT_SUCCESS then e + 1 else e) fs1 e' fs'"
    using one_file.IH [OF one_file.prems(1) rd gn(6) _ dest compatible_moved [OF one_file.prems(6) m]
      one_file.prems(7) dxs] moved_root [OF m] one_file.prems(4) by simp
  note run = transfer_run_moved [OF one_file.hyps(6) one_file.prems(1) rd gn(6) refl]
  have only: "view fs (resolve source @ x # q) = IsFile c' \<longleftrightarrow> q = [] \<and> c' = c" for q c'
    using view_below [of fs "resolve ?S" q] v by (cases "q = []") (force simp: gn)+
  then have "suspects H (resolve source) [x] fs =
      (if suspect H (fs_disk fs) (resolve ?S) c then {[x]} else {})"
    using gn(5) by (auto simp: suspects_def gn(1))
  then show ?case using tr(1) moved_fields [OF m] run
    by (intro copies_below_Cons [OF m _ new _ _ tl])
      (auto simp: only handled_def copy_at_def gn tr(2) TRANSACT_SUCCESS_def TRANSACT_HASH_FAILED_def)
next
  case (closed_dir x fs source m es destination fs1 xs e e' fs')
  let ?S = "child_path source x" and ?D = "child_path destination x"
  note nd = closed_dir.hyps(1,2)
  note gn = good_names_Cons [OF closed_dir.prems(3) nd]
  note v = node_of_view(1) [OF closed_dir.hyps(3)]
  have ap: "apart (resolve ?S) (resolve ?D)"
    using ready_child [OF closed_dir.prems(2,3) nd] by (simp add: ready_def)
  have nofile: "\<nexists>c. view fs (resolve ?D) = IsFile c"
    using closed_dir.prems(6) v gn unfolding compatible_def fits_over_def by metis
  have mayc: "may_change fs (resolve ?D)"
    using may_change_root [OF closed_dir.prems(4,5)] by (simp add: gn)
  from begin_root [OF closed_dir.prems(4) v ap mayc nofile closed_dir.hyps(4)] show ?case by auto
next
  case (sub_dir x fs source m es destination names fs1 k fs2 xs e e' fs')
  let ?S = "child_path source x" and ?D = "child_path destination x"
  note nd = sub_dir.hyps(1,2)
  note gn = good_names_Cons [OF sub_dir.prems(3) nd]
  have new: "plain_name x \<Longrightarrow> x \<notin> set xs" and dxs: "distinct (filter plain_name xs)"
    using sub_dir.prems(8) by (auto split: if_splits)
  note v = node_of_view(1) [OF sub_dir.hyps(3)]
  note rc = ready_child [OF sub_dir.prems(2,3) nd]
  have mayc: "may_change fs (resolve ?D)"
    using may_change_root [OF sub_dir.prems(4,5)] by (simp add: gn)
  have cm: "compatible (resolve ?S) (resolve ?D) fs"
    using compatible_child [OF sub_dir.prems(6)] by (simp add: gn)
  from sub_directory_begin [OF rc sub_dir.prems(4) v cm mayc sub_dir.hyps(4)]
  have m1: "moved (removable H meth (fs_disk fs)) (resolve ?S) (resolve ?D) fs fs1"
    and good: "good_names ?S ?D names" and rd1: "ready ?S ?D fs1" and r1: "as_root fs1"
    and dd: "view fs1 (resolve ?D) = IsDir" and cc: "compatible (resolve ?S) (resolve ?D) fs1"
    and dn: "distinct (filter plain_name names)"
    and same: "\<And>q. view fs1 (resolve ?S @ q) = view fs (resolve ?S @ q)"
    and all: "\<And>s. suspects s (resolve ?S) names fs1 = suspects_below s (resolve ?S) fs1"
    and names: "\<And>y q. view fs1 (resolve ?S @ y # q) \<noteq> Absent \<Longrightarrow> y \<in> set names \<and> plain_name y"
    by blast+
  note disk = moved_fields [OF m1]
  note run1 = transfer_run_moved [OF sub_dir.hyps(5) sub_dir.prems(1) rd1 good]
  then have m2: "moved (removable H meth (fs_disk fs)) (resolve ?S) (resolve ?D) fs1 fs2"
    using disk by simp
  have inner: "copies_below H meth (resolve ?S) (resolve ?D) names 0 fs1 k fs2"
    by (rule sub_dir.IH(1) [OF sub_dir.prems(1) rd1 good r1 dd cc sub_dir.prems(7) dn])
  have m: "moved (removable H meth (fs_disk fs)) (resolve source) (resolve destination) fs fs2"
    using moved_trans [OF m1 m2] sub_dir.prems(2) moved_child by (simp add: gn ready_def)
  have dest: "view fs2 (resolve destination) = IsDir"
    using moved_dest_dir [OF m, of "[]"] sub_dir.prems(5) by simp
  note rd = ready_moved [OF sub_dir.prems(2) m]
  have tl: "copies_below H meth (resolve source) (resolve destination) xs (e + k) fs2 e' fs'"
    using sub_dir.IH(2) [OF sub_dir.prems(1) rd gn(6) _ dest compatible_moved [OF sub_dir.prems(6) m]
      sub_dir.prems(7) dxs] moved_root [OF m] sub_dir.prems(4) by simp
  note run = transfer_run_moved [OF sub_dir.hyps(6) sub_dir.prems(1) rd gn(6)]
  have "suspects H (resolve source) [x] fs = Cons x ` suspects H (resolve ?S) names fs1"
    unfolding all suspects_below_moved [OF m1] suspects_child [OF gn(5)] by (simp only: gn(1))
  then have "card (suspects H (resolve source) [x] fs) = card (suspects H (resolve ?S) names fs1)"
    by (simp add: card_image)
  then have k: "k = int (card (suspects H (resolve source) [x] fs))"
    using inner by (simp add: copies_below_def)
  show ?case
  proof (rule copies_below_Cons [OF m _ new _ _ tl])
    fix q c assume "view fs (resolve source @ x # q) = IsFile c"
    then have vf: "view fs (resolve ?S @ q) = IsFile c" by (simp add: gn)
    with v obtain y q' where q: "q = y # q'" by (cases q) auto
    with vf same have "view fs1 (resolve ?S @ y # q') = IsFile c" by simp
    with names [of y q'] inner have "handled H meth (resolve ?S) (resolve ?D) fs2 (y # q') c"
      unfolding copies_below_def by (metis view.distinct(1))
    then show "handled H meth (resolve source) (resolve destination) fs2 (x # q) c"
      by (simp add: handled_def copy_at_def gn q)
  qed (use run run1 moved_fields [OF m] k in auto)
qed

text \<open>The whole directory: the head, then the loop over every entry.\<close>

lemma transfer_directory_copies:
  assumes "streaming H" "ready source destination fs" "as_root fs" "view fs (resolve source) = IsDir"
    "compatible (resolve source) (resolve destination) fs" "may_change fs (resolve destination)"
    "meth = BACKUP \<or> meth = TRANSFER"
    "transfer_directory H fuel source destination meth fs = Some (e, fs')"
  shows "view fs (resolve source @ q) = IsFile c \<Longrightarrow> handled H meth (resolve source) (resolve destination) fs' q c"
    and "e = int (card (suspects_below H (resolve source) fs))"
proof -
  let ?sp = "resolve source" and ?dp = "resolve destination"
  obtain b fs1 where b: "begin_directory source destination fs = (b, fs1)" by force
  have ap: "apart ?sp ?dp" using assms(2) by (simp add: ready_def)
  have nofile: "\<nexists>c. view fs ?dp = IsFile c"
    using assms(4,5) unfolding compatible_def fits_over_def by (metis append_Nil2)
  obtain names where "b = Some names"
    by (rule begin_root [OF assms(3,4) ap assms(6) nofile b])
  with b have b: "begin_directory source destination fs = (Some names, fs1)" by simp
  from sub_directory_begin [OF assms(2-6) b]
  have m1: "moved (removable H meth (fs_disk fs)) ?sp ?dp fs fs1"
    and good: "good_names source destination names" and rd1: "ready source destination fs1"
    and r1: "as_root fs1" and dd: "view fs1 ?dp = IsDir" and cc: "compatible ?sp ?dp fs1"
    and dn: "distinct (filter plain_name names)"
    and same: "\<And>q. view fs1 (?sp @ q) = view fs (?sp @ q)"
    and all: "\<And>s. suspects s ?sp names fs1 = suspects_below s ?sp fs1"
    and nm: "\<And>y q. view fs1 (?sp @ y # q) \<noteq> Absent \<Longrightarrow> y \<in> set names \<and> plain_name y"
    by blast+
  from assms(8) b have "transfer_entries H fuel source destination meth names 0 fs1 = Some (e, fs')"
    by (simp add: transfer_directory_def)
  from run_copies_below [OF transfer_entries_run [OF this] assms(1) rd1 good r1 dd cc assms(7) dn]
  have cp: "copies_below H meth ?sp ?dp names 0 fs1 e fs'" .
  then show "e = int (card (suspects_below H ?sp fs))"
    unfolding copies_below_def all suspects_below_moved [OF m1] by simp
  assume f: "view fs (?sp @ q) = IsFile c"
  with assms(4) obtain y q' where q: "q = y # q'" by (cases q) auto
  have v1: "view fs1 (?sp @ y # q') = IsFile c" using f same [of q] q by simp
  with nm [of y q'] have "y \<in> set names \<and> plain_name y" by simp
  with cp v1 show "handled H meth ?sp ?dp fs' q c" unfolding copies_below_def q by blast
qed

lemma transfer_directory_returns:
  assumes "streaming H" "ready source destination fs" "view fs (resolve source) = IsDir"
    "deep fuel (resolve source) fs"
  shows "\<exists>e fs'. transfer_directory H fuel source destination meth fs = Some (e, fs')"
proof -
  obtain b fs1 where b: "begin_directory source destination fs = (b, fs1)" by force
  note m1 = begin_moved(1) [where R = "removable H meth (fs_disk fs)", OF assms(2,3) b]
  show ?thesis
  proof (cases b)
    case None
    with b show ?thesis by (simp add: transfer_directory_def)
  next
    case (Some names)
    from transfer_entries_returns [OF assms(1) ready_moved [OF assms(2) m1]
        begin_moved(2) [OF assms(2,3) b Some] deep_moved [OF assms(4) m1] refl] b Some
    show ?thesis by (simp add: transfer_directory_def)
  qed
qed

section \<open>Checking the hypotheses on a given tree\<close>

fun node_fits :: "nat \<Rightarrow> node \<Rightarrow> bool" where
  "node_fits l (File m c) \<longleftrightarrow> l < D_PATH_SIZE"
| "node_fits l (Dir m es) \<longleftrightarrow> l < D_PATH_SIZE \<and>
     list_all (\<lambda>e. plain_name (fst e) \<and> node_fits (l + Suc (length (fst e))) (snd e)) es"

fun node_depth :: "node \<Rightarrow> nat" where
  "node_depth (File m c) = 0"
| "node_depth (Dir m es) = fold max (map (\<lambda>e. Suc (node_depth (snd e))) es) 0"

lemma fold_max_le: "x \<in> set xs \<or> x \<le> k \<Longrightarrow> x \<le> fold max xs (k :: nat)"
proof (induction xs arbitrary: k)
  case (Cons a xs)
  from Cons.prems have "x \<in> set xs \<or> x \<le> max a k" by (auto simp: le_max_iff_disj)
  from Cons.IH [OF this] show ?case by (simp add: max.commute)
qed simp

lemma node_fits_lookup:
  "node_fits l n \<Longrightarrow> lookup True n q \<noteq> None \<Longrightarrow> l + path_len q < D_PATH_SIZE \<and> list_all plain_name q"
proof (induction l n arbitrary: q rule: node_fits.induct)
  case (1 l m c)
  then show ?case by (cases q) (auto simp: path_len_def)
next
  case (2 l m es)
  show ?case
  proof (cases q)
    case Nil
    with 2 show ?thesis by (simp add: path_len_def)
  next
    case (Cons x xs)
    with "2.prems" obtain n where n: "map_of es x = Some n" "lookup True n xs \<noteq> None"
      by (auto split: option.splits)
    then have xn: "(x, n) \<in> set es" by (blast dest: map_of_SomeD)
    with "2.prems" have "plain_name x" "node_fits (l + Suc (length x)) n"
      by (auto simp: list_all_iff)
    with "2.IH" [OF xn, of xs] n Cons show ?thesis by (simp add: path_len_def)
  qed
qed

lemma node_depth_lookup: "lookup True n q = Some y \<Longrightarrow> length q \<le> node_depth n"
proof (induction n arbitrary: q rule: node_depth.induct)
  case (1 m c)
  then show ?case by (cases q) auto
next
  case (2 m es)
  show ?case
  proof (cases q)
    case Nil
    then show ?thesis by simp
  next
    case (Cons x xs)
    with "2.prems" obtain n where n: "map_of es x = Some n" "lookup True n xs = Some y"
      by (auto split: option.splits)
    then have xn: "(x, n) \<in> set es" by (blast dest: map_of_SomeD)
    from "2.IH" [OF xn, of xs] n have "length q \<le> Suc (node_depth n)" by (simp add: Cons)
    also have "\<dots> \<le> node_depth (Dir m es)"
      unfolding node_depth.simps by (rule fold_max_le) (use xn in force)
    finally show ?thesis .
  qed
qed

lemma view_lookup: "lookup True (fs_root fs) sp = Some n \<Longrightarrow>
    view fs (sp @ q) \<noteq> Absent \<longleftrightarrow> lookup True n q \<noteq> None"
  by (simp add: view_absent entry_at_def lookup_append)

lemma tree_fitsI: "lookup True (fs_root fs) sp = Some n \<Longrightarrow> node_fits l n \<Longrightarrow> tree_fits l sp fs"
  unfolding tree_fits_def by (simp add: view_lookup node_fits_lookup)

lemma deepI: "lookup True (fs_root fs) sp = Some n \<Longrightarrow> node_depth n \<le> k \<Longrightarrow> deep k sp fs"
  unfolding deep_def by (simp add: view_lookup) (blast intro: order_trans node_depth_lookup)

lemma compatible_absent:
  assumes "view fs dp = Absent"
  shows "compatible sp dp fs"
proof -
  have "view fs (dp @ q) = Absent" for q
    using assms view_below [of fs dp q] by (cases "q = []") auto
  then show ?thesis by (simp add: compatible_def fits_over_def)
qed

text \<open>A tree with an empty file, a non-empty one and a subdirectory.\<close>

definition sample_sha :: "byte list sha" where
  "sample_sha = \<lparr>sha_init = [], sha_update = (@), sha_final = id\<rparr>"

definition sample_fs :: fsys where
  "sample_fs = \<lparr>fs_root = Dir 0x1FF
     [(''s'', Dir 0x1FF [(''a'', File 0x1B6 [1, 2]), (''e'', File 0x1B6 []),
        (''t'', Dir 0x1FF [(''b'', File 0x1B6 [3])])])], as_root = True, fs_umask = 0, fs_disk = good_disk\<rparr>"

lemma sample_streaming: "streaming sample_sha"
  by (simp add: streaming_def sample_sha_def)

lemma resolve_sample: "resolve ''/s'' = [''s'']" "resolve ''/d'' = [''d'']"
  by (simp_all add: resolve_def)

lemma sample_source: "lookup True (fs_root sample_fs) (resolve ''/s'') =
    Some (Dir 0x1FF [(''a'', File 0x1B6 [1, 2]), (''e'', File 0x1B6 []),
        (''t'', Dir 0x1FF [(''b'', File 0x1B6 [3])])])"
  by (simp add: sample_fs_def resolve_sample)

lemma sample_ready: "ready ''/s'' ''/d'' sample_fs"
  unfolding ready_def
  by (intro conjI tree_fitsI [OF sample_source])
    (simp_all add: resolve_sample apart_def D_PATH_SIZE_def plain_name_def)

lemma sample_views:
  "view sample_fs (resolve ''/s'') = IsDir"
  "view sample_fs (resolve ''/s'' @ [''a'']) = IsFile [1, 2]"
  "view sample_fs (resolve ''/s'' @ [''t'', ''b'']) = IsFile [3]"
  "view sample_fs (resolve ''/d'') = Absent"
  by (simp_all add: view_def resolve_sample sample_fs_def)

lemma sample_deep: "deep 2 (resolve ''/s'') sample_fs"
  by (rule deepI [OF sample_source]) simp

lemma sample_may_change: "may_change sample_fs (resolve ''/d'')"
  by (simp add: may_change_def resolve_sample sample_fs_def node_of_def)

lemma sample_returns:
  obtains e fs' where "transfer_directory sample_sha 2 ''/s'' ''/d'' meth sample_fs = Some (e, fs')"
  using transfer_directory_returns [OF sample_streaming sample_ready sample_views(1) sample_deep] by blast

text \<open>The same tree on a disk where nothing of the file \<open>a\<close> can be read.\<close>

definition sample_bad :: fsys where
  "sample_bad = sample_fs\<lparr>fs_disk := \<lparr>bad_from = (\<lambda>p. if p = [''s'', ''a''] then Some 0 else None),
     full_at = (\<lambda>_. None)\<rparr>\<rparr>"

lemma view_any_disk [simp]: "view (fs\<lparr>fs_disk := F\<rparr>) p = view fs p"
  by (simp add: view_def)

lemma sample_bad_fields:
  "view sample_bad p = view sample_fs p" "as_root sample_bad = as_root sample_fs"
  "fs_root sample_bad = fs_root sample_fs"
  by (simp_all add: sample_bad_def)

lemma sample_bad_same:
  "ready ''/s'' ''/d'' sample_bad" "deep 2 (resolve ''/s'') sample_bad"
  "may_change sample_bad (resolve ''/d'')"
  "compatible (resolve ''/s'') (resolve ''/d'') sample_bad" "as_root sample_bad"
  using sample_ready sample_deep sample_may_change compatible_absent [OF sample_views(4), of "resolve ''/s''"]
  unfolding ready_def tree_fits_def deep_def may_change_def node_of_def compatible_def
    sample_bad_fields by (simp_all add: sample_fs_def)

section \<open>Properties\<close>

text \<open>
  C1: what \<open>transfer_directory\<close> does to a file below the source, whatever fails on the way (a
  stream that does not open, a directory that cannot be made or read, a read error, a full
  disk, a verification that fails), source and destination being disjoint trees with paths
  that fit the buffers: afterwards the file still stands there, unchanged, or the call was a
  move, what can be read of the file has the digest of the empty content, and the
  destination holds exactly what could be read of it and written there. A file that can be
  read and written in full is never lost.
\<close>

theorem transfer_never_loses:
  assumes "streaming H" "ready source destination fs" "view fs (resolve source) = IsDir"
    "transfer_directory H fuel source destination meth fs = Some (e, fs')"
    "view fs (resolve source @ q) = IsFile c"
  shows "(view fs' (resolve source @ q) = IsFile c \<or>
      meth = TRANSFER \<and> digest H (legible (fs_disk fs) (resolve source @ q) c) = digest H [] \<and>
      view fs' (resolve source @ q) = Absent \<and>
      view fs' (resolve destination @ q) =
        IsFile (copied (fs_disk fs) (resolve source @ q) (resolve destination @ q) c)) \<and>
    (intact (fs_disk fs) (resolve source @ q) (resolve destination @ q) \<longrightarrow>
      view fs' (resolve source @ q) = IsFile c \<or> view fs' (resolve destination @ q) = IsFile c)"
proof -
  from transfer_directory_moved [OF assms(1-4)]
  have m: "moved (removable H meth (fs_disk fs)) (resolve source) (resolve destination) fs fs'" by simp
  from source_or_copy [OF m assms(5)] moved_fields [OF m] show ?thesis
    by (auto simp: copy_at_def removable_def)
qed

theorem transfer_never_loses_witness:
  "\<exists>e fs'. transfer_directory sample_sha 2 ''/s'' ''/d'' TRANSFER sample_fs = Some (e, fs') \<and>
     (view fs' (resolve ''/s'' @ [''a'']) = IsFile [1, 2] \<or>
      view fs' (resolve ''/d'' @ [''a'']) = IsFile [1, 2])"
proof (rule sample_returns [of TRANSFER])
  fix e fs' assume t: "transfer_directory sample_sha 2 ''/s'' ''/d'' TRANSFER sample_fs = Some (e, fs')"
  have "intact (fs_disk sample_fs) (resolve ''/s'' @ [''a'']) (resolve ''/d'' @ [''a''])"
    by (simp add: intact_def sample_fs_def)
  with transfer_never_loses [OF sample_streaming sample_ready sample_views(1) t sample_views(2)] t
  show ?thesis by blast
qed

text \<open>
  C14: \<open>transfer_directory\<close> touches nothing outside its two directories, a backup leaves the
  whole source as it was, and what stood below the destination is replaced only by what can
  be copied of a file of the source with the same relative path, never a directory by
  anything.
\<close>

theorem transfer_frame:
  assumes "streaming H" "ready source destination fs" "view fs (resolve source) = IsDir"
    "transfer_directory H fuel source destination meth fs = Some (e, fs')"
  shows "(\<not> prefix_of (resolve source) p \<and> \<not> prefix_of (resolve destination) p \<longrightarrow>
      view fs' p = view fs p) \<and>
    (meth = BACKUP \<longrightarrow> view fs' (resolve source @ q) = view fs (resolve source @ q)) \<and>
    (view fs (resolve destination @ q) = IsDir \<longrightarrow> view fs' (resolve destination @ q) = IsDir) \<and>
    (view fs (resolve destination @ q) = IsFile d \<longrightarrow>
      view fs' (resolve destination @ q) = IsFile d \<or>
      (\<exists>c. view fs (resolve source @ q) = IsFile c \<and>
        view fs' (resolve destination @ q) =
          IsFile (copied (fs_disk fs) (resolve source @ q) (resolve destination @ q) c))) \<and>
    (view fs (resolve destination @ q) = IsFile d \<and>
      intact (fs_disk fs) (resolve source @ q) (resolve destination @ q) \<longrightarrow>
      view fs' (resolve destination @ q) = IsFile d \<or>
      view fs' (resolve destination @ q) = view fs (resolve source @ q))"
proof -
  from transfer_directory_moved [OF assms]
  have m: "moved (removable H meth (fs_disk fs)) (resolve source) (resolve destination) fs fs'" by simp
  have "\<not> prefix_of (resolve source) p \<and> \<not> prefix_of (resolve destination) p \<longrightarrow> view fs' p = view fs p"
    using m by (simp add: moved_def)
  then show ?thesis using moved_cell [OF m, of q] by (auto simp: cell_def removable_def)
qed

theorem transfer_frame_witness:
  "\<exists>e fs'. transfer_directory sample_sha 2 ''/s'' ''/d'' BACKUP sample_fs = Some (e, fs') \<and>
     view fs' (resolve ''/s'' @ [''a'']) = view sample_fs (resolve ''/s'' @ [''a''])"
proof (rule sample_returns [of BACKUP])
  fix e fs' assume t: "transfer_directory sample_sha 2 ''/s'' ''/d'' BACKUP sample_fs = Some (e, fs')"
  from transfer_frame [OF sample_streaming sample_ready sample_views(1) t, of "[]" "[''a'']"] t
  show ?thesis by blast
qed

text \<open>
  C15: \<open>transfer_directory\<close> always comes back with an error count: recursion as deep as the
  source tree is enough, and the copying loops end.
\<close>

theorem transfer_terminates:
  assumes "streaming H" "ready source destination fs" "view fs (resolve source) = IsDir"
    "deep fuel (resolve source) fs"
  shows "\<exists>e fs'. transfer_directory H fuel source destination meth fs = Some (e, fs') \<and> 0 \<le> e"
  using transfer_directory_returns [OF assms] transfer_directory_moved [OF assms(1-3)] by blast

theorem transfer_terminates_witness:
  "\<exists>e fs'. transfer_directory sample_sha 2 ''/s'' ''/d'' BACKUP sample_fs = Some (e, fs') \<and> 0 \<le> e"
  by (rule transfer_terminates [OF sample_streaming sample_ready sample_views(1) sample_deep])

text \<open>
  C16: run as root, as the daemon and its children are, \<open>transfer_directory\<close> copies the whole
  source, when no file of one tree meets a directory of the other: every file at any depth
  stands at the same relative path of the destination afterwards, with what of it can be
  read and written there, which is all of it where neither fails.
\<close>

theorem transfer_root_complete:
  assumes "streaming H" "ready source destination fs" "view fs (resolve source) = IsDir"
    "transfer_directory H fuel source destination meth fs = Some (e, fs')"
    "as_root fs" "compatible (resolve source) (resolve destination) fs"
    "may_change fs (resolve destination)" "meth = BACKUP \<or> meth = TRANSFER"
    "view fs (resolve source @ q) = IsFile c"
  shows "view fs' (resolve destination @ q) =
      IsFile (copied (fs_disk fs) (resolve source @ q) (resolve destination @ q) c) \<and>
    (intact (fs_disk fs) (resolve source @ q) (resolve destination @ q) \<longrightarrow>
      view fs' (resolve destination @ q) = IsFile c)"
proof -
  from transfer_directory_moved [OF assms(1-4)]
  have "fs_disk fs' = fs_disk fs" using moved_fields by blast
  with transfer_directory_copies(1) [OF assms(1,2,5,3,6,7,8,4,9)]
  show ?thesis by (simp add: handled_def copy_at_def)
qed

theorem transfer_root_complete_witness:
  "\<exists>e fs'. transfer_directory sample_sha 2 ''/s'' ''/d'' BACKUP sample_fs = Some (e, fs') \<and>
     view fs' (resolve ''/d'' @ [''t'', ''b'']) = IsFile [3]"
proof (rule sample_returns [of BACKUP])
  fix e fs' assume t: "transfer_directory sample_sha 2 ''/s'' ''/d'' BACKUP sample_fs = Some (e, fs')"
  have "as_root sample_fs"
    "intact (fs_disk sample_fs) (resolve ''/s'' @ [''t'', ''b'']) (resolve ''/d'' @ [''t'', ''b''])"
    by (simp_all add: sample_fs_def intact_def)
  with transfer_root_complete [OF sample_streaming sample_ready sample_views(1) t _
      compatible_absent [OF sample_views(4)] sample_may_change disjI1 [OF refl] sample_views(3)] t
  show ?thesis by blast
qed

text \<open>
  C18: what the verification of a copy decides, in a backup or transfer run as root over disjoint
  and compatible trees with paths that fit the buffers. The destination is open for writing
  only and reads as empty, so the files that verify are those whose legible content has the
  digest of the empty content. Every other file is counted as an error, and the number returned
  is exactly that of these files; even a move leaves such a file in the source. A file that
  verifies is removed from the source by a move. One whose first read fails is among them: its
  content is lost, and only an empty file is left of it at the destination.
\<close>

theorem transfer_reports_every_content:
  assumes "streaming H" "ready source destination fs" "view fs (resolve source) = IsDir"
    "transfer_directory H fuel source destination meth fs = Some (e, fs')"
    "as_root fs" "compatible (resolve source) (resolve destination) fs"
    "may_change fs (resolve destination)" "meth = BACKUP \<or> meth = TRANSFER"
  shows "e = int (card {q. \<exists>c. view fs (resolve source @ q) = IsFile c \<and>
        digest H (legible (fs_disk fs) (resolve source @ q) c) \<noteq> digest H []}) \<and>
    (view fs (resolve source @ q) = IsFile c \<longrightarrow>
      (if digest H (legible (fs_disk fs) (resolve source @ q) c) \<noteq> digest H [] \<or> meth = BACKUP
       then view fs' (resolve source @ q) = IsFile c
       else view fs' (resolve source @ q) = Absent \<and>
         view fs' (resolve destination @ q) =
           IsFile (copied (fs_disk fs) (resolve source @ q) (resolve destination @ q) c)) \<and>
      (bad_from (fs_disk fs) (resolve source @ q) = Some 0 \<and> meth = TRANSFER \<longrightarrow>
         view fs' (resolve source @ q) = Absent \<and> view fs' (resolve destination @ q) = IsFile []))"
proof -
  from transfer_directory_moved [OF assms(1-4)]
  have m: "moved (removable H meth (fs_disk fs)) (resolve source) (resolve destination) fs fs'" by simp
  then have d: "fs_disk fs' = fs_disk fs" using moved_fields by blast
  note copies = transfer_directory_copies [OF assms(1,2,5,3,6,7,8,4)]
  have keep: "view fs' (resolve source @ q) = IsFile c"
    if "view fs (resolve source @ q) = IsFile c"
      "digest H (legible (fs_disk fs) (resolve source @ q) c) \<noteq> digest H [] \<or> meth = BACKUP"
    using that source_or_copy [OF m, of q c] by (auto simp: removable_def)
  have gone: "view fs' (resolve source @ q) = Absent \<and> view fs' (resolve destination @ q) =
      IsFile (copied (fs_disk fs) (resolve source @ q) (resolve destination @ q) c)"
    if "view fs (resolve source @ q) = IsFile c"
      "digest H (legible (fs_disk fs) (resolve source @ q) c) = digest H []" "meth = TRANSFER"
    using copies(1) [of q c] that d by (simp add: handled_def copy_at_def suspect_def)
  show ?thesis
    using copies(2) keep gone assms(8)
    by (auto simp: suspects_below_def suspect_def legible_def copied_def)
qed

lemma sample_suspects: "{q. \<exists>c. view sample_fs (resolve ''/s'' @ q) = IsFile c \<and>
    digest sample_sha (legible (fs_disk sample_fs) (resolve ''/s'' @ q) c) \<noteq> digest sample_sha []} =
    {[''a''], [''t'', ''b'']}"
proof (rule set_eqI)
  fix q
  show "q \<in> {q. \<exists>c. view sample_fs (resolve ''/s'' @ q) = IsFile c \<and>
      digest sample_sha (legible (fs_disk sample_fs) (resolve ''/s'' @ q) c) \<noteq> digest sample_sha []} \<longleftrightarrow>
    q \<in> {[''a''], [''t'', ''b'']}"
  proof (cases q)
    case (Cons x r)
    then show ?thesis
      by (cases r; cases "tl r")
        (auto simp: view_def sample_fs_def resolve_sample digest_def sample_sha_def
          split: if_splits)
  qed (simp add: view_def sample_fs_def resolve_sample)
qed

theorem transfer_reports_every_content_witness:
  "(\<exists>fs'. transfer_directory sample_sha 2 ''/s'' ''/d'' TRANSFER sample_fs = Some (2, fs') \<and>
     view fs' (resolve ''/s'' @ [''a'']) = IsFile [1, 2]) \<and>
   (\<exists>e fs'. transfer_directory sample_sha 2 ''/s'' ''/d'' TRANSFER sample_bad = Some (e, fs') \<and>
     view fs' (resolve ''/s'' @ [''a'']) = Absent \<and> view fs' (resolve ''/d'' @ [''a'']) = IsFile [])"
proof
  show "\<exists>fs'. transfer_directory sample_sha 2 ''/s'' ''/d'' TRANSFER sample_fs = Some (2, fs') \<and>
     view fs' (resolve ''/s'' @ [''a'']) = IsFile [1, 2]"
  proof (rule sample_returns [of TRANSFER])
    fix e fs' assume t: "transfer_directory sample_sha 2 ''/s'' ''/d'' TRANSFER sample_fs = Some (e, fs')"
    have r: "as_root sample_fs" by (simp add: sample_fs_def)
    have "digest sample_sha (legible (fs_disk sample_fs) (resolve ''/s'' @ [''a'']) [1, 2]) \<noteq>
        digest sample_sha []"
      by (simp add: digest_def sample_sha_def sample_fs_def)
    with transfer_reports_every_content [OF sample_streaming sample_ready sample_views(1) t r
        compatible_absent [OF sample_views(4)] sample_may_change disjI2 [OF refl], of "[''a'']" "[1, 2]"]
      sample_views(2) t
    show ?thesis unfolding sample_suspects by simp
  qed
  note b = sample_bad_same
  have d: "view sample_bad (resolve ''/s'') = IsDir"
    and f: "view sample_bad (resolve ''/s'' @ [''a'']) = IsFile [1, 2]"
    by (simp_all only: sample_bad_fields sample_views)
  obtain e fs' where t: "transfer_directory sample_sha 2 ''/s'' ''/d'' TRANSFER sample_bad = Some (e, fs')"
    using transfer_directory_returns [OF sample_streaming b(1) d b(2)] by blast
  have "bad_from (fs_disk sample_bad) (resolve ''/s'' @ [''a'']) = Some 0"
    by (simp add: sample_bad_def resolve_sample)
  with transfer_reports_every_content [OF sample_streaming b(1) d t b(5,4,3) disjI2 [OF refl], of "[''a'']" "[1, 2]"] f t
  show "\<exists>e fs'. transfer_directory sample_sha 2 ''/s'' ''/d'' TRANSFER sample_bad = Some (e, fs') \<and>
     view fs' (resolve ''/s'' @ [''a'']) = Absent \<and> view fs' (resolve ''/d'' @ [''a'']) = IsFile []"
    by blast
qed

text \<open>
  C34: hashing a file in blocks of 1024 bytes from wherever its stream stood is hashing at
  once all that can be read of it. Two streams that can be read verify exactly when these
  digests agree; against a stream opened for writing only, as the one caller's destination
  is, a file verifies exactly when its digest is that of the empty content.
\<close>

theorem verify_files_correct:
  assumes "streaming H" "st_reads f"
  shows "hash_file H f fs = digest H (legible (fs_disk fs) (st_path f) (content fs (st_path f))) \<and>
    (st_reads g \<longrightarrow> (verify_files H f g fs = 0 \<longleftrightarrow>
       digest H (legible (fs_disk fs) (st_path f) (content fs (st_path f))) =
       digest H (legible (fs_disk fs) (st_path g) (content fs (st_path g))))) \<and>
    (fopen_wb p fs0 = Some (g, fs1) \<longrightarrow> (verify_files H f g fs = 0 \<longleftrightarrow>
       digest H (legible (fs_disk fs) (st_path f) (content fs (st_path f))) = digest H []))"
  using hash_file_source [OF assms(1)] hash_file_unreadable [OF assms(1)] assms(2)
  by (auto simp: verify_files_def readable_def out_stream_def dest!: fopen_wbD(1) split: if_splits)

definition sample_stream :: "string list \<Rightarrow> stream" where
  "sample_stream p = \<lparr>st_path = p, st_pos = 1, st_reads = True, st_writes = False\<rparr>"

theorem verify_files_correct_witness:
  "verify_files sample_sha (sample_stream [''s'', ''a'']) (sample_stream [''s'', ''e'']) sample_fs \<noteq> 0 \<and>
   verify_files sample_sha (sample_stream [''s'', ''e'']) (out_stream [''d'']) sample_fs = 0"
proof -
  let ?a = "sample_stream [''s'', ''a'']" and ?e = "sample_stream [''s'', ''e'']"
  have r: "st_reads ?a" "st_reads ?e" by (simp_all add: sample_stream_def)
  have w: "fopen_wb [''d''] sample_fs =
      Some (out_stream [''d''], set_node [''d''] (Some (File 0x1B6 [])) sample_fs)"
    by (simp add: fopen_wb_def node_of_def sample_fs_def entry_at_def may_change_def)
  have "content sample_fs [''s'', ''a''] = [1, 2]" "content sample_fs [''s'', ''e''] = []"
    by (simp_all add: content_def file_at_def sample_fs_def)
  then show ?thesis
    using verify_files_correct [OF sample_streaming r(1), of sample_fs ?e]
      verify_files_correct [OF sample_streaming r(2), of sample_fs "out_stream [''d'']"] r(2) w
    by (simp add: sample_stream_def sample_fs_def digest_def sample_sha_def)
qed

end
