(* ===== verification/RM_Timers.thy ===== *)
theory RM_Timers
  imports RM_TransferThms
begin

unbundle bit_operations_syntax

text \<open>
  The rest of \<open>src/libs/directory_tool.c\<close>: the program's directories, the permission walks
  around a timed backup or transfer, the two timer handlers and the function that arms a
  timer. The static variables of the file and the kernel's timers are fields of the state.
\<close>

section \<open>Permission bits\<close>

text \<open>What a path shows: the bits, and the content of a file.\<close>

fun node_face :: "node \<Rightarrow> mode \<times> byte list option" where
  "node_face (File m c) = (m, Some c)"
| "node_face (Dir m es) = (m, None)"

definition face :: "node \<Rightarrow> string list \<Rightarrow> (mode \<times> byte list option) option" where
  "face n p = map_option node_face (lookup True n p)"

definition mode_at :: "fsys \<Rightarrow> string list \<Rightarrow> mode option" where
  "mode_at fs p = map_option fst (face (fs_root fs) p)"

lemma view_face: "view fs p = (case face (fs_root fs) p of
    None \<Rightarrow> Absent | Some (m, None) \<Rightarrow> IsDir | Some (m, Some c) \<Rightarrow> IsFile c)"
  by (simp add: view_def face_def split: option.split node.split)

lemma lookup_with_mode: "r \<noteq> [] \<Longrightarrow> lookup True (with_mode m n) r = lookup True n r"
  by (cases n; cases r) auto

lemma face_with_mode: "face (with_mode m n) q =
    (if q = [] then map_option (\<lambda>(_, c). (m, c)) (face n q) else face n q)"
  by (cases "q = []"; cases n) (simp_all add: face_def lookup_with_mode del: with_mode.simps, simp_all)

lemma face_Dir: "face (Dir m es) (y # r) = (case map_of es y of None \<Rightarrow> None | Some n \<Rightarrow> face n r)"
  by (simp add: face_def split: option.split)

lemma face_upd_mode:
  assumes "lookup True n p = Some k"
  shows "face (upd p (Some (with_mode m k)) n) q =
    (if q = p then map_option (\<lambda>(_, c). (m, c)) (face n q) else face n q)"
  using assms
proof (induction p arbitrary: n q)
  case Nil
  then show ?case by (simp add: face_with_mode)
next
  case (Cons x p)
  then obtain m' es n' where n: "n = Dir m' es" "map_of es x = Some n'" "lookup True n' p = Some k"
    by (cases n) (auto split: option.splits)
  then have u: "upd (x # p) (Some (with_mode m k)) n =
      Dir m' (AList.update x (upd p (Some (with_mode m k)) n') es)"
    by (cases p) auto
  show ?case
  proof (cases q)
    case Nil
    then show ?thesis unfolding u by (simp add: face_def n(1))
  next
    case (Cons y r)
    then show ?thesis unfolding u using Cons.IH [OF n(3), of r]
      by (cases "y = x"; cases "r = p") (simp_all add: n(1,2) face_Dir update_conv')
  qed
qed

text \<open>A \<open>chmod\<close> that finds its file changes the bits there and nothing else.\<close>

lemma chmod_root:
  assumes "as_root fs" "entry_at (fs_root fs) p"
  obtains fs' where "sys_chmod p m fs = (0, fs')" "as_root fs'" "fs_disk fs' = fs_disk fs"
    "\<And>q. view fs' q = view fs q" "\<And>q. mode_at fs' q = (if q = p then Some m else mode_at fs q)"
proof -
  from assms obtain k where k: "lookup True (fs_root fs) p = Some k" "node_of fs p = Some k"
    by (auto simp: entry_at_def node_of_def)
  let ?fs = "set_node p (Some (with_mode m k)) fs"
  have "face (fs_root fs) p \<noteq> None" using k by (simp add: face_def)
  then have "view ?fs q = view fs q \<and> mode_at ?fs q = (if q = p then Some m else mode_at fs q)" for q
    by (auto simp: view_face mode_at_def face_upd_mode [OF k(1)] split: option.split)
  moreover have "sys_chmod p m fs = (0, ?fs)" using k by (simp add: sys_chmod_def)
  ultimately show ?thesis using that assms(1) by simp
qed

section \<open>Tree walks\<close>

text \<open>
  \<open>nftw\<close> with \<open>FTW_DEPTH\<close>: the entries of a directory come before the directory itself; an
  entry that cannot be looked at because the directory may not be searched is still
  reported. The walk stops at the first callback that gives something other than 0. A second
  entry of the same name, which no directory has, is passed over.
\<close>

fun post_order :: "bool \<Rightarrow> string list \<Rightarrow> node \<Rightarrow> string list list" where
  "post_order r p (File m c) = [p]"
| "post_order r p (Dir m es) =
     (if may_read r m
      then concat (map (\<lambda>e. if map_of es (fst e) \<noteq> Some (snd e) then []
         else if may_search r m then post_order r (p @ [fst e]) (snd e) else [p @ [fst e]]) es)
      else []) @ [p]"

fun walk :: "(string list \<Rightarrow> fsys \<Rightarrow> int \<times> fsys) \<Rightarrow> string list list \<Rightarrow> fsys \<Rightarrow> int \<times> fsys" where
  "walk fn [] fs = (0, fs)"
| "walk fn (p # ps) fs = (case fn p fs of (r, fs') \<Rightarrow> if r \<noteq> 0 then (r, fs') else walk fn ps fs')"

definition nftw :: "string \<Rightarrow> (string list \<Rightarrow> fsys \<Rightarrow> int \<times> fsys) \<Rightarrow> fsys \<Rightarrow> int \<times> fsys" where
  "nftw path fn fs = (case node_of fs (resolve path) of
     None \<Rightarrow> (-1, fs)
   | Some n \<Rightarrow> walk fn (post_order (as_root fs) (resolve path) n) fs)"

lemma suffixes_split:
  assumes "P []"
  shows "{p @ q | q. P q} = insert p {p @ x # q | x q. P (x # q)}"
proof (intro equalityI subsetI)
  fix r assume "r \<in> {p @ q | q. P q}"
  then obtain q where "r = p @ q" "P q" by blast
  then show "r \<in> insert p {p @ x # q | x q. P (x # q)}" by (cases q) auto
next
  fix r assume "r \<in> insert p {p @ x # q | x q. P (x # q)}"
  then show "r \<in> {p @ q | q. P q}" using assms by (auto intro: exI [of _ "[]"])
qed

lemma post_order_root: "set (post_order True p n) = {p @ q | q. lookup True n q \<noteq> None}"
proof (induction "True" p n rule: post_order.induct)
  case (1 p m c)
  have "lookup True (File m c) q \<noteq> None \<longleftrightarrow> q = []" for q by (cases q) auto
  then show ?case by simp
next
  case (2 p m es)
  have sub: "set (post_order True (p @ [fst e]) (snd e)) = {p @ fst e # q | q. lookup True (snd e) q \<noteq> None}"
    if "e \<in> set es" "map_of es (fst e) = Some (snd e)" for e
    using 2 [OF _ that(1)] that(2) by simp
  have "set (post_order True p (Dir m es)) =
      (\<Union>e \<in> {e \<in> set es. map_of es (fst e) = Some (snd e)}.
         {p @ fst e # q | q. lookup True (snd e) q \<noteq> None}) \<union> {p}" (is "_ = ?U \<union> _")
    using sub by (auto split: if_splits)
  also have "?U = {p @ x # q | x q. lookup True (Dir m es) (x # q) \<noteq> None}"
    by (force split: option.splits dest: map_of_SomeD)
  also have "\<dots> \<union> {p} = {p @ q | q. lookup True (Dir m es) q \<noteq> None}"
    using suffixes_split [of "\<lambda>q. lookup True (Dir m es) q \<noteq> None" p] by simp
  finally show ?case .
qed

text \<open>Walking a list of paths that exist with a callback that sets the bits.\<close>

lemma walk_chmod:
  assumes "as_root fs" "\<forall>p \<in> set ps. view fs p \<noteq> Absent"
  shows "\<exists>fs'. walk (\<lambda>p. sys_chmod p m) ps fs = (0, fs') \<and> as_root fs' \<and> fs_disk fs' = fs_disk fs \<and>
    (\<forall>q. view fs' q = view fs q) \<and>
    (\<forall>q. mode_at fs' q = (if q \<in> set ps then Some m else mode_at fs q))"
  using assms
proof (induction ps arbitrary: fs)
  case (Cons p ps)
  from Cons.prems have e: "entry_at (fs_root fs) p" by (simp add: view_absent)
  obtain fs1 where c: "sys_chmod p m fs = (0, fs1)" and r: "as_root fs1"
    and k: "fs_disk fs1 = fs_disk fs"
    and v: "\<And>q. view fs1 q = view fs q"
    and md: "\<And>q. mode_at fs1 q = (if q = p then Some m else mode_at fs q)"
    by (rule chmod_root [OF Cons.prems(1) e, of m]) blast
  have "\<forall>p \<in> set ps. view fs1 p \<noteq> Absent" using Cons.prems(2) v by simp
  from Cons.IH [OF r this] c v md k show ?case by auto
qed simp

section \<open>The permission callbacks\<close>

text \<open>Each gives -1 where \<open>chmod\<close> fails and 0 otherwise; the modes are 0440 and 0660.\<close>

definition chmod_callback :: "mode \<Rightarrow> string list \<Rightarrow> fsys \<Rightarrow> int \<times> fsys" where
  "chmod_callback m fpath fs = (case sys_chmod fpath m fs of (r, fs') \<Rightarrow> (if r < 0 then -1 else 0, fs'))"

definition backup_unlock_permissions :: "string list \<Rightarrow> fsys \<Rightarrow> int \<times> fsys" where
  "backup_unlock_permissions = chmod_callback 0x120"

definition backup_lock_permissions :: "string list \<Rightarrow> fsys \<Rightarrow> int \<times> fsys" where
  "backup_lock_permissions = chmod_callback 0x120"

definition dashboard_lock_permissions :: "string list \<Rightarrow> fsys \<Rightarrow> int \<times> fsys" where
  "dashboard_lock_permissions = chmod_callback 0x120"

definition dashboard_unlock_permissions :: "string list \<Rightarrow> fsys \<Rightarrow> int \<times> fsys" where
  "dashboard_unlock_permissions = chmod_callback 0x1B0"

definition reports_lock_permissions :: "string list \<Rightarrow> fsys \<Rightarrow> int \<times> fsys" where
  "reports_lock_permissions = chmod_callback 0x120"

definition reports_unlock_permissions :: "string list \<Rightarrow> fsys \<Rightarrow> int \<times> fsys" where
  "reports_unlock_permissions = chmod_callback 0x1B0"

lemmas permission_defs = backup_unlock_permissions_def backup_lock_permissions_def
  dashboard_lock_permissions_def dashboard_unlock_permissions_def
  reports_lock_permissions_def reports_unlock_permissions_def

lemma chmod_callback_eq: "chmod_callback m = (\<lambda>p. sys_chmod p m)"
  by (intro ext) (simp add: chmod_callback_def sys_chmod_def split: option.split prod.split)

text \<open>As root a walk sets the bits of a whole tree and changes nothing else.\<close>

lemma nftw_chmod:
  assumes "as_root fs" "view fs (resolve path) \<noteq> Absent"
  obtains fs' where "nftw path (chmod_callback m) fs = (0, fs')" "as_root fs'" "fs_disk fs' = fs_disk fs"
    "\<And>q. view fs' q = view fs q"
    "\<And>q. mode_at fs' q = (if prefix_of (resolve path) q \<and> view fs q \<noteq> Absent then Some m else mode_at fs q)"
proof -
  from assms obtain n where n: "lookup True (fs_root fs) (resolve path) = Some n"
    by (auto simp: view_absent entry_at_def)
  let ?ps = "post_order True (resolve path) n"
  have ps: "q \<in> set ?ps \<longleftrightarrow> prefix_of (resolve path) q \<and> view fs q \<noteq> Absent" for q
    unfolding post_order_root using view_lookup [OF n] by (auto simp: prefix_of_def)
  then have "\<forall>p \<in> set ?ps. view fs p \<noteq> Absent" by blast
  from walk_chmod [OF assms(1) this, of m] obtain fs' where
    "walk (\<lambda>p. sys_chmod p m) ?ps fs = (0, fs')" "as_root fs'" "fs_disk fs' = fs_disk fs" "\<forall>q. view fs' q = view fs q"
    "\<forall>q. mode_at fs' q = (if q \<in> set ?ps then Some m else mode_at fs q)" by blast
  then show ?thesis using that n assms(1) by (simp add: nftw_def node_of_def chmod_callback_eq ps)
qed

lemma nftw_missing: "as_root fs \<Longrightarrow> view fs (resolve path) = Absent \<Longrightarrow> nftw path f fs = (-1, fs)"
  by (simp add: nftw_def node_of_def view_absent entry_at_def)

section \<open>State of the tool\<close>

datatype handler = BackUpHandler | TransferHandler

record armed_timer =
  tm_signo :: int
  it_value :: int
  it_interval :: int

record dirtool =
  dt_fs :: fsys
  back_up_source_directory :: "string option"
  back_up_target_directory :: "string option"
  transfer_source_directory :: "string option"
  transfer_target_directory :: "string option"
  dt_handlers :: "int \<Rightarrow> handler option"
  dt_timers :: "armed_timer list"

definition dt_modify_fs :: "(fsys \<Rightarrow> 'a \<times> fsys) \<Rightarrow> (dirtool, 'a) prog" where
  "dt_modify_fs f s = (case f (dt_fs s) of (r, fs') \<Rightarrow> (Inr r, s\<lparr>dt_fs := fs'\<rparr>))"

text \<open>A walk from a null pointer is undefined behaviour.\<close>

definition dt_nftw :: "string option \<Rightarrow> (string list \<Rightarrow> fsys \<Rightarrow> int \<times> fsys) \<Rightarrow> (dirtool, int) prog" where
  "dt_nftw path fn = (case path of None \<Rightarrow> stop Undefined | Some p \<Rightarrow> dt_modify_fs (nftw p fn))"

text \<open>
  \<open>fuel\<close> bounds the recursion of \<open>transfer_directory\<close>: with less than the depth of the tree
  the call is taken to overrun the stack.
\<close>

definition dt_transfer ::
  "('c, 'x) sha_scheme \<Rightarrow> nat \<Rightarrow> string option \<Rightarrow> string option \<Rightarrow> transfer_method \<Rightarrow> (dirtool, int) prog" where
  "dt_transfer H fuel source target meth s = (case (source, target) of
     (Some src, Some dst) \<Rightarrow> (case transfer_directory H fuel src dst meth (dt_fs s) of
        None \<Rightarrow> (Inl Undefined, s)
      | Some (e, fs') \<Rightarrow> (Inr e, s\<lparr>dt_fs := fs'\<rparr>))
   | _ \<Rightarrow> (Inl Undefined, s))"

definition lock_backup :: "(dirtool, unit) prog" where
  "lock_backup =
     bnd (gets back_up_target_directory) (\<lambda>t.
     bnd (dt_nftw t backup_unlock_permissions) (\<lambda>_.
     bnd (gets back_up_source_directory) (\<lambda>s.
     bnd (dt_nftw s dashboard_lock_permissions) (\<lambda>_. ret ()))))"

definition unlock_backup :: "(dirtool, unit) prog" where
  "unlock_backup =
     bnd (gets back_up_target_directory) (\<lambda>t.
     bnd (dt_nftw t backup_lock_permissions) (\<lambda>_.
     bnd (gets back_up_source_directory) (\<lambda>s.
     bnd (dt_nftw s dashboard_unlock_permissions) (\<lambda>_. ret ()))))"

definition unlock_transfer :: "(dirtool, unit) prog" where
  "unlock_transfer =
     bnd (gets back_up_target_directory) (\<lambda>t.
     bnd (dt_nftw t reports_unlock_permissions) (\<lambda>_. ret ()))"

definition lock_transfer :: "(dirtool, unit) prog" where
  "lock_transfer =
     bnd (gets back_up_target_directory) (\<lambda>t.
     bnd (dt_nftw t reports_lock_permissions) (\<lambda>_. ret ()))"

section \<open>The timer handlers\<close>

definition back_up_directory :: "('c, 'x) sha_scheme \<Rightarrow> nat \<Rightarrow> int \<Rightarrow> (dirtool, unit) prog" where
  "back_up_directory H fuel sigg_no =
     (if sigg_no \<noteq> 34 then ret ()
      else
        bnd lock_backup (\<lambda>_.
        bnd (gets back_up_source_directory) (\<lambda>s.
        bnd (gets back_up_target_directory) (\<lambda>t.
        bnd (dt_transfer H fuel s t BACKUP) (\<lambda>_. unlock_backup)))))"

definition timed_transfer_directory :: "('c, 'x) sha_scheme \<Rightarrow> nat \<Rightarrow> int \<Rightarrow> (dirtool, unit) prog" where
  "timed_transfer_directory H fuel sigg_no =
     (if sigg_no \<noteq> 35 then ret ()
      else
        bnd lock_transfer (\<lambda>_.
        bnd (gets transfer_source_directory) (\<lambda>s.
        bnd (gets transfer_target_directory) (\<lambda>t.
        bnd (dt_transfer H fuel s t TRANSFER) (\<lambda>_. unlock_transfer)))))"

section \<open>Arming a timer\<close>

text \<open>What the kernel answers to the three calls.\<close>

record timer_sys =
  sigaction_ok :: bool
  timer_create_ok :: bool
  timer_settime_ok :: bool

definition SIGRTMIN :: int where "SIGRTMIN = 34"

definition method_number :: "transfer_method \<Rightarrow> int" where
  "method_number meth = (case meth of BACKUP \<Rightarrow> 0 | TRANSFER \<Rightarrow> 1 | NoMethod k \<Rightarrow> int k)"

definition set_timer_signals :: "timer_sys \<Rightarrow> handler \<Rightarrow> transfer_method \<Rightarrow> (dirtool, unit) prog" where
  "set_timer_signals sys h meth =
     (if \<not> sigaction_ok sys then stop (Exit EXIT_FAILURE)
      else modify (\<lambda>s. s\<lparr>dt_handlers := (dt_handlers s)(SIGRTMIN + method_number meth \<mapsto> h)\<rparr>))"

definition create_timer_abs ::
  "timer_sys \<Rightarrow> int \<Rightarrow> int \<Rightarrow> transfer_method \<Rightarrow> (dirtool, armed_timer) prog" where
  "create_timer_abs sys time repeat_interval meth =
     (if \<not> timer_create_ok sys then stop (Exit EXIT_FAILURE)
      else ret \<lparr>tm_signo = SIGRTMIN + method_number meth, it_value = time, it_interval = repeat_interval\<rparr>)"

definition start_timer :: "timer_sys \<Rightarrow> armed_timer \<Rightarrow> (dirtool, unit) prog" where
  "start_timer sys its =
     (if \<not> timer_settime_ok sys then stop (Exit EXIT_FAILURE)
      else modify (\<lambda>s. s\<lparr>dt_timers := dt_timers s @ [its]\<rparr>))"

definition UNIMPLEMENTED_TRANSFER_METHOD :: nat where "UNIMPLEMENTED_TRANSFER_METHOD = 0x11111100"

text \<open>The result is the timer's number, or the constant of an unimplemented method.\<close>

definition transfer_at_time ::
  "timer_sys \<Rightarrow> string \<Rightarrow> string \<Rightarrow> int \<Rightarrow> int \<Rightarrow> transfer_method \<Rightarrow> (dirtool, nat) prog" where
  "transfer_at_time sys source_directory target_directory time repeat_interval meth =
     (let go = (\<lambda>h. bnd (set_timer_signals sys h meth) (\<lambda>_.
                bnd (gets (\<lambda>s. length (dt_timers s))) (\<lambda>timer_id.
                bnd (create_timer_abs sys time repeat_interval meth) (\<lambda>its.
                bnd (start_timer sys its) (\<lambda>_. ret timer_id))))) in
      case meth of
        TRANSFER \<Rightarrow>
          bnd (modify (\<lambda>s. s\<lparr>transfer_source_directory := Some source_directory,
                             transfer_target_directory := Some target_directory\<rparr>)) (\<lambda>_.
          go TransferHandler)
      | BACKUP \<Rightarrow>
          bnd (modify (\<lambda>s. s\<lparr>back_up_source_directory := Some source_directory,
                             back_up_target_directory := Some target_directory\<rparr>)) (\<lambda>_.
          go BackUpHandler)
      | NoMethod k \<Rightarrow> ret UNIMPLEMENTED_TRANSFER_METHOD)"

text \<open>Delivery of a timer's signal runs the handler installed for it.\<close>

definition deliver :: "('c, 'x) sha_scheme \<Rightarrow> nat \<Rightarrow> int \<Rightarrow> (dirtool, unit) prog" where
  "deliver H fuel signo s = (case dt_handlers s signo of
     None \<Rightarrow> (Inl (Killed (nat signo)), s)
   | Some BackUpHandler \<Rightarrow> back_up_directory H fuel signo s
   | Some TransferHandler \<Rightarrow> timed_transfer_directory H fuel signo s)"

section \<open>The directories of the program\<close>

definition create_dir_if_not_exist :: "string \<Rightarrow> mode \<Rightarrow> (dirtool, int) prog" where
  "create_dir_if_not_exist directory m =
     bnd (gets dt_fs) (\<lambda>fs.
       if node_of fs (resolve directory) \<noteq> None then
         (if sys_access_rwx (resolve directory) fs = -1 then stop (Exit EXIT_FAILURE) else ret 0)
       else
         bnd (dt_modify_fs (sys_mkdir (resolve directory) m)) (\<lambda>r.
           if r = -1 then stop (Exit EXIT_FAILURE) else ret 0))"

text \<open>Reading past the end of the array is undefined behaviour.\<close>

fun init_directories :: "nat \<Rightarrow> string list \<Rightarrow> (dirtool, int) prog" where
  "init_directories 0 dirs = ret 0"
| "init_directories (Suc n) [] = stop Undefined"
| "init_directories (Suc n) (d # ds) =
     bnd (create_dir_if_not_exist d 0x1F8) (\<lambda>_. init_directories n ds)"

section \<open>A timed backup from start to end\<close>

lemma dt_nftw_run [prog_simps]:
  "nftw p f (dt_fs s) = (r, fs') \<Longrightarrow> dt_nftw (Some p) f s = (Inr r, s\<lparr>dt_fs := fs'\<rparr>)"
  by (simp add: dt_nftw_def dt_modify_fs_def)

definition two_walks :: "mode \<Rightarrow> mode \<Rightarrow> (dirtool, unit) prog" where
  "two_walks m1 m2 =
     bnd (gets back_up_target_directory) (\<lambda>t.
     bnd (dt_nftw t (chmod_callback m1)) (\<lambda>_.
     bnd (gets back_up_source_directory) (\<lambda>s.
     bnd (dt_nftw s (chmod_callback m2)) (\<lambda>_. ret ()))))"

lemma lock_backup_walks: "lock_backup = two_walks 0x120 0x120" "unlock_backup = two_walks 0x120 0x1B0"
  by (simp_all add: lock_backup_def unlock_backup_def two_walks_def permission_defs)

lemma apart_prefixes: "apart p q \<Longrightarrow> prefix_of p r \<Longrightarrow> \<not> prefix_of q r"
  by (auto simp: apart_def prefix_of_def append_eq_append_conv2)

lemma two_walks_run:
  assumes "back_up_target_directory s = Some t" "back_up_source_directory s = Some c"
    "as_root (dt_fs s)" "view (dt_fs s) (resolve t) \<noteq> Absent" "view (dt_fs s) (resolve c) \<noteq> Absent"
    "apart (resolve c) (resolve t)"
  obtains fs' where "two_walks m1 m2 s = (Inr (), s\<lparr>dt_fs := fs'\<rparr>)" "as_root fs'"
    "fs_disk fs' = fs_disk (dt_fs s)" "\<And>q. view fs' q = view (dt_fs s) q"
    "\<And>q. prefix_of (resolve t) q \<Longrightarrow> view (dt_fs s) q \<noteq> Absent \<Longrightarrow> mode_at fs' q = Some m1"
    "\<And>q. prefix_of (resolve c) q \<Longrightarrow> view (dt_fs s) q \<noteq> Absent \<Longrightarrow> mode_at fs' q = Some m2"
proof -
  obtain fs1 where w1: "nftw t (chmod_callback m1) (dt_fs s) = (0, fs1)" "as_root fs1" "fs_disk fs1 = fs_disk (dt_fs s)"
    and v1: "\<And>q. view fs1 q = view (dt_fs s) q"
    and k1: "\<And>q. mode_at fs1 q = (if prefix_of (resolve t) q \<and> view (dt_fs s) q \<noteq> Absent
       then Some m1 else mode_at (dt_fs s) q)"
    by (rule nftw_chmod [OF assms(3,4), of m1]) blast
  have "view fs1 (resolve c) \<noteq> Absent" using assms(5) v1 by simp
  then obtain fs2 where w2: "nftw c (chmod_callback m2) fs1 = (0, fs2)" "as_root fs2" "fs_disk fs2 = fs_disk fs1"
    and v2: "\<And>q. view fs2 q = view fs1 q"
    and k2: "\<And>q. mode_at fs2 q = (if prefix_of (resolve c) q \<and> view fs1 q \<noteq> Absent
       then Some m2 else mode_at fs1 q)"
    by (rule nftw_chmod [OF w1(2), of c m2]) blast
  have "two_walks m1 m2 s = (Inr (), s\<lparr>dt_fs := fs2\<rparr>)"
    using w1(1) w2(1) assms(1,2) by (simp add: two_walks_def prog_simps)
  then show ?thesis
  proof (rule that)
    show "mode_at fs2 q = Some m1" if "prefix_of (resolve t) q" "view (dt_fs s) q \<noteq> Absent" for q
      using that apart_prefixes [OF assms(6), of q] by (auto simp: k1 k2)
  qed (simp_all add: w1(3) w2(2,3) v1 v2 k2)
qed

lemma same_views:
  assumes "\<And>q. view fs' q = view fs q"
  shows "ready src dst fs' = ready src dst fs" "compatible sp dp fs' = compatible sp dp fs"
    "deep n sp fs' = deep n sp fs"
  using assms by (simp_all add: ready_def tree_fits_def compatible_def deep_def)

lemma may_change_existing:
  assumes "as_root fs" "view fs p \<noteq> Absent" "p \<noteq> []"
  shows "may_change fs p"
proof -
  have "view fs (butlast p @ [last p]) \<noteq> Absent" using assms(2,3) by simp
  then have "view fs (butlast p) = IsDir" by (rule view_below) simp
  from may_change_root [OF assms(1) this, of "last p"] assms(3) show ?thesis by simp
qed

lemma timed_backup_run:
  assumes H: "streaming H" and rd: "ready src dst (dt_fs s)"
    and st: "back_up_source_directory s = Some src" "back_up_target_directory s = Some dst"
    and root: "as_root (dt_fs s)"
    and dirs: "view (dt_fs s) (resolve src) = IsDir" "view (dt_fs s) (resolve dst) = IsDir"
    and co: "compatible (resolve src) (resolve dst) (dt_fs s)" and dp: "deep fuel (resolve src) (dt_fs s)"
  obtains fs' where "back_up_directory H fuel 34 s = (Inr (), s\<lparr>dt_fs := fs'\<rparr>)"
    "\<And>q. view fs' (resolve src @ q) = view (dt_fs s) (resolve src @ q)"
    "\<And>q c. view (dt_fs s) (resolve src @ q) = IsFile c \<Longrightarrow> view fs' (resolve dst @ q) =
       IsFile (copied (fs_disk (dt_fs s)) (resolve src @ q) (resolve dst @ q) c)"
    "\<And>q. view fs' (resolve src @ q) \<noteq> Absent \<Longrightarrow> mode_at fs' (resolve src @ q) = Some 0x1B0"
    "\<And>q. view fs' (resolve dst @ q) \<noteq> Absent \<Longrightarrow> mode_at fs' (resolve dst @ q) = Some 0x120"
proof -
  have ap: "apart (resolve src) (resolve dst)" using rd by (simp add: ready_def)
  obtain fs1 where l: "two_walks 0x120 0x120 s = (Inr (), s\<lparr>dt_fs := fs1\<rparr>)" "as_root fs1"
      "fs_disk fs1 = fs_disk (dt_fs s)"
    and v1: "\<And>q. view fs1 q = view (dt_fs s) q"
    by (rule two_walks_run [OF st(2,1) root _ _ ap, of "0x120" "0x120"]) (simp_all add: dirs)
  note sv = same_views [OF v1]
  have rd1: "ready src dst fs1" and co1: "compatible (resolve src) (resolve dst) fs1"
    and dp1: "deep fuel (resolve src) fs1" using rd co dp by (simp_all add: sv)
  have sd: "view fs1 (resolve src) = IsDir" "view fs1 (resolve dst) = IsDir" using dirs v1 by simp_all
  obtain e fs2 where t: "transfer_directory H fuel src dst BACKUP fs1 = Some (e, fs2)"
    using transfer_directory_returns [OF H rd1 sd(1) dp1] by blast
  have m: "moved (removable H BACKUP (fs_disk fs1)) (resolve src) (resolve dst) fs1 fs2"
    using transfer_directory_moved [OF H rd1 sd(1) t] by simp
  have mc: "may_change fs1 (resolve dst)"
    using may_change_existing [OF l(2)] sd(2) apart_not_nil [OF ap] by simp
  have r2: "as_root fs2" using moved_root [OF m] l(2) by simp
  have src2: "view fs2 (resolve src @ q) = view fs1 (resolve src @ q)" for q
    using moved_cell [OF m, of q] by (auto simp: cell_def removable_def)
  have d2: "view fs2 (resolve src) = IsDir" "view fs2 (resolve dst) = IsDir"
    using src2 [of "[]"] moved_dest_dir [OF m, of "[]"] sd by simp_all
  have cp: "view fs2 (resolve dst @ q) = IsFile (copied (fs_disk (dt_fs s)) (resolve src @ q) (resolve dst @ q) c)"
    if "view fs1 (resolve src @ q) = IsFile c" for q c
    using transfer_directory_copies(1) [OF H rd1 l(2) sd(1) co1 mc _ t that] moved_fields [OF m] l(3)
    by (simp add: handled_def copy_at_def)
  let ?s2 = "s\<lparr>dt_fs := fs2\<rparr>"
  obtain fs3 where u: "two_walks 0x120 0x1B0 ?s2 = (Inr (), ?s2\<lparr>dt_fs := fs3\<rparr>)"
    and v3: "\<And>q. view fs3 q = view fs2 q"
    and md: "\<And>q. prefix_of (resolve dst) q \<Longrightarrow> view fs2 q \<noteq> Absent \<Longrightarrow> mode_at fs3 q = Some 0x120"
    and ms: "\<And>q. prefix_of (resolve src) q \<Longrightarrow> view fs2 q \<noteq> Absent \<Longrightarrow> mode_at fs3 q = Some 0x1B0"
    by (rule two_walks_run [of ?s2 dst src "0x120" "0x1B0"]) (simp_all add: st r2 d2 ap)
  have "back_up_directory H fuel 34 s = (Inr (), s\<lparr>dt_fs := fs3\<rparr>)"
    using l(1) t u st by (simp add: back_up_directory_def lock_backup_walks prog_simps dt_transfer_def)
  then show ?thesis by (rule that) (simp_all add: v3 src2 v1 cp md ms prefix_of_def)
qed

section \<open>Directories that are made stay\<close>

text \<open>An update shows nowhere but at and below its position, to root or to anyone.\<close>

lemma face_upd_other:
  assumes "\<not> prefix_of p q"
  shows "map_option node_face (lookup r (upd p new n) q) = map_option node_face (lookup r n q)"
  using assms
proof (induction p new n arbitrary: q rule: upd.induct)
  case (1 new n)
  then show ?case by simp
next
  case (2 x xs new m c)
  then show ?case by simp
next
  case (3 x new m es)
  then show ?case
    by (cases q; cases new) (auto simp: update_conv' delete_conv' fun_upd_def)
next
  case (4 x y xs new m es)
  show ?case
  proof (cases "map_of es x")
    case None
    then show ?thesis by simp
  next
    case (Some n)
    with 4 show ?thesis
      by (cases q; cases "hd q = x") (auto simp: update_conv')
  qed
qed

definition node_seen :: "fsys \<Rightarrow> string list \<Rightarrow> (mode \<times> byte list option) option" where
  "node_seen fs p = map_option node_face (node_of fs p)"

lemma view_mode_face:
  "face (fs_root fs') q = face (fs_root fs) q \<Longrightarrow> view fs' q = view fs q \<and> mode_at fs' q = mode_at fs q"
  by (simp add: view_face mode_at_def)

lemma access_seen: "node_seen fs' p = node_seen fs p \<Longrightarrow> sys_access_rwx p fs' = sys_access_rwx p fs"
  if "as_root fs' = as_root fs"
  using that by (cases "node_of fs p"; cases "node_of fs' p")
    (auto simp: node_seen_def sys_access_rwx_def split: node.splits)

text \<open>Making a directory: the new entry, and everything else as it was.\<close>

lemma mkdir_new:
  assumes "sys_mkdir p m fs = (r, fs')" "r \<noteq> -1"
  shows "view fs p = Absent \<and> view fs' p = IsDir \<and> mode_at fs' p = Some (m AND NOT (fs_umask fs)) \<and>
    as_root fs' = as_root fs \<and> fs_umask fs' = fs_umask fs \<and>
    (q \<noteq> p \<longrightarrow> face (fs_root fs') q = face (fs_root fs) q \<and> node_seen fs' q = node_seen fs q)"
proof -
  from assms have ne: "\<not> entry_at (fs_root fs) p" and mc: "may_change fs p"
    and fs': "fs' = set_node p (Some (Dir (m AND NOT (fs_umask fs)) [])) fs"
    by (auto simp: sys_mkdir_def split: if_splits)
  note new = lookup_set_new [OF mc, of "Dir (m AND NOT (fs_umask fs)) []"]
  have gone: "lookup True (fs_root fs) (p @ q') = None" for q'
    using ne by (simp add: entry_at_def lookup_append)
  have below: "face (fs_root fs') q = face (fs_root fs) q \<and> node_seen fs' q = node_seen fs q"
    if "q \<noteq> p" for q
  proof (cases "prefix_of p q")
    case True
    with that obtain x q' where q: "q = p @ x # q'" by (cases "drop (length p) q") (auto simp: prefix_of_def)
    then have "lookup True (fs_root fs') q = None" "lookup True (fs_root fs) q = None"
      using new [of "x # q'"] gone [of "x # q'"] by (simp_all add: fs')
    moreover have "lookup a n q = None" if "lookup True n q = None" for a n
      using that lookup_root [of a n q] by (cases "lookup a n q") auto
    ultimately show ?thesis by (simp add: face_def node_seen_def node_of_def fs')
  next
    case False
    then show ?thesis by (simp add: face_def node_seen_def node_of_def fs' face_upd_other)
  qed
  show ?thesis
    using new [of "[]"] gone [of "[]"] below by (simp add: view_def mode_at_def face_def fs')
qed

lemma create_dir_run:
  assumes "create_dir_if_not_exist d m s = (Inr r, s')"
  shows "(case node_of (dt_fs s) (resolve d) of
      None \<Rightarrow> (\<exists>k. sys_mkdir (resolve d) m (dt_fs s) = (k, dt_fs s') \<and> k \<noteq> -1)
    | Some n \<Rightarrow> s' = s \<and> sys_access_rwx (resolve d) (dt_fs s) = 0)"
proof (cases "node_of (dt_fs s) (resolve d)")
  case None
  obtain k fs' where "sys_mkdir (resolve d) m (dt_fs s) = (k, fs')" by force
  with assms None show ?thesis
    by (auto simp: create_dir_if_not_exist_def prog_defs dt_modify_fs_def split: if_splits)
next
  case (Some n)
  have "sys_access_rwx (resolve d) (dt_fs s) = -1 \<or> sys_access_rwx (resolve d) (dt_fs s) = 0"
    by (simp add: sys_access_rwx_def split: option.split node.split)
  with assms Some show ?thesis
    by (auto simp: create_dir_if_not_exist_def prog_defs split: if_splits)
qed

text \<open>The entry was there and may be used, or it has been made.\<close>

definition provided :: "fsys \<Rightarrow> fsys \<Rightarrow> string list \<Rightarrow> bool" where
  "provided fs fs' p \<longleftrightarrow> (case node_of fs p of
       Some _ \<Rightarrow> sys_access_rwx p fs = 0
     | None \<Rightarrow> view fs' p = IsDir \<and> mode_at fs' p = Some (0x1F8 AND NOT (fs_umask fs)))"

lemma provided_later:
  assumes "provided fs1 fs' p" "node_seen fs1 p = node_seen fs p" "as_root fs1 = as_root fs"
    "fs_umask fs1 = fs_umask fs"
  shows "provided fs fs' p"
  using assms access_seen [OF assms(3,2)] by (auto simp: provided_def node_seen_def split: option.splits)

lemma init_directories_run:
  assumes "init_directories n dirs s = (Inr r, s')"
  shows "n \<le> length dirs \<and>
    (\<forall>i < n. provided (dt_fs s) (dt_fs s') (resolve (dirs ! i))) \<and>
    (\<forall>q. view (dt_fs s) q \<noteq> Absent \<longrightarrow>
       view (dt_fs s') q = view (dt_fs s) q \<and> mode_at (dt_fs s') q = mode_at (dt_fs s) q) \<and>
    (\<forall>q. view (dt_fs s') q \<noteq> Absent \<longrightarrow>
       view (dt_fs s) q \<noteq> Absent \<or> (\<exists>i < n. q = resolve (dirs ! i)))"
  using assms
proof (induction n dirs arbitrary: s rule: init_directories.induct)
  case (3 n d ds)
  let ?p = "resolve d"
  from "3.prems" obtain k s1 where c: "create_dir_if_not_exist d 0x1F8 s = (Inr k, s1)"
    and rest: "init_directories n ds s1 = (Inr r, s')"
    by (auto elim!: bnd_cases)
  note IH = "3.IH" [OF rest]
  show ?case
  proof (cases "node_of (dt_fs s) ?p")
    case (Some x)
    with create_dir_run [OF c] have "s1 = s" "provided (dt_fs s) (dt_fs s') ?p"
      by (simp_all add: provided_def)
    with IH show ?thesis by (auto simp: All_less_Suc2 Ex_less_Suc2)
  next
    case None
    with create_dir_run [OF c] obtain k' where "sys_mkdir ?p 0x1F8 (dt_fs s) = (k', dt_fs s1)" "k' \<noteq> -1"
      by auto
    note mk = mkdir_new [OF this]
    have other: "view (dt_fs s1) q = view (dt_fs s) q \<and> mode_at (dt_fs s1) q = mode_at (dt_fs s) q"
      if "q \<noteq> ?p" for q
      by (rule view_mode_face) (use mk [of q] that in simp)
    have made: "provided (dt_fs s) (dt_fs s') ?p"
      using IH mk None by (simp add: provided_def)
    have later: "provided (dt_fs s) (dt_fs s') (resolve (ds ! i))" if "i < n" for i
    proof (cases "resolve (ds ! i) = ?p")
      case True
      with made show ?thesis by simp
    next
      case False
      show ?thesis by (rule provided_later [of "dt_fs s1"]) (use IH that mk False in simp_all)
    qed
    have keep: "view (dt_fs s') q = view (dt_fs s) q \<and> mode_at (dt_fs s') q = mode_at (dt_fs s) q"
      if "view (dt_fs s) q \<noteq> Absent" for q
    proof -
      have "q \<noteq> ?p" using that mk by auto
      from other [OF this] that IH show ?thesis by simp
    qed
    have no_more: "view (dt_fs s) q \<noteq> Absent \<or> q = ?p \<or> (\<exists>i < n. q = resolve (ds ! i))"
      if "view (dt_fs s') q \<noteq> Absent" for q
      using that IH other [of q] by (cases "q = ?p") auto
    show ?thesis using IH made later keep no_more by (auto simp: All_less_Suc2 Ex_less_Suc2)
  qed
qed (simp_all add: prog_defs)

section \<open>Properties\<close>

text \<open>
  C17: a timed backup as root, between disjoint and compatible trees that both exist: the
  handler of the backup signal returns, leaves every file of the source unchanged, puts a
  copy of what can be read of each at its place in the target, in full where reading and
  writing do not fail, and leaves every entry of the source with mode 0660 and every entry
  of the target with mode 0440.
\<close>

theorem timed_backup_correct:
  assumes "streaming H" "ready src dst (dt_fs s)"
    "back_up_source_directory s = Some src" "back_up_target_directory s = Some dst"
    "as_root (dt_fs s)" "view (dt_fs s) (resolve src) = IsDir" "view (dt_fs s) (resolve dst) = IsDir"
    "compatible (resolve src) (resolve dst) (dt_fs s)" "deep fuel (resolve src) (dt_fs s)"
  shows "\<exists>fs'. back_up_directory H fuel 34 s = (Inr (), s\<lparr>dt_fs := fs'\<rparr>) \<and>
    (\<forall>q. view fs' (resolve src @ q) = view (dt_fs s) (resolve src @ q)) \<and>
    (\<forall>q c. view (dt_fs s) (resolve src @ q) = IsFile c \<longrightarrow>
       view fs' (resolve dst @ q) =
         IsFile (copied (fs_disk (dt_fs s)) (resolve src @ q) (resolve dst @ q) c) \<and>
       (intact (fs_disk (dt_fs s)) (resolve src @ q) (resolve dst @ q) \<longrightarrow>
         view fs' (resolve dst @ q) = IsFile c)) \<and>
    (\<forall>q. view fs' (resolve src @ q) \<noteq> Absent \<longrightarrow> mode_at fs' (resolve src @ q) = Some 0x1B0) \<and>
    (\<forall>q. view fs' (resolve dst @ q) \<noteq> Absent \<longrightarrow> mode_at fs' (resolve dst @ q) = Some 0x120)"
proof -
  obtain fs' where "back_up_directory H fuel 34 s = (Inr (), s\<lparr>dt_fs := fs'\<rparr>)"
    and "\<And>q. view fs' (resolve src @ q) = view (dt_fs s) (resolve src @ q)"
    and "\<And>q c. view (dt_fs s) (resolve src @ q) = IsFile c \<Longrightarrow> view fs' (resolve dst @ q) =
       IsFile (copied (fs_disk (dt_fs s)) (resolve src @ q) (resolve dst @ q) c)"
    and "\<And>q. view fs' (resolve src @ q) \<noteq> Absent \<Longrightarrow> mode_at fs' (resolve src @ q) = Some 0x1B0"
    and "\<And>q. view fs' (resolve dst @ q) \<noteq> Absent \<Longrightarrow> mode_at fs' (resolve dst @ q) = Some 0x120"
    by (rule timed_backup_run [OF assms]) blast
  then show ?thesis by (intro exI [of _ fs']) simp
qed

text \<open>The same tree as before with an empty destination.\<close>

definition sample_dirtool :: dirtool where
  "sample_dirtool = \<lparr>dt_fs = \<lparr>fs_root = Dir 0x1FF
     [(''s'', Dir 0x1FF [(''a'', File 0x1B6 [1, 2])]), (''d'', Dir 0x1FF [])], as_root = True, fs_umask = 0,
     fs_disk = good_disk\<rparr>,
     back_up_source_directory = Some ''/s'', back_up_target_directory = Some ''/d'',
     transfer_source_directory = None, transfer_target_directory = None,
     dt_handlers = (\<lambda>_. None), dt_timers = []\<rparr>"

lemma sample_dirtool_source: "lookup True (fs_root (dt_fs sample_dirtool)) (resolve ''/s'') =
    Some (Dir 0x1FF [(''a'', File 0x1B6 [1, 2])])"
  by (simp add: sample_dirtool_def resolve_sample)

lemma sample_dirtool_ready: "ready ''/s'' ''/d'' (dt_fs sample_dirtool)"
  unfolding ready_def
  by (intro conjI tree_fitsI [OF sample_dirtool_source])
    (simp_all add: resolve_sample apart_def D_PATH_SIZE_def plain_name_def)

lemma sample_dirtool_views:
  "view (dt_fs sample_dirtool) (resolve ''/s'') = IsDir"
  "view (dt_fs sample_dirtool) (resolve ''/d'') = IsDir"
  "view (dt_fs sample_dirtool) (resolve ''/s'' @ [''a'']) = IsFile [1, 2]"
  by (simp_all add: view_def resolve_sample sample_dirtool_def)

lemma sample_dirtool_compatible:
  "compatible (resolve ''/s'') (resolve ''/d'') (dt_fs sample_dirtool)"
  unfolding compatible_def
proof
  fix q show "fits_over (view (dt_fs sample_dirtool) (resolve ''/s'' @ q)) (view (dt_fs sample_dirtool) (resolve ''/d'' @ q))"
    by (cases q) (simp_all add: fits_over_def view_def resolve_sample sample_dirtool_def)
qed

lemma sample_dirtool_deep: "deep 1 (resolve ''/s'') (dt_fs sample_dirtool)"
  by (rule deepI [OF sample_dirtool_source]) simp

theorem timed_backup_correct_witness:
  "\<exists>fs'. back_up_directory sample_sha 1 34 sample_dirtool = (Inr (), sample_dirtool\<lparr>dt_fs := fs'\<rparr>) \<and>
     view fs' (resolve ''/d'' @ [''a'']) = IsFile [1, 2]"
proof -
  have s: "back_up_source_directory sample_dirtool = Some ''/s''"
    "back_up_target_directory sample_dirtool = Some ''/d''" "as_root (dt_fs sample_dirtool)"
    by (simp_all add: sample_dirtool_def)
  have "intact (fs_disk (dt_fs sample_dirtool)) (resolve ''/s'' @ q) (resolve ''/d'' @ q)" for q
    by (simp add: intact_def sample_dirtool_def)
  with timed_backup_correct [OF sample_streaming sample_dirtool_ready s sample_dirtool_views(1,2)
      sample_dirtool_compatible sample_dirtool_deep] sample_dirtool_views(3)
  show ?thesis by blast
qed

text \<open>
  C29: arming a backup and a transfer timer does not mix them up: both timers stand with their
  absolute times, intervals and signals, signal 34 runs a backup and signal 35 a move, each
  with the directories given for it.
\<close>

theorem timers_do_not_interfere:
  "(case bnd (transfer_at_time \<lparr>sigaction_ok = True, timer_create_ok = True, timer_settime_ok = True\<rparr>
        bs bt t1 i1 BACKUP) (\<lambda>_. transfer_at_time
          \<lparr>sigaction_ok = True, timer_create_ok = True, timer_settime_ok = True\<rparr> ts tt t2 i2 TRANSFER) s of
      (r, s') \<Rightarrow> r = Inr (Suc (length (dt_timers s))) \<and>
        dt_timers s' = dt_timers s @
          [\<lparr>tm_signo = 34, it_value = t1, it_interval = i1\<rparr>, \<lparr>tm_signo = 35, it_value = t2, it_interval = i2\<rparr>] \<and>
        back_up_source_directory s' = Some bs \<and> back_up_target_directory s' = Some bt \<and>
        transfer_source_directory s' = Some ts \<and> transfer_target_directory s' = Some tt \<and>
        deliver H fuel 34 s' = back_up_directory H fuel 34 s' \<and>
        deliver H fuel 35 s' = timed_transfer_directory H fuel 35 s' \<and> dt_fs s' = dt_fs s)"
  by (simp add: transfer_at_time_def Let_def prog_simps set_timer_signals_def create_timer_abs_def
      start_timer_def SIGRTMIN_def method_number_def deliver_def)

text \<open>
  C39: the two walks around a timed transfer go over the target of the backup: without a
  backup armed first they start from a null pointer; with one, as root, the first sets mode
  0440 and the second mode 0660 on everything below that target, and all else keeps its
  mode, so a transfer's own source is neither locked nor unlocked where it is apart from the
  backup's target. (The file manager arms both with the dashboard, so that there the wrong
  variable names the right directory.)
\<close>

theorem lock_transfer_walks_backup_target:
  "(back_up_target_directory s = None \<longrightarrow>
     lock_transfer s = (Inl Undefined, s) \<and> unlock_transfer s = (Inl Undefined, s)) \<and>
   (back_up_target_directory s = Some t \<and> as_root (dt_fs s) \<and> view (dt_fs s) (resolve t) \<noteq> Absent \<longrightarrow>
     (\<exists>fl fu. lock_transfer s = (Inr (), s\<lparr>dt_fs := fl\<rparr>) \<and> unlock_transfer s = (Inr (), s\<lparr>dt_fs := fu\<rparr>) \<and>
       (\<forall>q. view fl q = view (dt_fs s) q \<and> view fu q = view (dt_fs s) q) \<and>
       (\<forall>q. mode_at fl q = (if prefix_of (resolve t) q \<and> view (dt_fs s) q \<noteq> Absent
          then Some 0x120 else mode_at (dt_fs s) q)) \<and>
       (\<forall>q. mode_at fu q = (if prefix_of (resolve t) q \<and> view (dt_fs s) q \<noteq> Absent
          then Some 0x1B0 else mode_at (dt_fs s) q)) \<and>
       (transfer_source_directory s = Some src \<and> apart (resolve src) (resolve t) \<longrightarrow>
          (\<forall>q. mode_at fl (resolve src @ q) = mode_at (dt_fs s) (resolve src @ q) \<and>
               mode_at fu (resolve src @ q) = mode_at (dt_fs s) (resolve src @ q)))))"
proof (intro conjI impI)
  assume "back_up_target_directory s = None"
  then show "lock_transfer s = (Inl Undefined, s)" "unlock_transfer s = (Inl Undefined, s)"
    by (simp_all add: lock_transfer_def unlock_transfer_def prog_defs dt_nftw_def)
next
  assume a: "back_up_target_directory s = Some t \<and> as_root (dt_fs s) \<and> view (dt_fs s) (resolve t) \<noteq> Absent"
  obtain fl where wl: "nftw t (chmod_callback 0x120) (dt_fs s) = (0, fl)"
    and vl: "\<And>q. view fl q = view (dt_fs s) q"
    and ml: "\<And>q. mode_at fl q = (if prefix_of (resolve t) q \<and> view (dt_fs s) q \<noteq> Absent
          then Some 0x120 else mode_at (dt_fs s) q)"
    using nftw_chmod [of "dt_fs s" t "0x120"] a by metis
  obtain fu where wu: "nftw t (chmod_callback 0x1B0) (dt_fs s) = (0, fu)"
    and vu: "\<And>q. view fu q = view (dt_fs s) q"
    and mu: "\<And>q. mode_at fu q = (if prefix_of (resolve t) q \<and> view (dt_fs s) q \<noteq> Absent
          then Some 0x1B0 else mode_at (dt_fs s) q)"
    using nftw_chmod [of "dt_fs s" t "0x1B0"] a by metis
  have "lock_transfer s = (Inr (), s\<lparr>dt_fs := fl\<rparr>)" "unlock_transfer s = (Inr (), s\<lparr>dt_fs := fu\<rparr>)"
    using a wl wu by (simp_all add: lock_transfer_def unlock_transfer_def prog_simps permission_defs)
  moreover have "\<not> prefix_of (resolve t) (resolve src @ q)" if "apart (resolve src) (resolve t)" for q
    using apart_append [OF that] by blast
  ultimately show "\<exists>fl fu. lock_transfer s = (Inr (), s\<lparr>dt_fs := fl\<rparr>) \<and> unlock_transfer s = (Inr (), s\<lparr>dt_fs := fu\<rparr>) \<and>
       (\<forall>q. view fl q = view (dt_fs s) q \<and> view fu q = view (dt_fs s) q) \<and>
       (\<forall>q. mode_at fl q = (if prefix_of (resolve t) q \<and> view (dt_fs s) q \<noteq> Absent
          then Some 0x120 else mode_at (dt_fs s) q)) \<and>
       (\<forall>q. mode_at fu q = (if prefix_of (resolve t) q \<and> view (dt_fs s) q \<noteq> Absent
          then Some 0x1B0 else mode_at (dt_fs s) q)) \<and>
       (transfer_source_directory s = Some src \<and> apart (resolve src) (resolve t) \<longrightarrow>
          (\<forall>q. mode_at fl (resolve src @ q) = mode_at (dt_fs s) (resolve src @ q) \<and>
               mode_at fu (resolve src @ q) = mode_at (dt_fs s) (resolve src @ q)))"
    using vl vu ml mu by (intro exI [of _ fl] exI [of _ fu]) simp
qed

text \<open>The sample state with a transfer out of the other directory.\<close>

definition sample_transfer :: dirtool where
  "sample_transfer = sample_dirtool\<lparr>transfer_source_directory := Some ''/s''\<rparr>"

theorem lock_transfer_walks_backup_target_witness:
  "\<exists>fl fu. lock_transfer sample_transfer = (Inr (), sample_transfer\<lparr>dt_fs := fl\<rparr>) \<and>
     unlock_transfer sample_transfer = (Inr (), sample_transfer\<lparr>dt_fs := fu\<rparr>) \<and>
     mode_at fl [''d''] = Some 0x120 \<and> mode_at fu [''d''] = Some 0x1B0 \<and>
     mode_at fl [''s'', ''a''] = Some 0x1B6"
proof -
  have "mode_at (dt_fs sample_dirtool) [''s'', ''a''] = Some 0x1B6" "as_root (dt_fs sample_transfer)"
    "back_up_target_directory sample_transfer = Some ''/d''" "dt_fs sample_transfer = dt_fs sample_dirtool"
    "transfer_source_directory sample_transfer = Some ''/s''"
    by (simp_all add: mode_at_def face_def sample_dirtool_def sample_transfer_def)
  moreover have v: "view (dt_fs sample_dirtool) [''d''] \<noteq> Absent" and "apart [''s''] [''d'']"
    using sample_dirtool_views(2) by (simp_all add: resolve_sample apart_def)
  moreover obtain fl fu where "lock_transfer sample_transfer = (Inr (), sample_transfer\<lparr>dt_fs := fl\<rparr>)"
    "unlock_transfer sample_transfer = (Inr (), sample_transfer\<lparr>dt_fs := fu\<rparr>)"
    "mode_at fl [''d''] = Some 0x120" "mode_at fu [''d''] = Some 0x1B0"
    "\<forall>q. mode_at fl ([''s''] @ q) = mode_at (dt_fs sample_dirtool) ([''s''] @ q)"
    using lock_transfer_walks_backup_target [of sample_transfer "''/d''" "''/s''"] calculation
    by (auto simp: resolve_sample)
  ultimately show ?thesis by (metis append_Cons append_Nil)
qed

text \<open>
  C38: when \<open>init_directories\<close> returns, each of the entries it was given either was there from
  the start, to be read, written and searched by the process (of whatever kind: a regular
  file passes), or has been made: a directory with mode 0770 less the umask. Whatever stood
  in the file system still does with the same mode and content, and nothing else is made.
  Otherwise it exits the process.
\<close>

theorem init_directories_makes_all:
  assumes "init_directories n dirs s = (Inr r, s')"
  shows "n \<le> length dirs \<and>
    (\<forall>i < n. case node_of (dt_fs s) (resolve (dirs ! i)) of
       Some _ \<Rightarrow> sys_access_rwx (resolve (dirs ! i)) (dt_fs s) = 0
     | None \<Rightarrow> view (dt_fs s') (resolve (dirs ! i)) = IsDir \<and>
         mode_at (dt_fs s') (resolve (dirs ! i)) = Some (0x1F8 AND NOT (fs_umask (dt_fs s)))) \<and>
    (\<forall>q. view (dt_fs s) q \<noteq> Absent \<longrightarrow>
       view (dt_fs s') q = view (dt_fs s) q \<and> mode_at (dt_fs s') q = mode_at (dt_fs s) q) \<and>
    (\<forall>q. view (dt_fs s') q \<noteq> Absent \<longrightarrow>
       view (dt_fs s) q \<noteq> Absent \<or> (\<exists>i < n. q = resolve (dirs ! i)))"
  using init_directories_run [OF assms] unfolding provided_def .

lemma sample_init: "init_directories 2 [''/s'', ''/n''] sample_dirtool =
    (Inr 0, sample_dirtool\<lparr>dt_fs := set_node [''n''] (Some (Dir 0x1F8 [])) (dt_fs sample_dirtool)\<rparr>)"
  by (simp add: numeral_2_eq_2 prog_defs create_dir_if_not_exist_def dt_modify_fs_def sys_mkdir_def
      resolve_def node_of_def sample_dirtool_def sys_access_rwx_def entry_at_def may_change_def)

theorem init_directories_makes_all_witness:
  "\<exists>s'. init_directories 2 [''/s'', ''/n''] sample_dirtool = (Inr 0, s') \<and>
     view (dt_fs s') [''n''] = IsDir \<and> mode_at (dt_fs s') [''n''] = Some 0x1F8 \<and>
     view (dt_fs s') [''s'', ''a''] = IsFile [1, 2]"
proof -
  let ?fs = "dt_fs sample_dirtool"
  have n: "node_of ?fs (resolve ''/n'') = None" "resolve ''/n'' = [''n'']" "fs_umask ?fs = 0"
    by (simp_all add: sample_dirtool_def node_of_def resolve_def)
  have a: "view ?fs [''s'', ''a''] = IsFile [1, 2]"
    using sample_dirtool_views(3) by (simp add: resolve_sample)
  note r = init_directories_makes_all [OF sample_init]
  from r [THEN conjunct2, THEN conjunct1, rule_format, of 1] r [THEN conjunct2, THEN conjunct2,
      THEN conjunct1, rule_format, of "[''s'', ''a'']"] n a
  show ?thesis unfolding sample_init by (simp add: resolve_sample)
qed

end
