(* ===== verification/RM_OS.thy ===== *)
theory RM_OS
  imports RM_Prelude
begin

text \<open>
  The part of the operating system the program rests on: processes with descriptor
  tables, pipes as byte queues shared between them, and the system calls \<open>read\<close>,
  \<open>write\<close>, \<open>select\<close>, \<open>close\<close>, \<open>pipe\<close>, \<open>fork\<close>, \<open>kill\<close> and \<open>waitpid\<close> as the program uses
  them. Every call is a function of the calling process and the whole system state, so
  that several processes can be interleaved over one state.
\<close>

type_synonym pid = int
type_synonym fd = int

section \<open>System state\<close>

datatype fdobj = PipeR nat | PipeW nat | OtherFd nat

datatype sigdisp = SigDfl | SigIgn | SigHandler

text \<open>
  \<open>sigpipe_hits\<close> counts the SIGPIPE handler runs that are due; \<open>pending\<close> holds the blocked
  signals a signalfd will deliver (\<open>None\<close>: the process does not block them).
\<close>

record proc =
  fdtab :: "(fd \<times> fdobj) list"
  sigpipe :: sigdisp
  sigpipe_hits :: nat
  pending :: "nat list option"

text \<open>
  \<open>faulty p\<close> says that system calls on pipe \<open>p\<close> fail at present (an interrupted or failing
  call returns -1 whatever the reason). \<open>autoreap\<close>: a child that ends
  vanishes, as after \<open>signal(SIGCHLD, SIG_IGN)\<close>; otherwise it stays as a zombie.
\<close>

record os =
  procs :: "(pid \<times> proc) list"
  zombies :: "pid list"
  autoreap :: bool
  bufs :: "nat \<Rightarrow> byte list"
  faulty :: "nat \<Rightarrow> bool"
  npipe :: nat
  npid :: pid

definition fds_of :: "os \<Rightarrow> pid \<Rightarrow> (fd \<times> fdobj) list" where
  "fds_of s me = (case map_of (procs s) me of None \<Rightarrow> [] | Some p \<Rightarrow> fdtab p)"

definition fd_obj :: "os \<Rightarrow> pid \<Rightarrow> fd \<Rightarrow> fdobj option" where
  "fd_obj s me f = map_of (fds_of s me) f"

definition holds :: "os \<Rightarrow> fdobj \<Rightarrow> bool" where
  "holds s ob = list_ex (\<lambda>(_, p). list_ex (\<lambda>(_, o'). o' = ob) (fdtab p)) (procs s)"

definition upd_proc :: "pid \<Rightarrow> (proc \<Rightarrow> proc) \<Rightarrow> os \<Rightarrow> os" where
  "upd_proc me f s = s\<lparr>procs := map (\<lambda>(i, p). (i, if i = me then f p else p)) (procs s)\<rparr>"

lemma holdsI: "map_of (procs s) q = Some p \<Longrightarrow> map_of (fdtab p) f = Some ob \<Longrightarrow> holds s ob"
  by (force simp: holds_def list_ex_iff dest: map_of_SomeD)

lemma holds_fd_obj: "fd_obj s q f = Some ob \<Longrightarrow> holds s ob"
  by (auto simp: fd_obj_def fds_of_def split: option.splits intro: holdsI)

section \<open>Pipes\<close>

text \<open>Capacity of a Linux pipe; a write of up to PIPE\_BUF = 4096 bytes is atomic.\<close>

definition pipe_capacity :: nat where
  "pipe_capacity = 65536"

definition SIGPIPE :: nat where "SIGPIPE = 13"
definition SIGTERM :: nat where "SIGTERM = 15"
definition SIGINT :: nat where "SIGINT = 2"

text \<open>
  \<open>write(2)\<close>: -1 on a bad descriptor or a failing pipe; a pipe nobody reads raises SIGPIPE,
  which kills the process unless it is ignored or handled (then -1 is returned); a full
  pipe blocks.
\<close>

definition sigpipe_of :: "os \<Rightarrow> pid \<Rightarrow> sigdisp" where
  "sigpipe_of s me = (case map_of (procs s) me of None \<Rightarrow> SigDfl | Some p \<Rightarrow> sigpipe p)"

definition raise_sigpipe :: "pid \<Rightarrow> (os, int) prog" where
  "raise_sigpipe me s =
     (case sigpipe_of s me of
        SigDfl \<Rightarrow> (Inl (Killed SIGPIPE), s)
      | SigIgn \<Rightarrow> (Inr (-1), s)
      | SigHandler \<Rightarrow>
          (Inr (-1), upd_proc me (\<lambda>p. p\<lparr>sigpipe_hits := Suc (sigpipe_hits p)\<rparr>) s))"

definition sys_write :: "pid \<Rightarrow> fd \<Rightarrow> byte list \<Rightarrow> (os, int) prog" where
  "sys_write me f bs s =
     (case fd_obj s me f of
        Some (PipeW p) \<Rightarrow>
          (if faulty s p then (Inr (-1), s)
           else if \<not> holds s (PipeR p) then raise_sigpipe me s
           else if pipe_capacity < length (bufs s p) + length bs then (Inl Blocked, s)
           else (Inr (int (length bs)), s\<lparr>bufs := (bufs s)(p := bufs s p @ bs)\<rparr>))
      | _ \<Rightarrow> (Inr (-1), s))"

text \<open>
  \<open>read(2)\<close> gives the number of bytes (-1 on error, 0 at end of file: nothing is buffered
  and no process holds a write end) and the bytes; an empty pipe with a writer blocks.
\<close>

definition sys_read :: "pid \<Rightarrow> fd \<Rightarrow> nat \<Rightarrow> (os, int \<times> byte list) prog" where
  "sys_read me f n s =
     (case fd_obj s me f of
        Some (PipeR p) \<Rightarrow>
          (if faulty s p then (Inr (-1, []), s)
           else if bufs s p = [] then
             (if holds s (PipeW p) then (Inl Blocked, s) else (Inr (0, []), s))
           else
             (let bs = take n (bufs s p) in
              (Inr (int (length bs), bs), s\<lparr>bufs := (bufs s)(p := drop n (bufs s p))\<rparr>)))
      | _ \<Rightarrow> (Inr (-1, []), s))"

text \<open>
  \<open>select(2)\<close> on one descriptor for reading, in the state in which it returns: 1 when a read
  would not block, 0 when the timeout ran out with nothing to read, -1 on error.
\<close>

definition sys_select :: "pid \<Rightarrow> fd \<Rightarrow> (os, int) prog" where
  "sys_select me f s =
     (case fd_obj s me f of
        Some (PipeR p) \<Rightarrow>
          (if faulty s p then (Inr (-1), s)
           else if bufs s p \<noteq> [] \<or> \<not> holds s (PipeW p) then (Inr 1, s)
           else (Inr 0, s))
      | _ \<Rightarrow> (Inr (-1), s))"

subsection \<open>A healthy connection\<close>

text \<open>
  \<open>link s a fa b fb p\<close>: descriptor \<open>fa\<close> of process \<open>a\<close> writes into pipe \<open>p\<close>, descriptor \<open>fb\<close>
  of process \<open>b\<close> reads from it, and calls on it do not fail.
\<close>

definition link :: "os \<Rightarrow> pid \<Rightarrow> fd \<Rightarrow> pid \<Rightarrow> fd \<Rightarrow> nat \<Rightarrow> bool" where
  "link s a fa b fb p \<longleftrightarrow>
     fd_obj s a fa = Some (PipeW p) \<and> fd_obj s b fb = Some (PipeR p) \<and> \<not> faulty s p"

lemma linkD:
  assumes "link s a fa b fb p"
  shows "fd_obj s a fa = Some (PipeW p)" "fd_obj s b fb = Some (PipeR p)" "\<not> faulty s p"
    "holds s (PipeR p)" "holds s (PipeW p)"
  using assms by (auto simp: link_def intro: holds_fd_obj)

lemma fd_obj_bufs [simp]: "fd_obj (s\<lparr>bufs := b\<rparr>) = fd_obj s"
  by (intro ext) (simp add: fd_obj_def fds_of_def)

lemma holds_bufs [simp]: "holds (s\<lparr>bufs := b\<rparr>) = holds s"
  by (intro ext) (simp add: holds_def)

lemma link_bufs [simp]: "link (s\<lparr>bufs := b\<rparr>) = link s"
  by (intro ext) (simp add: link_def)

lemma sys_write_link:
  "link s a fa b fb p \<Longrightarrow> length (bufs s p) + length bs \<le> pipe_capacity \<Longrightarrow>
   sys_write a fa bs s = (Inr (int (length bs)), s\<lparr>bufs := (bufs s)(p := bufs s p @ bs)\<rparr>)"
  by (simp add: sys_write_def linkD)

lemma sys_read_link:
  "link s a fa b fb p \<Longrightarrow> bufs s p = bs @ rest \<Longrightarrow> length bs = n \<Longrightarrow> bs \<noteq> [] \<Longrightarrow>
   sys_read b fb n s = (Inr (int n, bs), s\<lparr>bufs := (bufs s)(p := rest)\<rparr>)"
  by (auto simp: sys_read_def linkD Let_def)

lemma sys_read_link_empty:
  "link s a fa b fb p \<Longrightarrow> bufs s p = [] \<Longrightarrow> sys_read b fb n s = (Inl Blocked, s)"
  by (simp add: sys_read_def linkD)

lemma sys_select_link:
  "link s a fa b fb p \<Longrightarrow> sys_select b fb s = (Inr (if bufs s p = [] then 0 else 1), s)"
  by (simp add: sys_select_def linkD)

lemma sys_read_eof:
  "fd_obj s b fb = Some (PipeR p) \<Longrightarrow> \<not> faulty s p \<Longrightarrow> bufs s p = [] \<Longrightarrow> \<not> holds s (PipeW p) \<Longrightarrow>
   sys_read b fb n s = (Inr (0, []), s)"
  by (simp add: sys_read_def)

lemma sys_select_eof:
  "fd_obj s b fb = Some (PipeR p) \<Longrightarrow> \<not> faulty s p \<Longrightarrow> bufs s p = [] \<Longrightarrow> \<not> holds s (PipeW p) \<Longrightarrow>
   sys_select b fb s = (Inr 1, s)"
  by (simp add: sys_select_def)

end
