(* ===== verification/RM_IPC.thy ===== *)
theory RM_IPC
  imports RM_OS
begin

unbundle bit_operations_syntax

text \<open>
  The messages the daemon and its children exchange (\<open>src/libs/reportman.c\<close>, the \<open>ipc_\<close>
  functions, with the constants of \<open>reportman_types.h\<close>): one 64-bit word per message,
  written to and read from a pipe as its eight bytes in memory order. Words are kept at
  their width, and the flag tests are the source's mask tests. A variable the source
  leaves uninitialised is an argument \<open>junk\<close> of the definition.
\<close>

section \<open>Constants\<close>

definition R_IPC_COMMAND_FLAG :: u64 where "R_IPC_COMMAND_FLAG = 0xFF000000"
definition R_IPC_VALUE_UINT_FLAG :: u64 where "R_IPC_VALUE_UINT_FLAG = 0xF0000000"
definition R_IPC_VALUE_UINT_MAX :: u64 where "R_IPC_VALUE_UINT_MAX = 0xEFFFFFFF"

text \<open>
  The enum \<open>IPC_COMMANDS\<close>: its constants exceed \<open>INT_MAX\<close>, so its values are 32-bit unsigned
  integers, and a cast can store any of them.
\<close>

definition IPC_COMMAND_NO :: u32 where "IPC_COMMAND_NO = 0xFF000000"
definition IPC_COMMAND_YES :: u32 where "IPC_COMMAND_YES = 0xFF000001"
definition IPC_COMMAND_ACK :: u32 where "IPC_COMMAND_ACK = 0xFF000002"
definition IPC_COMMAND_HEALTH_PROBE :: u32 where "IPC_COMMAND_HEALTH_PROBE = 0xFF000003"
definition IPC_COMMAND_PANIC :: u32 where "IPC_COMMAND_PANIC = 0xFFACFFAC"

lemmas ipc_flags = R_IPC_COMMAND_FLAG_def R_IPC_VALUE_UINT_FLAG_def R_IPC_VALUE_UINT_MAX_def
lemmas ipc_commands = IPC_COMMAND_NO_def IPC_COMMAND_YES_def IPC_COMMAND_ACK_def
  IPC_COMMAND_HEALTH_PROBE_def IPC_COMMAND_PANIC_def

definition IPC_TIMEOUT_ERR :: int where "IPC_TIMEOUT_ERR = -3"
definition R_IPC_TIMEOUT :: int where "R_IPC_TIMEOUT = 5"
definition D_SUCCESS :: int where "D_SUCCESS = 0"
definition D_FAILURE :: int where "D_FAILURE = -1"

record ipc_pipes =
  p_write :: fd
  p_read :: fd

section \<open>A word in memory\<close>

text \<open>
  \<open>bytes_of_word\<close> is the object representation of an \<open>unsigned long\<close> (little endian), and
  \<open>word_of_bytes\<close> reads it back.
\<close>

definition bytes_of_word :: "u64 \<Rightarrow> byte list" where
  "bytes_of_word w = map (\<lambda>i. ucast (drop_bit (8 * i) w)) [0..<8]"

fun word_of_bytes :: "byte list \<Rightarrow> u64" where
  "word_of_bytes [] = 0"
| "word_of_bytes (b # bs) = ucast b OR push_bit 8 (word_of_bytes bs)"

lemma length_bytes_of_word [simp]: "length (bytes_of_word w) = 8"
  by (simp add: bytes_of_word_def)

lemma bytes_of_word_not_nil [simp]: "bytes_of_word w \<noteq> []"
  by (metis length_bytes_of_word list.size(3) zero_neq_numeral)

lemma bit_word_of_bytes:
  "n < 64 \<Longrightarrow> bit (word_of_bytes bs) n \<longleftrightarrow> n div 8 < length bs \<and> bit (bs ! (n div 8)) (n mod 8)"
proof (induction bs arbitrary: n)
  case Nil
  then show ?case by simp
next
  case (Cons b bs)
  show ?case
  proof (cases "n < 8")
    case True
    with Cons.prems show ?thesis
      by (simp add: bit_or_iff bit_push_bit_iff bit_ucast_iff)
  next
    case False
    then have shift: "n div 8 = Suc ((n - 8) div 8)" "n mod 8 = (n - 8) mod 8"
      by (simp_all add: le_div_geq le_mod_geq)
    have "\<not> bit b n" using False bit_imp_le_length [of b n] by auto
    with False Cons.prems Cons.IH [of "n - 8"] shift show ?thesis
      by (auto simp: bit_or_iff bit_push_bit_iff bit_ucast_iff)
  qed
qed

lemma word_of_bytes_of_word [simp]: "word_of_bytes (bytes_of_word w) = w"
proof (rule bit_word_eqI)
  fix n assume n: "n < LENGTH(64)"
  then have "n div 8 < 8" by simp
  then show "bit (word_of_bytes (bytes_of_word w)) n \<longleftrightarrow> bit w n"
    using n by (simp add: bit_word_of_bytes bytes_of_word_def bit_ucast_iff bit_drop_bit_eq)
qed

section \<open>Predicates on messages\<close>

definition ipc_is_command :: "u64 \<Rightarrow> bool" where
  "ipc_is_command msg = (if msg AND R_IPC_COMMAND_FLAG \<noteq> R_IPC_COMMAND_FLAG then False else True)"

definition ipc_is_ack :: "u64 \<Rightarrow> bool" where
  "ipc_is_ack msg =
     (if msg AND ucast IPC_COMMAND_ACK \<noteq> ucast IPC_COMMAND_ACK then False else True)"

definition ipc_is_health_probe :: "u64 \<Rightarrow> bool" where
  "ipc_is_health_probe msg =
     (if msg AND ucast IPC_COMMAND_HEALTH_PROBE \<noteq> ucast IPC_COMMAND_HEALTH_PROBE
      then False else True)"

definition ipc_is_yes :: "u64 \<Rightarrow> bool" where
  "ipc_is_yes msg =
     (if msg AND ucast IPC_COMMAND_YES \<noteq> ucast IPC_COMMAND_YES then False else True)"

definition ipc_is_no :: "u64 \<Rightarrow> bool" where
  "ipc_is_no msg =
     (if msg AND ucast IPC_COMMAND_NO \<noteq> ucast IPC_COMMAND_NO then False else True)"

definition ipc_is_unint :: "u64 \<Rightarrow> bool" where
  "ipc_is_unint msg =
     (if msg AND R_IPC_VALUE_UINT_FLAG \<noteq> R_IPC_VALUE_UINT_FLAG then False else True)"

definition ipc_is_ulong :: "u64 \<Rightarrow> bool" where
  "ipc_is_ulong msg =
     (if msg AND R_IPC_VALUE_UINT_FLAG = R_IPC_VALUE_UINT_FLAG then True else False)"

lemmas ipc_is_defs = ipc_is_command_def ipc_is_ack_def ipc_is_health_probe_def ipc_is_yes_def
  ipc_is_no_def ipc_is_unint_def ipc_is_ulong_def

section \<open>Sending\<close>

text \<open>Every sender ends in the same call: \<open>write(fd, &msg, sizeof(unsigned long)) != -1\<close>.\<close>

definition write_ulong :: "pid \<Rightarrow> fd \<Rightarrow> u64 \<Rightarrow> (os, bool) prog" where
  "write_ulong me f msg =
     bnd (sys_write me f (bytes_of_word msg)) (\<lambda>r. if r = -1 then ret False else ret True)"

definition ipc_send_yes :: "pid \<Rightarrow> fd \<Rightarrow> (os, bool) prog" where
  "ipc_send_yes me pipe_id = write_ulong me pipe_id (ucast IPC_COMMAND_YES)"

definition ipc_send_no :: "pid \<Rightarrow> fd \<Rightarrow> (os, bool) prog" where
  "ipc_send_no me pipe_id = write_ulong me pipe_id (ucast IPC_COMMAND_NO)"

definition ipc_send_ack :: "pid \<Rightarrow> ipc_pipes \<Rightarrow> (os, bool) prog" where
  "ipc_send_ack me pipes = write_ulong me (p_write pipes) (ucast IPC_COMMAND_ACK)"

definition ipc_send_health_probe :: "pid \<Rightarrow> ipc_pipes \<Rightarrow> (os, bool) prog" where
  "ipc_send_health_probe me pipes =
     write_ulong me (p_write pipes) (ucast IPC_COMMAND_HEALTH_PROBE)"

definition ipc_send_ulong :: "pid \<Rightarrow> ipc_pipes \<Rightarrow> u64 \<Rightarrow> (os, bool) prog" where
  "ipc_send_ulong me pipes value =
     (if value > R_IPC_VALUE_UINT_MAX then ret False
      else write_ulong me (p_write pipes) (R_IPC_VALUE_UINT_FLAG OR value))"

definition ipc_send_command :: "pid \<Rightarrow> ipc_pipes \<Rightarrow> u32 \<Rightarrow> (os, bool) prog" where
  "ipc_send_command me pipes command =
     (if p_read pipes < 0 \<and> p_write pipes < 0 then ret False
      else write_ulong me (p_write pipes) (ucast command))"

text \<open>The result is paired with the new value of the caller's \<open>panic\<close> flag.\<close>

definition ipc_send_panic :: "pid \<Rightarrow> ipc_pipes \<Rightarrow> (os, bool \<times> bool) prog" where
  "ipc_send_panic me pipes =
     bnd (ipc_send_command me pipes IPC_COMMAND_PANIC) (\<lambda>r. ret (r, True))"

section \<open>Receiving\<close>

text \<open>
  \<open>read(fd, &msg, sizeof msg) < 0\<close> is the only failure the receivers test. A shorter read,
  or end of file, leaves the rest of \<open>msg\<close> as it was: uninitialised.
\<close>

definition read_ulong :: "pid \<Rightarrow> fd \<Rightarrow> u64 \<Rightarrow> (os, u64 option) prog" where
  "read_ulong me f junk =
     bnd (sys_read me f 8) (\<lambda>(r, bs).
       if r < 0 then ret None
       else ret (Some (word_of_bytes (bs @ drop (length bs) (bytes_of_word junk)))))"

definition ipc_get_ulong :: "pid \<Rightarrow> ipc_pipes \<Rightarrow> u64 \<Rightarrow> (os, u64) prog" where
  "ipc_get_ulong me pipes junk =
     bnd (read_ulong me (p_read pipes) junk) (\<lambda>m. case m of
       None \<Rightarrow> ret R_IPC_VALUE_UINT_FLAG
     | Some msg \<Rightarrow>
         if \<not> ipc_is_ulong msg then ret R_IPC_VALUE_UINT_FLAG
         else ret (msg AND ucast (NOT (ucast R_IPC_VALUE_UINT_FLAG :: u32))))"

text \<open>
  The result is the returned \<open>int\<close> (\<open>true\<close> = 1, \<open>false\<close> = 0, or \<open>IPC_TIMEOUT_ERR\<close>) and the value
  of \<open>*command\<close> afterwards, which only a success changes. \<open>timeout_secs\<close> bounds the time
  \<open>select\<close> waits; the state the model is given is the one in which \<open>select\<close> returns, so the
  bound itself has no further effect.
\<close>

definition ipc_get_command ::
  "pid \<Rightarrow> ipc_pipes \<Rightarrow> u32 \<Rightarrow> int \<Rightarrow> u64 \<Rightarrow> (os, int \<times> u32) prog" where
  "ipc_get_command me pipes command timeout_secs junk =
     bnd (sys_select me (p_read pipes)) (\<lambda>r.
       if r = -1 then ret (0, command)
       else if r = 0 then ret (IPC_TIMEOUT_ERR, command)
       else bnd (read_ulong me (p_read pipes) junk) (\<lambda>m. case m of
              None \<Rightarrow> ret (0, command)
            | Some msg \<Rightarrow>
                if \<not> ipc_is_command msg then ret (0, command)
                else ret (1, ucast msg)))"

definition get_matching :: "(u64 \<Rightarrow> bool) \<Rightarrow> pid \<Rightarrow> fd \<Rightarrow> u64 \<Rightarrow> (os, bool) prog" where
  "get_matching is_msg me f junk =
     bnd (read_ulong me f junk) (\<lambda>m. case m of None \<Rightarrow> ret False | Some msg \<Rightarrow> ret (is_msg msg))"

definition ipc_get_ack :: "pid \<Rightarrow> ipc_pipes \<Rightarrow> u64 \<Rightarrow> (os, bool) prog" where
  "ipc_get_ack me pipes = get_matching ipc_is_ack me (p_read pipes)"

definition ipc_get_health_probe :: "pid \<Rightarrow> ipc_pipes \<Rightarrow> u64 \<Rightarrow> (os, bool) prog" where
  "ipc_get_health_probe me pipes = get_matching ipc_is_health_probe me (p_read pipes)"

definition ipc_get_no :: "pid \<Rightarrow> ipc_pipes \<Rightarrow> u64 \<Rightarrow> (os, bool) prog" where
  "ipc_get_no me pipes = get_matching ipc_is_no me (p_read pipes)"

definition ipc_get_yes :: "pid \<Rightarrow> ipc_pipes \<Rightarrow> u64 \<Rightarrow> (os, bool) prog" where
  "ipc_get_yes me pipes = get_matching ipc_is_yes me (p_read pipes)"

end
