(* ===== verification/RM_Channel.thy ===== *)
theory RM_Channel
  imports RM_IPC
begin

text \<open>
  The contract between the pipes and the code that talks over them: a bounded first-in
  first-out queue of messages. The locale states the contract and proves once that a whole
  sequence of messages arrives unchanged and in order; one interpretation shows that
  \<open>write_ulong\<close> and \<open>read_ulong\<close> over one pipe keep it, another (in \<open>RM_Protocol\<close>) that
  \<open>ipc_send_command\<close> and \<open>ipc_get_command\<close> do.
\<close>

section \<open>The interface\<close>

fun send_all :: "('m \<Rightarrow> 's \<Rightarrow> 's option) \<Rightarrow> 'm list \<Rightarrow> 's \<Rightarrow> 's option" where
  "send_all send [] s = Some s"
| "send_all send (m # ms) s = (case send m s of None \<Rightarrow> None | Some s' \<Rightarrow> send_all send ms s')"

fun recv_n :: "('s \<Rightarrow> ('m \<times> 's) option) \<Rightarrow> nat \<Rightarrow> 's \<Rightarrow> ('m list \<times> 's) option" where
  "recv_n recv 0 s = Some ([], s)"
| "recv_n recv (Suc n) s =
     (case recv s of None \<Rightarrow> None
      | Some (m, s') \<Rightarrow> map_option (\<lambda>(ms, t). (m # ms, t)) (recv_n recv n s'))"

locale channel =
  fixes fit :: "'m \<Rightarrow> bool"
    and send :: "'m \<Rightarrow> 's \<Rightarrow> 's option"
    and recv :: "'s \<Rightarrow> ('m \<times> 's) option"
    and msgs :: "'s \<Rightarrow> 'm list"
    and ok :: "'s \<Rightarrow> bool"
    and capacity :: nat
  assumes send_ok: "ok s \<Longrightarrow> fit m \<Longrightarrow> length (msgs s) < capacity \<Longrightarrow>
      \<exists>s'. send m s = Some s' \<and> ok s' \<and> msgs s' = msgs s @ [m]"
    and recv_ok: "ok s \<Longrightarrow> msgs s = m # ms \<Longrightarrow> \<exists>s'. recv s = Some (m, s') \<and> ok s' \<and> msgs s' = ms"
    and recv_none: "ok s \<Longrightarrow> msgs s = [] \<Longrightarrow> recv s = None"
begin

lemma send_all_ok:
  "ok s \<Longrightarrow> list_all fit ms \<Longrightarrow> length (msgs s) + length ms \<le> capacity \<Longrightarrow>
   \<exists>s'. send_all send ms s = Some s' \<and> ok s' \<and> msgs s' = msgs s @ ms"
proof (induction ms arbitrary: s)
  case Nil
  then show ?case by simp
next
  case (Cons m ms)
  then obtain t where t: "send m s = Some t" "ok t" "msgs t = msgs s @ [m]"
    using send_ok [of s m] by auto
  with Cons.prems Cons.IH [of t] show ?case by auto
qed

lemma recv_n_ok:
  "ok s \<Longrightarrow> msgs s = ms @ rest \<Longrightarrow>
   \<exists>s'. recv_n recv (length ms) s = Some (ms, s') \<and> ok s' \<and> msgs s' = rest"
proof (induction ms arbitrary: s)
  case Nil
  then show ?case by simp
next
  case (Cons m ms)
  then obtain t where t: "recv s = Some (m, t)" "ok t" "msgs t = ms @ rest"
    using recv_ok [of s m "ms @ rest"] by auto
  with Cons.IH [of t] show ?case by auto
qed

lemma fifo:
  assumes "ok s" "msgs s = []" "list_all fit ms" "length ms \<le> capacity"
  shows "\<exists>s' s''. send_all send ms s = Some s' \<and> recv_n recv (length ms) s' = Some (ms, s'')
     \<and> ok s'' \<and> recv s'' = None"
proof -
  from assms obtain s' where s': "send_all send ms s = Some s'" "ok s'" "msgs s' = ms"
    using send_all_ok [of s ms] by auto
  then obtain s'' where "recv_n recv (length ms) s' = Some (ms, s'')" "ok s''" "msgs s'' = []"
    using recv_n_ok [of s' ms "[]"] by auto
  with s' recv_none show ?thesis by auto
qed

end

section \<open>One pipe as such a queue\<close>

definition pipe_send :: "pid \<Rightarrow> fd \<Rightarrow> u64 \<Rightarrow> os \<Rightarrow> os option" where
  "pipe_send a fa m s = (case write_ulong a fa m s of (Inr True, s') \<Rightarrow> Some s' | _ \<Rightarrow> None)"

definition pipe_recv :: "pid \<Rightarrow> fd \<Rightarrow> u64 \<Rightarrow> os \<Rightarrow> (u64 \<times> os) option" where
  "pipe_recv b fb junk s =
     (case read_ulong b fb junk s of (Inr (Some m), s') \<Rightarrow> Some (m, s') | _ \<Rightarrow> None)"

fun words_of :: "byte list \<Rightarrow> u64 list" where
  "words_of [] = []"
| "words_of (b # bs) = word_of_bytes (take 8 (b # bs)) # words_of (drop 7 bs)"

definition pipe_msgs :: "nat \<Rightarrow> os \<Rightarrow> u64 list" where
  "pipe_msgs p s = words_of (bufs s p)"

definition pipe_ok :: "pid \<Rightarrow> fd \<Rightarrow> pid \<Rightarrow> fd \<Rightarrow> nat \<Rightarrow> os \<Rightarrow> bool" where
  "pipe_ok a fa b fb p s \<longleftrightarrow> link s a fa b fb p \<and> (\<exists>ms. bufs s p = concat (map bytes_of_word ms))"

lemma words_of_append:
  "length bs = 8 \<Longrightarrow> words_of (bs @ rest) = word_of_bytes bs # words_of rest"
  by (cases bs) auto

lemma words_of_concat [simp]: "words_of (concat (map bytes_of_word ms)) = ms"
  by (induction ms) (auto simp: words_of_append)

lemma length_concat_bytes [simp]: "length (concat (map bytes_of_word ms)) = 8 * length ms"
  by (induction ms) auto

lemma write_ulong_link:
  assumes "link s a fa b fb p" "length (bufs s p) + 8 \<le> pipe_capacity"
  shows "write_ulong a fa m s = (Inr True, s\<lparr>bufs := (bufs s)(p := bufs s p @ bytes_of_word m)\<rparr>)"
  using assms by (simp add: write_ulong_def prog_simps sys_write_link)

lemma read_ulong_link:
  assumes "link s a fa b fb p" "bufs s p = bytes_of_word m @ rest"
  shows "read_ulong b fb junk s = (Inr (Some m), s\<lparr>bufs := (bufs s)(p := rest)\<rparr>)"
  using sys_read_link [OF assms] by (simp add: read_ulong_def bnd_ok ret_def)

lemma read_ulong_link_empty:
  assumes "link s a fa b fb p" "bufs s p = []"
  shows "read_ulong b fb junk s = (Inl Blocked, s)"
  using sys_read_link_empty [OF assms] by (simp add: read_ulong_def bnd_halt)

interpretation pipe_chan: channel "\<lambda>_. True" "pipe_send a fa" "pipe_recv b fb junk" "pipe_msgs p"
    "pipe_ok a fa b fb p" 8192
  for a fa b fb junk p
proof
  fix s m assume ok: "pipe_ok a fa b fb p s" and room: "length (pipe_msgs p s) < 8192"
  then obtain ms where ms: "bufs s p = concat (map bytes_of_word ms)" and l: "link s a fa b fb p"
    by (auto simp: pipe_ok_def)
  with room have w: "write_ulong a fa m s =
      (Inr True, s\<lparr>bufs := (bufs s)(p := concat (map bytes_of_word (ms @ [m])))\<rparr>)"
    by (subst write_ulong_link [OF l]) (auto simp: pipe_capacity_def pipe_msgs_def)
  show "\<exists>s'. pipe_send a fa m s = Some s' \<and> pipe_ok a fa b fb p s' \<and>
      pipe_msgs p s' = pipe_msgs p s @ [m]"
    unfolding pipe_send_def w pipe_msgs_def pipe_ok_def using l ms
    by (auto simp del: map_append concat_append)
next
  fix s m ms assume ok: "pipe_ok a fa b fb p s" and m: "pipe_msgs p s = m # ms"
  then obtain ms' where ms': "bufs s p = concat (map bytes_of_word ms')" and l: "link s a fa b fb p"
    by (auto simp: pipe_ok_def)
  with m have "ms' = m # ms" by (simp add: pipe_msgs_def)
  with ms' have buf: "bufs s p = bytes_of_word m @ concat (map bytes_of_word ms)" by simp
  show "\<exists>s'. pipe_recv b fb junk s = Some (m, s') \<and> pipe_ok a fa b fb p s' \<and> pipe_msgs p s' = ms"
    using l by (auto simp: pipe_recv_def read_ulong_link [OF l buf] pipe_ok_def pipe_msgs_def)
next
  fix s assume ok: "pipe_ok a fa b fb p s" and m: "pipe_msgs p s = []"
  then have l: "link s a fa b fb p" and "bufs s p = []" by (auto simp: pipe_ok_def pipe_msgs_def)
  then show "pipe_recv b fb junk s = None"
    by (simp add: pipe_recv_def read_ulong_link_empty)
qed

end
