(* ===== verification/RM_Protocol.thy ===== *)
theory RM_Protocol
  imports RM_Channel
begin

unbundle bit_operations_syntax

text \<open>
  What the two ends of a pair of pipes say to each other: messages over a healthy link
  (\<open>src/libs/reportman.c\<close>), the acknowledgement handshake (\<open>acknowledge_daemon\<close>,
  \<open>acknowledge_client\<close>) and the timer report (\<open>__report_to_daemon\<close> of \<open>reportman_fm.c\<close>,
  \<open>__reportman_fm_get_timers\<close> of \<open>reportmand.c\<close>), first as the functions of each side and
  then as the interleaving of the two processes while a child starts.
\<close>

section \<open>Mask tests\<close>

lemma and_or_test: "((x :: u64) AND (a OR b) = a OR b) = (x AND a = a \<and> x AND b = b)"
  by (auto simp: bit_eq_iff bit_and_iff bit_or_iff)

lemma and_exp_test: "n < 64 \<Longrightarrow> ((x :: u64) AND 2 ^ n = 2 ^ n) = bit x n"
  by (auto simp: bit_eq_iff [of "x AND 2 ^ n" "2 ^ n"] bit_and_iff bit_exp_iff)

lemma cmd_mask1: "((x :: u64) AND 0xFF000001 = 0xFF000001) = (x AND 0xFF000000 = 0xFF000000 \<and> bit x 0)"
  using and_or_test [of x "0xFF000000" "2 ^ 0"] and_exp_test [of 0 x] by simp

lemma cmd_mask2: "((x :: u64) AND 0xFF000002 = 0xFF000002) = (x AND 0xFF000000 = 0xFF000000 \<and> bit x 1)"
  using and_or_test [of x "0xFF000000" "2 ^ 1"] and_exp_test [of 1 x] by simp

lemma cmd_mask3:
  "((x :: u64) AND 0xFF000003 = 0xFF000003) = (x AND 0xFF000000 = 0xFF000000 \<and> bit x 0 \<and> bit x 1)"
  using and_or_test [of x "0xFF000001" "2 ^ 1"] and_exp_test [of 1 x] cmd_mask1 [of x] by simp

lemma ipc_is_ack_iff: "ipc_is_ack msg = (ipc_is_command msg \<and> bit msg 1)"
  by (simp add: ipc_is_defs ipc_flags ipc_commands cmd_mask2)

lemma ipc_is_yes_iff: "ipc_is_yes msg = (ipc_is_command msg \<and> bit msg 0)"
  by (simp add: ipc_is_defs ipc_flags ipc_commands cmd_mask1)

lemma ipc_is_health_probe_iff:
  "ipc_is_health_probe msg = (ipc_is_command msg \<and> bit msg 0 \<and> bit msg 1)"
  by (simp add: ipc_is_defs ipc_flags ipc_commands cmd_mask3)

lemma ipc_is_no_iff: "ipc_is_no msg = ipc_is_command msg"
  by (simp add: ipc_is_defs ipc_flags ipc_commands)

lemmas ipc_test_iffs = ipc_is_ack_iff ipc_is_yes_iff ipc_is_health_probe_iff ipc_is_no_iff

definition five_commands :: "u32 list" where
  "five_commands = [IPC_COMMAND_NO, IPC_COMMAND_YES, IPC_COMMAND_ACK,
     IPC_COMMAND_HEALTH_PROBE, IPC_COMMAND_PANIC]"

lemma five_commands_tests:
  "map (\<lambda>c. ipc_is_ack (ucast c)) five_commands = [False, False, True, True, False]"
  "map (\<lambda>c. ipc_is_health_probe (ucast c)) five_commands = [False, False, False, True, False]"
  "map (\<lambda>c. ipc_is_no (ucast c)) five_commands = [True, True, True, True, True]"
  "map (\<lambda>c. ipc_is_command (ucast c)) five_commands = [True, True, True, True, True]"
  by (simp_all add: five_commands_def ipc_is_defs ipc_flags ipc_commands)

section \<open>Values over a link\<close>

lemma ulong_flag_test: "ipc_is_ulong (R_IPC_VALUE_UINT_FLAG OR v)"
  by (auto simp: ipc_is_ulong_def bit_eq_iff bit_and_iff bit_or_iff)

lemma ulong_low_mask: "(ucast (NOT (ucast R_IPC_VALUE_UINT_FLAG :: u32)) :: u64) = 0x0FFFFFFF"
  by (simp add: ipc_flags)

lemma ulong_strip: "(R_IPC_VALUE_UINT_FLAG OR v) AND 0x0FFFFFFF = v AND (0x0FFFFFFF :: u64)"
  by (simp add: ipc_flags word_ao_dist)

lemma and_low_mask:
  assumes "v \<le> (0x0FFFFFFF :: u64)"
  shows "v AND 0x0FFFFFFF = v"
proof -
  have "v < 2 ^ 28" by (rule le_less_trans [OF assms]) simp
  then have "v AND mask 28 = v" by (rule less_mask_eq)
  then show ?thesis by (simp add: mask_eq_exp_minus_1)
qed

lemma ucast_up_down [simp]: "(ucast (ucast (c :: u32) :: u64) :: u32) = c"
  by (rule bit_word_eqI) (simp add: bit_ucast_iff)

lemma low_mask_le: "v AND (0x0FFFFFFF :: u64) \<le> 0x0FFFFFFF"
  by (rule word_and_le1)

lemma ipc_send_ulong_link:
  assumes "link s a (p_write pa) b fb p" "length (bufs s p) + 8 \<le> pipe_capacity"
    "v \<le> R_IPC_VALUE_UINT_MAX"
  shows "ipc_send_ulong a pa v s = (Inr True,
     s\<lparr>bufs := (bufs s)(p := bufs s p @ bytes_of_word (R_IPC_VALUE_UINT_FLAG OR v))\<rparr>)"
  using assms by (simp add: ipc_send_ulong_def write_ulong_link leD)

lemma small_is_sendable: "v \<le> 0x0FFFFFFF \<Longrightarrow> v \<le> R_IPC_VALUE_UINT_MAX"
  by (rule order_trans, assumption) (simp add: ipc_flags)

lemma ipc_get_ulong_link:
  assumes "link s a fa b (p_read pb) p" "bufs s p = bytes_of_word (R_IPC_VALUE_UINT_FLAG OR v) @ rest"
  shows "ipc_get_ulong b pb junk s = (Inr (v AND 0x0FFFFFFF), s\<lparr>bufs := (bufs s)(p := rest)\<rparr>)"
  using assms
  by (simp add: ipc_get_ulong_def bnd_ok [OF read_ulong_link] ulong_flag_test ulong_low_mask
      ulong_strip ret_run)

lemma read_command_word:
  assumes "link s a fa b (p_read pb) p" "bufs s p = bytes_of_word m @ rest" "ipc_is_command m"
  shows "ipc_get_command b pb old t junk s = (Inr (1, ucast m), s\<lparr>bufs := (bufs s)(p := rest)\<rparr>)"
  using assms
  by (simp add: ipc_get_command_def bnd_ok [OF sys_select_link] bnd_ok [OF read_ulong_link] ret_run)

lemma write_read_command:
  assumes "link s a fa b (p_read pb) p" "bufs s p = bytes_of_word (ucast c) @ rest"
    "ipc_is_command (ucast c)"
  shows "ipc_get_command b pb old t junk s = (Inr (1, c), s\<lparr>bufs := (bufs s)(p := rest)\<rparr>)"
  using read_command_word [OF assms] by simp

section \<open>The functions of the two sides\<close>

text \<open>
  The child's side of the handshake: \<open>acknowledge_daemon\<close>; \<open>world\<close> is what the other processes
  do while the child waits for the answer.
\<close>

definition acknowledge_daemon :: "(os \<Rightarrow> os) \<Rightarrow> pid \<Rightarrow> ipc_pipes \<Rightarrow> u64 \<Rightarrow> (os, int) prog" where
  "acknowledge_daemon world me pipes junk =
     bnd (ipc_send_ack me pipes) (\<lambda>sent.
       if \<not> sent then ret D_FAILURE
       else bnd (modify world) (\<lambda>_.
         bnd (ipc_get_ack me pipes junk) (\<lambda>got.
           if \<not> got then ret D_FAILURE else ret D_SUCCESS)))"

text \<open>
  The daemon's side: \<open>acknowledge_client\<close> waits up to ten seconds for the child, and exits
  when nothing comes, when what comes is no acknowledgement or when the reply fails.
\<close>

definition acknowledge_client :: "pid \<Rightarrow> ipc_pipes \<Rightarrow> u64 \<Rightarrow> (os, int) prog" where
  "acknowledge_client me pipes junk =
     bnd (sys_select me (p_read pipes)) (\<lambda>read_fm.
       if read_fm = D_FAILURE then stop (Exit EXIT_FAILURE)
       else if read_fm = 0 then stop (Exit EXIT_FAILURE)
       else bnd (ipc_get_ack me pipes junk) (\<lambda>got.
         if \<not> got then stop (Exit EXIT_FAILURE)
         else bnd (ipc_send_ack me pipes) (\<lambda>sent.
           if \<not> sent then stop (Exit EXIT_FAILURE) else ret D_SUCCESS)))"

text \<open>The file manager's report of its two timers; the daemon's reading of it.\<close>

definition report_to_daemon :: "pid \<Rightarrow> ipc_pipes \<Rightarrow> u64 \<Rightarrow> u64 \<Rightarrow> (os, int) prog" where
  "report_to_daemon me pipes backup_timer transfer_timer =
     bnd (ipc_send_ulong me pipes backup_timer) (\<lambda>sent.
       if \<not> sent then ret D_FAILURE
       else bnd (ipc_send_ulong me pipes transfer_timer) (\<lambda>sent'.
         if \<not> sent' then ret D_FAILURE else ret D_SUCCESS))"

text \<open>
  One value of the report, exiting on the sentinel \<open>ipc_get_ulong\<close> returns on failure, and
  the whole reading: the result is the pair stored in \<open>__backup_timer\<close>, \<open>__transfer_timer\<close>.
\<close>

definition get_timer :: "pid \<Rightarrow> ipc_pipes \<Rightarrow> u64 \<Rightarrow> (os, u64) prog" where
  "get_timer me pipes junk =
     bnd (ipc_get_ulong me pipes junk) (\<lambda>temp_timer.
       if temp_timer \<noteq> R_IPC_VALUE_UINT_FLAG then ret temp_timer else stop (Exit EXIT_FAILURE))"

definition reportman_fm_get_timers :: "pid \<Rightarrow> ipc_pipes \<Rightarrow> u64 \<Rightarrow> (os, u64 \<times> u64) prog" where
  "reportman_fm_get_timers me pipes junk =
     bnd (sys_select me (p_read pipes)) (\<lambda>read_fm.
       if read_fm = D_FAILURE then stop (Exit EXIT_FAILURE)
       else if read_fm = 0 then stop (Exit EXIT_FAILURE)
       else bnd (get_timer me pipes junk) (\<lambda>backup_timer.
         bnd (get_timer me pipes junk) (\<lambda>transfer_timer. ret (backup_timer, transfer_timer))))"

section \<open>Runs of these functions over a link\<close>

lemma ack_is_ack [simp]: "ipc_is_ack (ucast IPC_COMMAND_ACK)"
  by (simp add: ipc_is_defs ipc_commands)

lemma ipc_send_ack_link:
  assumes "link s a (p_write pa) b fb p" "length (bufs s p) + 8 \<le> pipe_capacity"
  shows "ipc_send_ack a pa s =
    (Inr True, s\<lparr>bufs := (bufs s)(p := bufs s p @ bytes_of_word (ucast IPC_COMMAND_ACK))\<rparr>)"
  using assms by (simp add: ipc_send_ack_def write_ulong_link)

lemma ipc_get_ack_link:
  assumes "link s a fa b (p_read pb) p" "bufs s p = bytes_of_word m @ rest"
  shows "ipc_get_ack b pb junk s = (Inr (ipc_is_ack m), s\<lparr>bufs := (bufs s)(p := rest)\<rparr>)"
  using assms by (simp add: ipc_get_ack_def get_matching_def bnd_ok [OF read_ulong_link] ret_run)

lemma ipc_get_ack_link_empty:
  assumes "link s a fa b (p_read pb) p" "bufs s p = []"
  shows "ipc_get_ack b pb junk s = (Inl Blocked, s)"
  using assms by (simp add: ipc_get_ack_def get_matching_def bnd_halt [OF read_ulong_link_empty])

lemma sentinel_not_masked: "v AND 0x0FFFFFFF \<noteq> R_IPC_VALUE_UINT_FLAG"
proof
  assume "v AND 0x0FFFFFFF = R_IPC_VALUE_UINT_FLAG"
  then show False using low_mask_le [of v] by (simp add: ipc_flags)
qed

lemma get_timer_link:
  assumes "link s a fa b (p_read pb) p" "bufs s p = bytes_of_word (R_IPC_VALUE_UINT_FLAG OR v) @ rest"
  shows "get_timer b pb junk s = (Inr (v AND 0x0FFFFFFF), s\<lparr>bufs := (bufs s)(p := rest)\<rparr>)"
  using assms
  by (simp add: get_timer_def bnd_ok [OF ipc_get_ulong_link] sentinel_not_masked ret_run)

section \<open>Properties\<close>

text \<open>C26: A value sent with \<open>ipc_send_ulong\<close> over a healthy, empty pipe is received by
  \<open>ipc_get_ulong\<close> as it was sent when it is at most 0x0FFFFFFF, whatever the receiver's
  uninitialised variable held; the pipe is empty again.\<close>

theorem ipc_ulong_roundtrip:
  assumes "link s a (p_write pa) b (p_read pb) p" "bufs s p = []" "v \<le> 0x0FFFFFFF"
  shows "\<exists>s'. ipc_send_ulong a pa v s = (Inr True, s') \<and> ipc_get_ulong b pb junk s' = (Inr v, s)"
proof -
  let ?s = "s\<lparr>bufs := (bufs s)(p := bytes_of_word (R_IPC_VALUE_UINT_FLAG OR v))\<rparr>"
  from assms(3) have "v \<le> R_IPC_VALUE_UINT_MAX"
    by (rule order_trans) (simp add: ipc_flags)
  then have "ipc_send_ulong a pa v s = (Inr True, ?s)"
    using ipc_send_ulong_link [OF assms(1)] assms(2) by (simp add: pipe_capacity_def)
  moreover have "ipc_get_ulong b pb junk ?s = (Inr (v AND 0x0FFFFFFF), s)"
    using ipc_get_ulong_link [of ?s a "p_write pa" b pb p v "[]"] assms by (simp add: fun_upd_idem)
  ultimately show ?thesis using and_low_mask [OF assms(3)] by auto
qed

text \<open>Witness: process 2 sends 5 to process 1 over one pipe.\<close>

definition demo_os :: os where
  "demo_os = \<lparr>procs = [(1, \<lparr>fdtab = [(3, PipeR 0), (4, PipeW 1)], sigpipe = SigHandler,
                          sigpipe_hits = 0, pending = Some []\<rparr>),
                     (2, \<lparr>fdtab = [(3, PipeW 0), (4, PipeR 1)], sigpipe = SigDfl,
                          sigpipe_hits = 0, pending = Some []\<rparr>)],
             zombies = [], autoreap = True, bufs = (\<lambda>_. []), faulty = (\<lambda>_. False),
             npipe = 2, npid = 3\<rparr>"

definition demo_daemon :: ipc_pipes where "demo_daemon = \<lparr>p_write = 4, p_read = 3\<rparr>"
definition demo_child :: ipc_pipes where "demo_child = \<lparr>p_write = 3, p_read = 4\<rparr>"

lemma demo_links:
  "link demo_os 2 (p_write demo_child) 1 (p_read demo_daemon) 0"
  "link demo_os 1 (p_write demo_daemon) 2 (p_read demo_child) 1"
  by (simp_all add: link_def fd_obj_def fds_of_def demo_os_def demo_child_def demo_daemon_def)

lemma demo_bufs [simp]: "bufs demo_os p = []"
  by (simp add: demo_os_def)

theorem ipc_ulong_roundtrip_witness:
  "\<exists>s'. ipc_send_ulong 2 demo_child 5 demo_os = (Inr True, s') \<and>
        ipc_get_ulong 1 demo_daemon 0 s' = (Inr 5, demo_os)"
  by (rule ipc_ulong_roundtrip [OF demo_links(1)]) simp_all

text \<open>\<open>ipc_send_ulong\<close> accepts every value up to 0xEFFFFFFF, but flag and value share the
  top four bits: what arrives is the value's low 28 bits, so a value above 0x0FFFFFFF is
  changed on the way. A larger value than 0xEFFFFFFF is refused and nothing is written.\<close>

lemma ipc_ulong_low_bits:
  assumes "link s a (p_write pa) b (p_read pb) p" "bufs s p = []"
  shows "if v \<le> R_IPC_VALUE_UINT_MAX
    then \<exists>s'. ipc_send_ulong a pa v s = (Inr True, s') \<and>
           ipc_get_ulong b pb junk s' = (Inr (v AND 0x0FFFFFFF), s)
    else ipc_send_ulong a pa v s = (Inr False, s)"
proof (cases "v \<le> R_IPC_VALUE_UINT_MAX")
  case True
  let ?s = "s\<lparr>bufs := (bufs s)(p := bytes_of_word (R_IPC_VALUE_UINT_FLAG OR v))\<rparr>"
  have "ipc_send_ulong a pa v s = (Inr True, ?s)"
    using ipc_send_ulong_link [OF assms(1)] assms(2) True by (simp add: pipe_capacity_def)
  moreover have "ipc_get_ulong b pb junk ?s = (Inr (v AND 0x0FFFFFFF), s)"
    using ipc_get_ulong_link [of ?s a "p_write pa" b pb p v "[]"] assms by (simp add: fun_upd_idem)
  ultimately show ?thesis using True by auto
next
  case False
  then show ?thesis by (simp add: ipc_send_ulong_def ret_run not_le)
qed

lemma ipc_ulong_low_bits_example:
  "\<exists>s'. ipc_send_ulong 2 demo_child 0x10000005 demo_os = (Inr True, s') \<and>
        ipc_get_ulong 1 demo_daemon 0 s' = (Inr 5, demo_os)"
  using ipc_ulong_low_bits [OF demo_links(1) demo_bufs, of "0x10000005" 0]
  by (simp add: R_IPC_VALUE_UINT_MAX_def)

text \<open>C25: Every command sent with \<open>ipc_send_command\<close> over a healthy, empty pipe is received
  by \<open>ipc_get_command\<close> as that command, and the pipe is empty again.\<close>

theorem ipc_command_roundtrip:
  assumes "link s a (p_write pa) b (p_read pb) p" "bufs s p = []" "c \<in> set five_commands"
    "0 \<le> p_write pa"
  shows "\<exists>s'. ipc_send_command a pa c s = (Inr True, s') \<and>
    ipc_get_command b pb old t junk s' = (Inr (1, c), s)"
proof -
  let ?s = "s\<lparr>bufs := (bufs s)(p := bytes_of_word (ucast c))\<rparr>"
  have c: "ipc_is_command (ucast c)"
    using assms(3) five_commands_tests(4) by (auto simp: five_commands_def)
  have "ipc_send_command a pa c s = (Inr True, ?s)"
    using write_ulong_link [OF assms(1)] assms(2,4) by (simp add: ipc_send_command_def pipe_capacity_def)
  moreover have "ipc_get_command b pb old t junk ?s = (Inr (1, c), s)"
    using write_read_command [of ?s a "p_write pa" b pb p c "[]"] assms c by (simp add: fun_upd_idem)
  ultimately show ?thesis by blast
qed

theorem ipc_command_roundtrip_witness:
  "\<exists>s'. ipc_send_command 1 demo_daemon IPC_COMMAND_PANIC demo_os = (Inr True, s') \<and>
        ipc_get_command 2 demo_child 0 5 0 s' = (Inr (1, IPC_COMMAND_PANIC), demo_os)"
  by (rule ipc_command_roundtrip [OF demo_links(2)])
    (simp_all add: five_commands_def demo_daemon_def)

text \<open>The commands of a pair of pipes as a channel.\<close>

definition command_send :: "pid \<Rightarrow> ipc_pipes \<Rightarrow> u32 \<Rightarrow> os \<Rightarrow> os option" where
  "command_send a pa c s = (case ipc_send_command a pa c s of (Inr True, s') \<Rightarrow> Some s' | _ \<Rightarrow> None)"

definition command_recv :: "pid \<Rightarrow> ipc_pipes \<Rightarrow> u32 \<Rightarrow> int \<Rightarrow> u64 \<Rightarrow> os \<Rightarrow> (u32 \<times> os) option" where
  "command_recv b pb old t junk s = (case ipc_get_command b pb old t junk s of
     (Inr (r, c), s') \<Rightarrow> if r = 1 then Some (c, s') else None | _ \<Rightarrow> None)"

definition is_command :: "u32 \<Rightarrow> bool" where
  "is_command c \<longleftrightarrow> ipc_is_command (ucast c)"

definition commands_of :: "nat \<Rightarrow> os \<Rightarrow> u32 list" where
  "commands_of p s = map ucast (pipe_msgs p s)"

definition commands_ok :: "pid \<Rightarrow> ipc_pipes \<Rightarrow> pid \<Rightarrow> ipc_pipes \<Rightarrow> nat \<Rightarrow> os \<Rightarrow> bool" where
  "commands_ok a pa b pb p s \<longleftrightarrow> link s a (p_write pa) b (p_read pb) p \<and> 0 \<le> p_write pa \<and>
     (\<exists>cs. list_all is_command cs \<and> bufs s p = concat (map bytes_of_word (map ucast cs)))"

lemma commands_okE:
  assumes "commands_ok a pa b pb p s"
  obtains cs where "link s a (p_write pa) b (p_read pb) p" "0 \<le> p_write pa" "list_all is_command cs"
    "bufs s p = concat (map bytes_of_word (map ucast cs))" "commands_of p s = cs"
proof -
  from assms obtain cs where c: "link s a (p_write pa) b (p_read pb) p" "0 \<le> p_write pa"
    "list_all is_command cs" "bufs s p = concat (map bytes_of_word (map ucast cs))"
    by (auto simp: commands_ok_def)
  moreover have "commands_of p s = cs"
    unfolding commands_of_def pipe_msgs_def c(4) words_of_concat by (simp add: comp_def)
  ultimately show ?thesis by (rule that)
qed

lemma commands_okI:
  assumes "link s a (p_write pa) b (p_read pb) p" "0 \<le> p_write pa" "list_all is_command cs"
    "bufs s p = concat (map bytes_of_word (map ucast cs))"
  shows "commands_ok a pa b pb p s \<and> commands_of p s = cs"
proof -
  have "commands_ok a pa b pb p s" using assms by (auto simp: commands_ok_def)
  moreover have "commands_of p s = cs"
    unfolding commands_of_def pipe_msgs_def assms(4) words_of_concat by (simp add: comp_def)
  ultimately show ?thesis ..
qed

interpretation command_chan: channel is_command "command_send a pa" "command_recv b pb old t junk"
    "commands_of p" "commands_ok a pa b pb p" 8192
  for a pa b pb old t junk p
proof
  fix s c assume ok: "commands_ok a pa b pb p s" and c: "is_command c"
    and room: "length (commands_of p s) < 8192"
  from ok obtain cs where l: "link s a (p_write pa) b (p_read pb) p" "0 \<le> p_write pa"
    and cs: "list_all is_command cs" "bufs s p = concat (map bytes_of_word (map ucast cs))"
      "commands_of p s = cs" by (rule commands_okE)
  let ?s = "s\<lparr>bufs := (bufs s)(p := concat (map bytes_of_word (map ucast (cs @ [c]))))\<rparr>"
  have "length (bufs s p) = 8 * length cs" unfolding cs(2) length_concat_bytes by simp
  then have "ipc_send_command a pa c s = (Inr True, ?s)"
    using write_ulong_link [OF l(1), of "ucast c"] l(2) room cs(2,3)
    by (simp add: ipc_send_command_def pipe_capacity_def)
  moreover have "commands_ok a pa b pb p ?s \<and> commands_of p ?s = cs @ [c]"
    by (rule commands_okI) (use l cs(1) c in simp_all)
  ultimately show "\<exists>s'. command_send a pa c s = Some s' \<and> commands_ok a pa b pb p s' \<and>
      commands_of p s' = commands_of p s @ [c]"
    using cs(3) by (auto simp: command_send_def simp del: map_append)
next
  fix s c rest assume ok: "commands_ok a pa b pb p s" and m: "commands_of p s = c # rest"
  from ok obtain cs where l: "link s a (p_write pa) b (p_read pb) p" "0 \<le> p_write pa"
    and cs: "list_all is_command cs" "bufs s p = concat (map bytes_of_word (map ucast cs))"
      "commands_of p s = cs" by (rule commands_okE)
  with m have cr: "cs = c # rest" by simp
  let ?s = "s\<lparr>bufs := (bufs s)(p := concat (map bytes_of_word (map ucast rest)))\<rparr>"
  have "ipc_get_command b pb old t junk s = (Inr (1, c), ?s)"
    using write_read_command [OF l(1), of c "concat (map bytes_of_word (map ucast rest))"] cs cr
    by (simp add: is_command_def)
  moreover have "commands_ok a pa b pb p ?s \<and> commands_of p ?s = rest"
    by (rule commands_okI) (use l cs(1) cr in simp_all)
  ultimately show "\<exists>s'. command_recv b pb old t junk s = Some (c, s') \<and>
      commands_ok a pa b pb p s' \<and> commands_of p s' = rest"
    by (auto simp: command_recv_def)
next
  fix s assume ok: "commands_ok a pa b pb p s" and m: "commands_of p s = []"
  from ok obtain cs where l: "link s a (p_write pa) b (p_read pb) p"
    and "bufs s p = concat (map bytes_of_word (map ucast cs))" "commands_of p s = cs"
    by (rule commands_okE)
  with m have "bufs s p = []" by simp
  then show "command_recv b pb old t junk s = None"
    using l by (simp add: command_recv_def ipc_get_command_def bnd_ok [OF sys_select_link] ret_run
        IPC_TIMEOUT_ERR_def)
qed

text \<open>C27: Any sequence of at most 8192 of the program's commands, each sent with
  \<open>ipc_send_command\<close> over a healthy pipe that was empty, is received by as many calls of
  \<open>ipc_get_command\<close> unchanged, complete and in order; one call more times out and leaves the
  caller's variable alone.\<close>

theorem commands_in_order:
  assumes "link s a (p_write pa) b (p_read pb) p" "bufs s p = []" "0 \<le> p_write pa"
    "set cs \<subseteq> set five_commands" "length cs \<le> 8192"
  shows "\<exists>s' s''. send_all (command_send a pa) cs s = Some s' \<and>
    recv_n (command_recv b pb old t junk) (length cs) s' = Some (cs, s'') \<and>
    ipc_get_command b pb old t junk s'' = (Inr (IPC_TIMEOUT_ERR, old), s'')"
proof -
  have ok: "commands_ok a pa b pb p s \<and> commands_of p s = []"
    by (rule commands_okI) (use assms in simp_all)
  have fit: "list_all is_command cs"
    using assms(4) five_commands_tests(4) by (auto simp: list_all_iff is_command_def five_commands_def)
  obtain s' where s': "send_all (command_send a pa) cs s = Some s'" "commands_ok a pa b pb p s'"
      "commands_of p s' = cs"
    using command_chan.send_all_ok [of a pa b pb p s cs] ok fit assms(5) by auto
  then obtain s'' where s'': "recv_n (command_recv b pb old t junk) (length cs) s' = Some (cs, s'')"
      "commands_ok a pa b pb p s''" "commands_of p s'' = []"
    using command_chan.recv_n_ok [of a pa b pb p s' cs "[]" old t junk] by auto
  from s''(2,3) have "link s'' a (p_write pa) b (p_read pb) p" "bufs s'' p = []"
    by (auto elim!: commands_okE)
  then have "ipc_get_command b pb old t junk s'' = (Inr (IPC_TIMEOUT_ERR, old), s'')"
    by (simp add: ipc_get_command_def bnd_ok [OF sys_select_link] ret_run)
  with s' s'' show ?thesis by blast
qed

theorem commands_in_order_witness:
  "\<exists>s' s''. send_all (command_send 1 demo_daemon) [IPC_COMMAND_ACK, IPC_COMMAND_HEALTH_PROBE] demo_os = Some s' \<and>
     recv_n (command_recv 2 demo_child 0 5 0) 2 s' = Some ([IPC_COMMAND_ACK, IPC_COMMAND_HEALTH_PROBE], s'')"
proof -
  let ?cs = "[IPC_COMMAND_ACK, IPC_COMMAND_HEALTH_PROBE]"
  have "set ?cs \<subseteq> set five_commands" "length ?cs \<le> 8192" "0 \<le> p_write demo_daemon"
    by (simp_all add: five_commands_def demo_daemon_def)
  from commands_in_order [OF demo_links(2) demo_bufs this(3,1,2), of 0 5 0]
  show ?thesis by (simp del: send_all.simps recv_n.simps add: numeral_2_eq_2) blast
qed

text \<open>C28: The tests on a received word: it counts as an acknowledgement, a yes or a probe
  exactly when it carries the whole command flag and the low bits of that constant, and
  every command counts as a no. Of the five commands the program has, an acknowledgement
  is therefore also seen in a health probe, but never in a panic.\<close>

theorem ipc_command_tests:
  "ipc_is_ack msg = (ipc_is_command msg \<and> bit msg 1) \<and>
   ipc_is_yes msg = (ipc_is_command msg \<and> bit msg 0) \<and>
   ipc_is_health_probe msg = (ipc_is_command msg \<and> bit msg 0 \<and> bit msg 1) \<and>
   ipc_is_no msg = ipc_is_command msg \<and>
   filter (\<lambda>c. ipc_is_ack (ucast c)) five_commands = [IPC_COMMAND_ACK, IPC_COMMAND_HEALTH_PROBE]"
  using five_commands_tests(1) by (auto simp: ipc_test_iffs five_commands_def)

text \<open>At end of file (nothing buffered and no process left that could write) the receiver
  does not see a failure: \<open>read\<close> returns 0, the test for a negative result passes, and the
  answer is whatever the uninitialised variable held.\<close>

lemma ipc_get_command_eof:
  assumes "fd_obj s b (p_read pb) = Some (PipeR p)" "\<not> faulty s p" "bufs s p = []"
    "\<not> holds s (PipeW p)"
  shows "ipc_get_command b pb old t junk s =
    (Inr (if ipc_is_command junk then (1, ucast junk) else (0, old)), s)"
  using sys_read_eof [OF assms] sys_select_eof [OF assms]
  by (simp add: ipc_get_command_def read_ulong_def prog_simps)

lemma ipc_get_command_eof_example:
  "ipc_get_command 1 demo_daemon 0 5 0xFF000002 (demo_os\<lparr>procs := [hd (procs demo_os)]\<rparr>) =
     (Inr (1, 0xFF000002), demo_os\<lparr>procs := [hd (procs demo_os)]\<rparr>)"
  by (subst ipc_get_command_eof [where p = 0])
    (simp_all add: demo_os_def demo_daemon_def fd_obj_def fds_of_def holds_def ipc_is_command_def
      ipc_flags)

end
