(* ===== verification/RM_Startup.thy ===== *)
theory RM_Startup
  imports RM_Protocol
begin

unbundle bit_operations_syntax

text \<open>
  The daemon and the file manager starting together: \<open>__child_spawn\<close> followed by
  \<open>__reportman_fm_get_timers\<close> in \<open>reportmand.c\<close> against \<open>acknowledge_daemon\<close> followed by
  \<open>__report_to_daemon\<close> in \<open>reportman_fm.c\<close>. The functions of both sides are cut where they
  can wait for the other side, and the pieces interleave freely over one system state; the
  daemon's two timed waits may run out at any moment at which there is nothing to read. The
  lemmas show that no interleaving loses a message or leaves the daemon with other timers
  than the child's, and that the daemon gives up only on a time-out.
\<close>

section \<open>Where each process is\<close>

datatype cpc = CSendAck | CGetAck | CSendBackup | CSendTransfer | CServing | CKilled nat

datatype dpc = DWaitAck | DWaitTimers | DGetTransfer u64 | DServing u64 u64 | DExited int

record startup =
  su_os :: os
  su_child :: cpc
  su_daemon :: dpc

text \<open>
  The two processes, their ends of the pipes, and the timers the child was given by
  \<open>timer_create\<close>.
\<close>

record setting =
  daemon_pid :: pid
  child_pid :: pid
  d_pipes :: ipc_pipes
  c_pipes :: ipc_pipes
  t_backup :: u64
  t_transfer :: u64
  s_junk :: u64

text \<open>
  One step of the child. Its callers discard the results of \<open>acknowledge_daemon\<close> and
  \<open>__report_to_daemon\<close>, so a failure only skips what is left of that function.
\<close>

fun child_step :: "setting \<Rightarrow> cpc \<Rightarrow> (os, cpc) prog" where
  "child_step S CSendAck =
     bnd (ipc_send_ack (child_pid S) (c_pipes S)) (\<lambda>sent. ret (if sent then CGetAck else CSendBackup))"
| "child_step S CGetAck =
     bnd (ipc_get_ack (child_pid S) (c_pipes S) (s_junk S)) (\<lambda>_. ret CSendBackup)"
| "child_step S CSendBackup =
     bnd (ipc_send_ulong (child_pid S) (c_pipes S) (t_backup S))
       (\<lambda>sent. ret (if sent then CSendTransfer else CServing))"
| "child_step S CSendTransfer =
     bnd (ipc_send_ulong (child_pid S) (c_pipes S) (t_transfer S)) (\<lambda>_. ret CServing)"
| "child_step S CServing = stop Blocked"
| "child_step S (CKilled n) = stop Blocked"

text \<open>The first two steps are the function \<open>acknowledge_daemon\<close>, cut where it can wait.\<close>

lemma child_steps_acknowledge:
  "bnd (child_step S CSendAck) (\<lambda>pc. if pc = CGetAck
       then bnd (modify world) (\<lambda>_. child_step S CGetAck) else ret pc) =
   bnd (acknowledge_daemon world (child_pid S) (c_pipes S) (s_junk S)) (\<lambda>_. ret CSendBackup)"
  by (rule ext) (simp add: acknowledge_daemon_def prog_defs split: prod.splits sum.splits)

text \<open>
  One step of the daemon. Taken while there is nothing to read, it is a step in which
  \<open>select\<close> comes back after its ten seconds with 0, and the daemon exits.
\<close>

fun daemon_step :: "setting \<Rightarrow> dpc \<Rightarrow> (os, dpc) prog" where
  "daemon_step S DWaitAck =
     bnd (acknowledge_client (daemon_pid S) (d_pipes S) (s_junk S)) (\<lambda>_. ret DWaitTimers)"
| "daemon_step S DWaitTimers =
     bnd (sys_select (daemon_pid S) (p_read (d_pipes S))) (\<lambda>read_fm.
       if read_fm = D_FAILURE then stop (Exit EXIT_FAILURE)
       else if read_fm = 0 then stop (Exit EXIT_FAILURE)
       else bnd (get_timer (daemon_pid S) (d_pipes S) (s_junk S)) (\<lambda>b. ret (DGetTransfer b)))"
| "daemon_step S (DGetTransfer b) =
     bnd (get_timer (daemon_pid S) (d_pipes S) (s_junk S)) (\<lambda>t. ret (DServing b t))"
| "daemon_step S (DServing b t) = stop Blocked"
| "daemon_step S (DExited n) = stop Blocked"

text \<open>
  The interleaving. A step that would wait is not taken. A daemon that exits closes its
  descriptors; the child goes on with what the pipes then do, which can be a SIGPIPE.
\<close>

definition waiting_on_child :: "setting \<Rightarrow> startup \<Rightarrow> bool" where
  "waiting_on_child S u \<longleftrightarrow> su_daemon u \<in> {DWaitAck, DWaitTimers} \<and>
     fst (sys_select (daemon_pid S) (p_read (d_pipes S)) (su_os u)) = Inr 0"

definition without_fds :: "pid \<Rightarrow> os \<Rightarrow> os" where
  "without_fds me = upd_proc me (\<lambda>p. p\<lparr>fdtab := []\<rparr>)"

inductive startup_step :: "setting \<Rightarrow> startup \<Rightarrow> startup \<Rightarrow> bool" for S where
  child: "child_step S (su_child u) (su_os u) = (Inr pc, s') \<Longrightarrow>
     startup_step S u (u\<lparr>su_os := s', su_child := pc\<rparr>)"
| child_killed: "child_step S (su_child u) (su_os u) = (Inl (Killed n), s') \<Longrightarrow>
     startup_step S u (u\<lparr>su_os := without_fds (child_pid S) s', su_child := CKilled n\<rparr>)"
| daemon: "daemon_step S (su_daemon u) (su_os u) = (Inr pc, s') \<Longrightarrow>
     startup_step S u (u\<lparr>su_os := s', su_daemon := pc\<rparr>)"
| daemon_exit: "daemon_step S (su_daemon u) (su_os u) = (Inl (Exit n), s') \<Longrightarrow>
     startup_step S u (u\<lparr>su_os := without_fds (daemon_pid S) s', su_daemon := DExited n\<rparr>)"

definition startup_init :: "os \<Rightarrow> startup" where
  "startup_init s = \<lparr>su_os = s, su_child = CSendAck, su_daemon = DWaitAck\<rparr>"

inductive startup_reach :: "setting \<Rightarrow> os \<Rightarrow> startup \<Rightarrow> bool" for S s0 where
  start: "startup_reach S s0 (startup_init s0)"
| step: "startup_reach S s0 u \<Longrightarrow> startup_step S u v \<Longrightarrow> startup_reach S s0 v"

inductive_cases startup_step_elim: "startup_step S u v"

section \<open>The invariant\<close>

text \<open>
  The two positions determine what is in flight: \<open>up\<close> from child to daemon, \<open>down\<close> back.
\<close>

definition sendable :: "u64 \<Rightarrow> bool" where
  "sendable v \<longleftrightarrow> v \<le> R_IPC_VALUE_UINT_MAX"

definition low28 :: "u64 \<Rightarrow> u64" where
  "low28 v = v AND 0x0FFFFFFF"

definition flagged :: "u64 \<Rightarrow> u64 list" where
  "flagged v = (if sendable v then [R_IPC_VALUE_UINT_FLAG OR v] else [])"

fun in_flight :: "setting \<Rightarrow> cpc \<Rightarrow> dpc \<Rightarrow> (u64 list \<times> u64 list) option" where
  "in_flight S CSendAck DWaitAck = Some ([], [])"
| "in_flight S CGetAck DWaitAck = Some ([ucast IPC_COMMAND_ACK], [])"
| "in_flight S CGetAck DWaitTimers = Some ([], [ucast IPC_COMMAND_ACK])"
| "in_flight S CSendBackup DWaitTimers = Some ([], [])"
| "in_flight S CSendTransfer DWaitTimers =
     (if sendable (t_backup S) then Some (flagged (t_backup S), []) else None)"
| "in_flight S CServing DWaitTimers =
     Some (if sendable (t_backup S) then flagged (t_backup S) @ flagged (t_transfer S) else [], [])"
| "in_flight S CSendTransfer (DGetTransfer b) =
     (if sendable (t_backup S) \<and> b = low28 (t_backup S) then Some ([], []) else None)"
| "in_flight S CServing (DGetTransfer b) =
     (if sendable (t_backup S) \<and> b = low28 (t_backup S) then Some (flagged (t_transfer S), []) else None)"
| "in_flight S CServing (DServing b t) =
     (if sendable (t_backup S) \<and> sendable (t_transfer S) \<and>
         b = low28 (t_backup S) \<and> t = low28 (t_transfer S) then Some ([], []) else None)"
| "in_flight S _ _ = None"

definition connected :: "setting \<Rightarrow> nat \<Rightarrow> nat \<Rightarrow> os \<Rightarrow> bool" where
  "connected S up down s \<longleftrightarrow> up \<noteq> down \<and>
     link s (child_pid S) (p_write (c_pipes S)) (daemon_pid S) (p_read (d_pipes S)) up \<and>
     link s (daemon_pid S) (p_write (d_pipes S)) (child_pid S) (p_read (c_pipes S)) down"

definition startup_inv :: "setting \<Rightarrow> nat \<Rightarrow> nat \<Rightarrow> startup \<Rightarrow> bool" where
  "startup_inv S up down u \<longleftrightarrow> connected S up down (su_os u) \<and>
     (\<exists>ups downs. in_flight S (su_child u) (su_daemon u) = Some (ups, downs) \<and>
        bufs (su_os u) up = concat (map bytes_of_word ups) \<and>
        bufs (su_os u) down = concat (map bytes_of_word downs))"

lemma connected_bufs [simp]: "connected S up down (s\<lparr>bufs := b\<rparr>) = connected S up down s"
  by (simp add: connected_def)

lemma startup_invE:
  assumes "startup_inv S up down u"
  obtains ups downs where "connected S up down (su_os u)"
    "in_flight S (su_child u) (su_daemon u) = Some (ups, downs)"
    "bufs (su_os u) up = concat (map bytes_of_word ups)"
    "bufs (su_os u) down = concat (map bytes_of_word downs)"
  using assms by (auto simp: startup_inv_def)

lemma startup_invI:
  assumes "connected S up down (su_os u)"
    "in_flight S (su_child u) (su_daemon u) = Some (ups, downs)"
    "bufs (su_os u) up = concat (map bytes_of_word ups)"
    "bufs (su_os u) down = concat (map bytes_of_word downs)"
  shows "startup_inv S up down u"
  using assms by (auto simp: startup_inv_def)

lemma in_flight_positions:
  "in_flight S c d = Some (ups, downs) \<Longrightarrow>
    c = CSendAck \<and> d = DWaitAck \<and> ups = [] \<and> downs = [] \<or>
    c = CGetAck \<and> d = DWaitAck \<and> ups = [ucast IPC_COMMAND_ACK] \<and> downs = [] \<or>
    c = CGetAck \<and> d = DWaitTimers \<and> ups = [] \<and> downs = [ucast IPC_COMMAND_ACK] \<or>
    c = CSendBackup \<and> d = DWaitTimers \<and> ups = [] \<and> downs = [] \<or>
    c = CSendTransfer \<and> d = DWaitTimers \<and> ups = flagged (t_backup S) \<and> downs = [] \<and> sendable (t_backup S) \<or>
    c = CServing \<and> d = DWaitTimers \<and> ups = [] \<and> downs = [] \<and> \<not> sendable (t_backup S) \<or>
    c = CServing \<and> d = DWaitTimers \<and> ups = flagged (t_backup S) @ flagged (t_transfer S) \<and> downs = [] \<and> sendable (t_backup S) \<or>
    c = CSendTransfer \<and> d = DGetTransfer (low28 (t_backup S)) \<and> ups = [] \<and> downs = [] \<and> sendable (t_backup S) \<or>
    c = CServing \<and> d = DGetTransfer (low28 (t_backup S)) \<and> ups = flagged (t_transfer S) \<and> downs = [] \<and> sendable (t_backup S) \<or>
    c = CServing \<and> d = DServing (low28 (t_backup S)) (low28 (t_transfer S)) \<and> ups = [] \<and> downs = [] \<and> sendable (t_backup S) \<and> sendable (t_transfer S)"
  by (cases "(S, c, d)" rule: in_flight.cases) (simp_all split: if_splits)

lemma in_flight_cases:
  assumes "in_flight S c d = Some (ups, downs)"
  obtains "c = CSendAck" "d = DWaitAck" "ups = []" "downs = []"
  | "c = CGetAck" "d = DWaitAck" "ups = [ucast IPC_COMMAND_ACK]" "downs = []"
  | "c = CGetAck" "d = DWaitTimers" "ups = []" "downs = [ucast IPC_COMMAND_ACK]"
  | "c = CSendBackup" "d = DWaitTimers" "ups = []" "downs = []"
  | "c = CSendTransfer" "d = DWaitTimers" "ups = flagged (t_backup S)" "downs = []" "sendable (t_backup S)"
  | "c = CServing" "d = DWaitTimers" "ups = []" "downs = []" "\<not> sendable (t_backup S)"
  | "c = CServing" "d = DWaitTimers" "ups = flagged (t_backup S) @ flagged (t_transfer S)" "downs = []" "sendable (t_backup S)"
  | "c = CSendTransfer" "d = DGetTransfer (low28 (t_backup S))" "ups = []" "downs = []" "sendable (t_backup S)"
  | "c = CServing" "d = DGetTransfer (low28 (t_backup S))" "ups = flagged (t_transfer S)" "downs = []" "sendable (t_backup S)"
  | "c = CServing" "d = DServing (low28 (t_backup S)) (low28 (t_transfer S))" "ups = []" "downs = []" "sendable (t_backup S)" "sendable (t_transfer S)"
  using in_flight_positions [OF assms] by (elim disjE conjE) (rule that, assumption+)+

section \<open>What each step does under the invariant\<close>

lemma connectedD:
  assumes "connected S up down s"
  shows "link s (child_pid S) (p_write (c_pipes S)) (daemon_pid S) (p_read (d_pipes S)) up"
    "link s (daemon_pid S) (p_write (d_pipes S)) (child_pid S) (p_read (c_pipes S)) down"
    "up \<noteq> down"
  using assms by (simp_all add: connected_def)

lemma child_send_ack:
  assumes "connected S up down s" "bufs s up = []"
  shows "child_step S CSendAck s =
    (Inr CGetAck, s\<lparr>bufs := (bufs s)(up := bytes_of_word (ucast IPC_COMMAND_ACK))\<rparr>)"
  using assms
  by (simp add: bnd_ok [OF ipc_send_ack_link [OF connectedD(1)]] pipe_capacity_def ret_run)

lemma child_get_ack:
  assumes "connected S up down s" "bufs s down = bytes_of_word m"
  shows "child_step S CGetAck s = (Inr CSendBackup, s\<lparr>bufs := (bufs s)(down := [])\<rparr>)"
  using ipc_get_ack_link [OF connectedD(2) [OF assms(1)], of m "[]"] assms(2)
  by (simp add: prog_simps)

lemma ipc_send_ulong_refused:
  "\<not> v \<le> R_IPC_VALUE_UINT_MAX \<Longrightarrow> ipc_send_ulong me pipes v s = (Inr False, s)"
  by (simp add: ipc_send_ulong_def ret_run not_le)

lemma child_get_ack_waits:
  assumes "connected S up down s" "bufs s down = []"
  shows "child_step S CGetAck s = (Inl Blocked, s)"
  using assms by (simp add: bnd_halt [OF ipc_get_ack_link_empty [OF connectedD(2)]])

lemma child_send_backup:
  assumes "connected S up down s" "bufs s up = []"
  shows "child_step S CSendBackup s = (if sendable (t_backup S)
    then (Inr CSendTransfer, s\<lparr>bufs := (bufs s)(up := bytes_of_word (R_IPC_VALUE_UINT_FLAG OR t_backup S))\<rparr>)
    else (Inr CServing, s))"
  using assms
  by (auto simp: bnd_ok [OF ipc_send_ulong_link [OF connectedD(1)]] pipe_capacity_def ret_run
      sendable_def ipc_send_ulong_refused bnd_ok [OF ipc_send_ulong_refused])

lemma child_send_transfer:
  assumes "connected S up down s" "length (bufs s up) \<le> 8"
  shows "child_step S CSendTransfer s = (Inr CServing, if sendable (t_transfer S)
    then s\<lparr>bufs := (bufs s)(up := bufs s up @ bytes_of_word (R_IPC_VALUE_UINT_FLAG OR t_transfer S))\<rparr> else s)"
  using assms
  by (auto simp: bnd_ok [OF ipc_send_ulong_link [OF connectedD(1)]] pipe_capacity_def ret_run
      sendable_def bnd_ok [OF ipc_send_ulong_refused])

lemma daemon_ack:
  assumes "connected S up down s" "bufs s up = bytes_of_word (ucast IPC_COMMAND_ACK)"
    "bufs s down = []"
  shows "daemon_step S DWaitAck s = (Inr DWaitTimers,
    s\<lparr>bufs := (bufs s)(up := [], down := bytes_of_word (ucast IPC_COMMAND_ACK))\<rparr>)"
proof -
  note l = connectedD [OF assms(1)]
  let ?t = "s\<lparr>bufs := (bufs s)(up := [])\<rparr>"
  have sel: "sys_select (daemon_pid S) (p_read (d_pipes S)) s = (Inr 1, s)"
    by (simp add: sys_select_link [OF l(1)] assms(2))
  have got: "ipc_get_ack (daemon_pid S) (d_pipes S) (s_junk S) s = (Inr True, ?t)"
    using ipc_get_ack_link [OF l(1), of _ "[]"] assms(2) by simp
  have sent: "ipc_send_ack (daemon_pid S) (d_pipes S) ?t = (Inr True,
      ?t\<lparr>bufs := (bufs ?t)(down := bytes_of_word (ucast IPC_COMMAND_ACK))\<rparr>)"
    using l assms(3) by (subst ipc_send_ack_link [where p = down]) (simp_all add: pipe_capacity_def)
  show ?thesis
    using sent by (simp add: acknowledge_client_def prog_simps sel got D_FAILURE_def)
qed

text \<open>With nothing to read the wait runs out.\<close>

lemma daemon_times_out:
  assumes "connected S up down s" "bufs s up = []" "d = DWaitAck \<or> d = DWaitTimers"
  shows "daemon_step S d s = (Inl (Exit EXIT_FAILURE), s)"
proof -
  have "sys_select (daemon_pid S) (p_read (d_pipes S)) s = (Inr 0, s)"
    by (simp add: sys_select_link [OF connectedD(1) [OF assms(1)]] assms(2))
  then show ?thesis
    using assms(3) by (auto simp: acknowledge_client_def prog_simps D_FAILURE_def bnd_halt stop_run)
qed

lemma daemon_first_timer:
  assumes "connected S up down s" "bufs s up = bytes_of_word (R_IPC_VALUE_UINT_FLAG OR t_backup S) @ r"
  shows "daemon_step S DWaitTimers s = (Inr (DGetTransfer (low28 (t_backup S))), s\<lparr>bufs := (bufs s)(up := r)\<rparr>)"
proof -
  note l = connectedD [OF assms(1)]
  have sel: "sys_select (daemon_pid S) (p_read (d_pipes S)) s = (Inr 1, s)"
    by (simp add: sys_select_link [OF l(1)] assms(2))
  have got: "get_timer (daemon_pid S) (d_pipes S) (s_junk S) s =
      (Inr (low28 (t_backup S)), s\<lparr>bufs := (bufs s)(up := r)\<rparr>)"
    using get_timer_link [OF l(1) assms(2)] by (simp add: low28_def)
  show ?thesis by (simp add: prog_simps sel got D_FAILURE_def)
qed

lemma daemon_second_timer:
  assumes "connected S up down s" "bufs s up = bytes_of_word (R_IPC_VALUE_UINT_FLAG OR t_transfer S)"
  shows "daemon_step S (DGetTransfer b) s = (Inr (DServing b (low28 (t_transfer S))), s\<lparr>bufs := (bufs s)(up := [])\<rparr>)"
proof -
  note l = connectedD [OF assms(1)]
  have "get_timer (daemon_pid S) (d_pipes S) (s_junk S) s =
      (Inr (low28 (t_transfer S)), s\<lparr>bufs := (bufs s)(up := [])\<rparr>)"
    using get_timer_link [OF l(1), of _ "[]"] assms by (simp add: low28_def)
  then show ?thesis by (simp add: prog_simps)
qed

lemma daemon_second_timer_waits:
  assumes "connected S up down s" "bufs s up = []"
  shows "daemon_step S (DGetTransfer b) s = (Inl Blocked, s)"
  using connectedD [OF assms(1)] assms(2)
  by (simp add: get_timer_def ipc_get_ulong_def bnd_halt read_ulong_link_empty)

lemma waiting_iff:
  assumes "connected S up down (su_os u)"
  shows "waiting_on_child S u \<longleftrightarrow> su_daemon u \<in> {DWaitAck, DWaitTimers} \<and> bufs (su_os u) up = []"
  using connectedD [OF assms] by (auto simp: waiting_on_child_def sys_select_link)

section \<open>The invariant holds throughout\<close>

lemmas startup_steps = child_send_ack child_get_ack child_get_ack_waits child_send_backup
  child_send_transfer daemon_ack daemon_first_timer daemon_second_timer daemon_second_timer_waits
  daemon_times_out stop_run waiting_iff flagged_def

text \<open>Until the daemon exits, the child's step neither fails nor breaks the invariant.\<close>

lemma child_step_inv:
  assumes inv: "startup_inv S up down u"
    and st: "child_step S (su_child u) (su_os u) = (r, s')"
  shows "(\<exists>pc. r = Inr pc \<and> startup_inv S up down (u\<lparr>su_os := s', su_child := pc\<rparr>)) \<or> r = Inl Blocked"
proof -
  from inv obtain ups downs where c: "connected S up down (su_os u)"
    and f: "in_flight S (su_child u) (su_daemon u) = Some (ups, downs)"
    and b: "bufs (su_os u) up = concat (map bytes_of_word ups)"
      "bufs (su_os u) down = concat (map bytes_of_word downs)"
    by (rule startup_invE)
  note ne = connectedD(3) [OF c]
  from f show ?thesis
    using st b ne c
    by (cases rule: in_flight_cases)
      (auto simp: startup_inv_def startup_steps split: if_splits simp del: child_step.simps(1-4))
qed

text \<open>The daemon's step keeps it too, or is the exit after a wait in vain.\<close>

lemma daemon_step_inv:
  assumes inv: "startup_inv S up down u"
    and st: "daemon_step S (su_daemon u) (su_os u) = (r, s')"
  shows "(\<exists>pc. r = Inr pc \<and> startup_inv S up down (u\<lparr>su_os := s', su_daemon := pc\<rparr>)) \<or> r = Inl Blocked \<or>
    r = Inl (Exit EXIT_FAILURE) \<and> waiting_on_child S u"
proof -
  from inv obtain ups downs where c: "connected S up down (su_os u)"
    and f: "in_flight S (su_child u) (su_daemon u) = Some (ups, downs)"
    and b: "bufs (su_os u) up = concat (map bytes_of_word ups)"
      "bufs (su_os u) down = concat (map bytes_of_word downs)"
    by (rule startup_invE)
  note ne = connectedD(3) [OF c]
  from f show ?thesis
    using st b ne c
    by (cases rule: in_flight_cases)
      (auto simp: startup_inv_def startup_steps split: if_splits simp del: daemon_step.simps(1-3))
qed

definition startup_ok :: "setting \<Rightarrow> nat \<Rightarrow> nat \<Rightarrow> startup \<Rightarrow> bool" where
  "startup_ok S up down u \<longleftrightarrow> startup_inv S up down u \<or> su_daemon u = DExited EXIT_FAILURE"

lemma not_exited: "startup_inv S up down u \<Longrightarrow> su_daemon u \<noteq> DExited n"
  by (auto simp: startup_inv_def elim: in_flight_cases)

lemma startup_step_inv:
  assumes "startup_step S u v" "startup_inv S up down u"
  shows "startup_inv S up down v \<or> su_daemon v = DExited EXIT_FAILURE \<and> waiting_on_child S u"
  using assms(1)
proof cases
  case (child pc s')
  then show ?thesis using child_step_inv [OF assms(2)] by fastforce
next
  case (child_killed n s')
  then show ?thesis using child_step_inv [OF assms(2)] by fastforce
next
  case (daemon pc s')
  then show ?thesis using daemon_step_inv [OF assms(2)] by fastforce
next
  case (daemon_exit n s')
  then show ?thesis using daemon_step_inv [OF assms(2)] by fastforce
qed

lemma exited_stays: "startup_step S u v \<Longrightarrow> su_daemon u = DExited n \<Longrightarrow> su_daemon v = DExited n"
  by (erule startup_step.cases) (simp_all add: stop_run)

lemma startup_step_ok: "startup_step S u v \<Longrightarrow> startup_ok S up down u \<Longrightarrow> startup_ok S up down v"
  unfolding startup_ok_def using startup_step_inv exited_stays by blast

lemma startup_reach_ok:
  "startup_reach S s0 u \<Longrightarrow> connected S up down s0 \<Longrightarrow> bufs s0 up = [] \<Longrightarrow> bufs s0 down = [] \<Longrightarrow>
   startup_ok S up down u"
proof (induction rule: startup_reach.induct)
  case start
  then show ?case by (auto simp: startup_ok_def startup_inv_def startup_init_def)
next
  case (step u v)
  then show ?case by (blast intro: startup_step_ok)
qed

section \<open>Termination and progress\<close>

fun child_rank :: "cpc \<Rightarrow> nat" where
  "child_rank CSendAck = 4"
| "child_rank CGetAck = 3"
| "child_rank CSendBackup = 2"
| "child_rank CSendTransfer = 1"
| "child_rank CServing = 0"
| "child_rank (CKilled n) = 0"

fun daemon_rank :: "dpc \<Rightarrow> nat" where
  "daemon_rank DWaitAck = 3"
| "daemon_rank DWaitTimers = 2"
| "daemon_rank (DGetTransfer b) = 1"
| "daemon_rank (DServing b t) = 0"
| "daemon_rank (DExited n) = 0"

definition startup_rank :: "startup \<Rightarrow> nat" where
  "startup_rank u = child_rank (su_child u) + daemon_rank (su_daemon u)"

lemma child_step_rank:
  "child_step S pc s = (Inr pc', s') \<Longrightarrow> child_rank pc' < child_rank pc"
  by (cases pc) (auto simp: prog_defs split: prod.splits sum.splits if_splits)

lemma child_killed_rank:
  "child_step S pc s = (Inl (Killed n), s') \<Longrightarrow> child_rank (CKilled n) < child_rank pc"
  by (cases pc) (auto simp: prog_defs split: prod.splits sum.splits if_splits)

lemma daemon_step_rank:
  "daemon_step S pc s = (Inr pc', s') \<Longrightarrow> daemon_rank pc' < daemon_rank pc"
  by (cases pc) (auto simp: prog_defs split: prod.splits sum.splits if_splits)

lemma daemon_exit_rank:
  "daemon_step S pc s = (Inl (Exit n), s') \<Longrightarrow> daemon_rank (DExited n) < daemon_rank pc"
  by (cases pc) (auto simp: prog_defs split: prod.splits sum.splits if_splits)

lemma startup_rank_bound: "startup_rank u \<le> 7"
  by (cases "su_child u"; cases "su_daemon u") (simp_all add: startup_rank_def)

lemma startup_step_rank: "startup_step S u v \<Longrightarrow> startup_rank v < startup_rank u"
  by (erule startup_step_elim)
    (auto simp: startup_rank_def dest: child_step_rank child_killed_rank daemon_step_rank daemon_exit_rank)

text \<open>Where nothing moves any more: both sides serve, or the second timer was never sent.\<close>

definition both_serve :: "setting \<Rightarrow> startup \<Rightarrow> bool" where
  "both_serve S u \<longleftrightarrow> su_child u = CServing \<and> su_daemon u = DServing (low28 (t_backup S)) (low28 (t_transfer S))"

definition second_timer_withheld :: "setting \<Rightarrow> startup \<Rightarrow> bool" where
  "second_timer_withheld S u \<longleftrightarrow> \<not> sendable (t_transfer S) \<and> su_child u = CServing \<and>
     (\<exists>b. su_daemon u = DGetTransfer b)"

lemma stuck_means_done:
  assumes inv: "startup_inv S up down u" and stuck: "\<not> (\<exists>v. startup_step S u v)"
  shows "both_serve S u \<or> second_timer_withheld S u"
proof -
  from inv obtain ups downs where c: "connected S up down (su_os u)"
    and f: "in_flight S (su_child u) (su_daemon u) = Some (ups, downs)"
    and b: "bufs (su_os u) up = concat (map bytes_of_word ups)"
      "bufs (su_os u) down = concat (map bytes_of_word downs)"
    by (rule startup_invE)
  have child: "child_step S (su_child u) (su_os u) \<noteq> (Inr pc, s')" for pc s'
    using stuck startup_step.child by blast
  have daemon: "daemon_step S (su_daemon u) (su_os u) \<noteq> (Inr pc, s')" for pc s'
    using stuck startup_step.daemon by blast
  have no_exit: "daemon_step S (su_daemon u) (su_os u) \<noteq> (Inl (Exit n), s')" for n s'
    using stuck startup_step.daemon_exit by blast
  from f show ?thesis
    using b c child daemon no_exit
    by (cases rule: in_flight_cases)
      (auto simp: startup_steps both_serve_def second_timer_withheld_def split: if_splits
        simp del: daemon_step.simps(1-3) child_step.simps(1-4))
qed

text \<open>A move that is no time-out can be made until both serve, if both timers can be sent.\<close>

definition timely_step :: "setting \<Rightarrow> startup \<Rightarrow> startup \<Rightarrow> bool" where
  "timely_step S u v \<longleftrightarrow> startup_step S u v \<and> (\<forall>n. su_daemon v \<noteq> DExited n)"

lemma timely_progress:
  assumes inv: "startup_inv S up down u" and s: "sendable (t_backup S)" "sendable (t_transfer S)"
    and nd: "\<not> both_serve S u"
  shows "\<exists>v. timely_step S u v \<and> startup_inv S up down v"
proof -
  from inv obtain ups downs where c: "connected S up down (su_os u)"
    and f: "in_flight S (su_child u) (su_daemon u) = Some (ups, downs)"
    and b: "bufs (su_os u) up = concat (map bytes_of_word ups)"
      "bufs (su_os u) down = concat (map bytes_of_word downs)"
    by (rule startup_invE)
  have "(\<exists>pc s'. child_step S (su_child u) (su_os u) = (Inr pc, s')) \<or>
      (\<exists>pc s'. daemon_step S (su_daemon u) (su_os u) = (Inr pc, s'))"
    using f b c s nd
    by (cases rule: in_flight_cases)
      (auto simp: startup_steps both_serve_def simp del: daemon_step.simps(1-3) child_step.simps(1-4))
  then have "\<exists>v. startup_step S u v \<and> startup_inv S up down v"
    using child_step_inv [OF inv] daemon_step_inv [OF inv] startup_step.child startup_step.daemon by fastforce
  then show ?thesis using not_exited by (auto simp: timely_step_def)
qed

lemma startup_can_finish:
  assumes "startup_inv S up down u" "sendable (t_backup S)" "sendable (t_transfer S)"
  shows "\<exists>v. (timely_step S)\<^sup>*\<^sup>* u v \<and> both_serve S v"
  using assms
proof (induction "startup_rank u" arbitrary: u rule: less_induct)
  case less
  show ?case
  proof (cases "both_serve S u")
    case False
    then obtain v where v: "timely_step S u v" "startup_inv S up down v"
      using timely_progress [OF less.prems] by blast
    then have "startup_rank v < startup_rank u" unfolding timely_step_def by (blast intro: startup_step_rank)
    from less.hyps [OF this v(2) less.prems(2,3)] v(1) show ?thesis
      by (meson converse_rtranclp_into_rtranclp)
  qed blast
qed

lemma startup_ends:
  assumes "startup_ok S up down u" "(startup_step S)\<^sup>*\<^sup>* u v" "\<nexists>w. startup_step S v w"
  shows "both_serve S v \<or> second_timer_withheld S v \<or> su_daemon v = DExited EXIT_FAILURE"
proof -
  from assms(2,1) have "startup_ok S up down v"
    by (induction rule: rtranclp_induct) (auto intro: startup_step_ok)
  with stuck_means_done assms(3) show ?thesis by (auto simp: startup_ok_def)
qed

section \<open>Properties\<close>

text \<open>
  C3: daemon and file manager start over a pair of healthy, empty pipes and move in whatever
  order, the daemon's ten-second waits running out whenever nothing is there to read. The
  daemon exits only with status 1 and only on such a time-out. Once it serves, the child
  serves too, and the daemon holds the low 28 bits of the child's two timers, that is the
  timers themselves where they are below \<open>2^28\<close>. While the daemon lives, some process can
  move, unless both serve or the child's second timer was too large to be sent.
\<close>

theorem startup_agreement:
  assumes "startup_reach S s0 u" "connected S up down s0" "bufs s0 up = []" "bufs s0 down = []"
  shows "(\<forall>v n. startup_step S u v \<and> su_daemon v = DExited n \<and> su_daemon u \<noteq> DExited n \<longrightarrow>
       n = 1 \<and> waiting_on_child S u) \<and>
    (\<forall>b t. su_daemon u = DServing b t \<longrightarrow> su_child u = CServing \<and>
       b = t_backup S AND 0x0FFFFFFF \<and> t = t_transfer S AND 0x0FFFFFFF \<and>
       (t_backup S \<le> 0x0FFFFFFF \<longrightarrow> b = t_backup S) \<and> (t_transfer S \<le> 0x0FFFFFFF \<longrightarrow> t = t_transfer S)) \<and>
    ((\<exists>v. startup_step S u v) \<or>
       su_child u = CServing \<and> (\<exists>b t. su_daemon u = DServing b t) \<or> su_daemon u = DExited 1 \<or>
       R_IPC_VALUE_UINT_MAX < t_transfer S \<and> (\<exists>b. su_daemon u = DGetTransfer b))"
proof (cases "startup_inv S up down u")
  case True
  then obtain ups downs where f: "in_flight S (su_child u) (su_daemon u) = Some (ups, downs)"
    by (rule startup_invE)
  have "\<forall>v n. startup_step S u v \<and> su_daemon v = DExited n \<longrightarrow> n = 1 \<and> waiting_on_child S u"
    using startup_step_inv [OF _ True] not_exited by fastforce
  moreover from f have "\<forall>b t. su_daemon u = DServing b t \<longrightarrow> su_child u = CServing \<and>
       b = low28 (t_backup S) \<and> t = low28 (t_transfer S)"
    by (cases rule: in_flight_cases) auto
  moreover have "(\<exists>v. startup_step S u v) \<or> both_serve S u \<or> second_timer_withheld S u"
    using stuck_means_done [OF True] by blast
  ultimately show ?thesis
    by (auto simp: low28_def both_serve_def second_timer_withheld_def sendable_def and_low_mask)
next
  case False
  with startup_reach_ok [OF assms] have "su_daemon u = DExited 1" by (simp add: startup_ok_def)
  then show ?thesis by (auto dest: exited_stays)
qed

text \<open>
  C4: from every state the start-up can reach, over a pair of pipes that were healthy and
  empty, each further step brings it closer to its end (at most seven are left), and where
  no step is left both sides serve, the daemon has exited with status 1, or it waits for a
  second timer too large to be sent. Timers that can be sent and a daemon that has not timed
  out let both processes still reach the state in which they serve, without a time-out.
\<close>

theorem startup_terminates:
  assumes "startup_reach S s0 u" "connected S up down s0" "bufs s0 up = []" "bufs s0 down = []"
  shows "startup_rank u \<le> 7 \<and> (\<forall>v. startup_step S u v \<longrightarrow> startup_rank v < startup_rank u) \<and>
    (\<forall>v. (startup_step S)\<^sup>*\<^sup>* u v \<and> (\<nexists>w. startup_step S v w) \<longrightarrow>
       both_serve S v \<or> second_timer_withheld S v \<or> su_daemon v = DExited 1) \<and>
    (t_backup S \<le> R_IPC_VALUE_UINT_MAX \<and> t_transfer S \<le> R_IPC_VALUE_UINT_MAX \<and> su_daemon u \<noteq> DExited 1 \<longrightarrow>
       (\<exists>v. (timely_step S)\<^sup>*\<^sup>* u v \<and> both_serve S v))"
proof -
  note ok = startup_reach_ok [OF assms]
  then have "su_daemon u \<noteq> DExited 1 \<longrightarrow> startup_inv S up down u" by (auto simp: startup_ok_def)
  with startup_can_finish [of S up down u] startup_ends [OF ok] startup_rank_bound startup_step_rank
  show ?thesis by (auto simp: sendable_def)
qed

text \<open>Witnesses: the two processes of the demonstration state.\<close>

definition demo_setting :: setting where
  "demo_setting = \<lparr>daemon_pid = 1, child_pid = 2, d_pipes = demo_daemon, c_pipes = demo_child,
     t_backup = 0, t_transfer = 1, s_junk = 0\<rparr>"

lemma demo_connected: "connected demo_setting 0 1 demo_os"
  using demo_links by (simp add: connected_def demo_setting_def)

theorem startup_agreement_witness:
  "\<exists>v. startup_step demo_setting (startup_init demo_os) v"
  using startup_agreement [OF startup_reach.start demo_connected demo_bufs demo_bufs]
  by (simp add: startup_init_def)

theorem startup_terminates_witness:
  "\<exists>v. (timely_step demo_setting)\<^sup>*\<^sup>* (startup_init demo_os) v \<and>
     su_child v = CServing \<and> su_daemon v = DServing 0 1"
  using startup_terminates [OF startup_reach.start demo_connected demo_bufs demo_bufs]
  by (simp add: demo_setting_def startup_init_def both_serve_def low28_def ipc_flags)

end
