(* ===== verification/RM_Args.thy ===== *)
theory RM_Args
  imports RM_Scan
begin

text \<open>
  Argument and command parsing of \<open>src/libs/reportman.c\<close>: the conversions of one argument,
  the \<open>arg_parse_\<close> functions over the argument vector and the daemon's command language. An
  index into \<open>argv\<close> is modelled by the arguments from that index on; a parser that takes
  a value gives back the value and the arguments behind it. \<open>exit\<close> and a buffer overflow
  are values of \<open>halt\<close>.
\<close>

definition COMMUNICATION_BUFFER_SIZE :: nat where "COMMUNICATION_BUFFER_SIZE = 1024"

section \<open>Conversions\<close>

definition parse_short_arg :: "string \<Rightarrow> halt + u16" where
  "parse_short_arg input =
     (case strtol input of
        None \<Rightarrow> Inl (Exit EXIT_FAILURE)
      | Some value \<Rightarrow>
          if value < 0 \<or> value > 0xFFFF then Inl (Exit EXIT_FAILURE)
          else Inr (word_of_int value))"

definition parse_unsigned_int_arg :: "string \<Rightarrow> halt + u32" where
  "parse_unsigned_int_arg input =
     (case strtol input of
        None \<Rightarrow> Inl (Exit EXIT_FAILURE)
      | Some value \<Rightarrow>
          if value < 0 \<or> value > 0xFFFFFFFF then Inl (Exit EXIT_FAILURE)
          else Inr (word_of_int value))"

definition parse_signed_int_arg :: "string \<Rightarrow> halt + int" where
  "parse_signed_int_arg input =
     (case strtol input of
        None \<Rightarrow> Inl (Exit EXIT_FAILURE)
      | Some value \<Rightarrow>
          if value < -2147483648 \<or> value > 2147483647 then Inl (Exit EXIT_FAILURE)
          else Inr value)"

text \<open>
  \<open>to_lower_case\<close> rewrites the string in place; the result is the new string. In
  \<open>__parse_bool_arg\<close> the rewritten argument is not read again by any caller.
\<close>

definition to_lower_case :: "string \<Rightarrow> string" where
  "to_lower_case str = map tolower str"

definition parse_bool_arg :: "string \<Rightarrow> halt + bool" where
  "parse_bool_arg input =
     (let input = to_lower_case input in
      if input \<noteq> ''true'' then Inr True
      else if input \<noteq> ''false'' then Inr False
      else (case strtol input of
              None \<Rightarrow> Inl (Exit EXIT_FAILURE)
            | Some value \<Rightarrow>
                if value < 0 \<or> value > 1 then Inl (Exit EXIT_FAILURE) else Inr (value \<noteq> 0)))"

text \<open>\<open>strcpy\<close> into a buffer of \<open>n\<close> bytes.\<close>

definition copy_into :: "nat \<Rightarrow> string \<Rightarrow> halt + string" where
  "copy_into n s = (if length s < n then Inr s else Inl Undefined)"

section \<open>Taking an argument from the vector\<close>

type_synonym 'v taken = "halt + ('v \<times> string list) option"

definition R_PARSE_SUCCESS :: int where "R_PARSE_SUCCESS = 1"
definition R_PARSE_NO_MATCH :: int where "R_PARSE_NO_MATCH = 0"

definition arg_parse_flag :: "string \<Rightarrow> string \<Rightarrow> string \<Rightarrow> int" where
  "arg_parse_flag arg short_name long_name =
     (if arg = short_name \<or> arg = long_name then R_PARSE_SUCCESS else R_PARSE_NO_MATCH)"

text \<open>
  The five value parsers differ in the conversion alone. \<open>Inr None\<close> is \<open>R_PARSE_NO_MATCH\<close>;
  a name without a value behind it exits.
\<close>

definition arg_parse_with :: "(string \<Rightarrow> halt + 'v) \<Rightarrow> string list \<Rightarrow> string \<Rightarrow> string \<Rightarrow> 'v taken" where
  "arg_parse_with conv argv short_name long_name =
     (case argv of
        [] \<Rightarrow> Inl Undefined
      | arg # rest \<Rightarrow>
          if \<not> (arg = short_name \<or> arg = long_name) then Inr None
          else (case rest of
                  [] \<Rightarrow> Inl (Exit EXIT_FAILURE)
                | v # rest' \<Rightarrow> (case conv v of Inl h \<Rightarrow> Inl h | Inr x \<Rightarrow> Inr (Some (x, rest')))))"

text \<open>Every caller passes an output buffer of \<open>COMMUNICATION_BUFFER_SIZE\<close> bytes.\<close>

definition arg_parse_string :: "string list \<Rightarrow> string \<Rightarrow> string \<Rightarrow> string taken" where
  "arg_parse_string = arg_parse_with (copy_into COMMUNICATION_BUFFER_SIZE)"

definition arg_parse_ushort :: "string list \<Rightarrow> string \<Rightarrow> string \<Rightarrow> u16 taken" where
  "arg_parse_ushort = arg_parse_with parse_short_arg"

definition arg_parse_uint :: "string list \<Rightarrow> string \<Rightarrow> string \<Rightarrow> u32 taken" where
  "arg_parse_uint = arg_parse_with parse_unsigned_int_arg"

definition arg_parse_int :: "string list \<Rightarrow> string \<Rightarrow> string \<Rightarrow> int taken" where
  "arg_parse_int = arg_parse_with parse_signed_int_arg"

definition arg_parse_bool :: "string list \<Rightarrow> string \<Rightarrow> string \<Rightarrow> bool taken" where
  "arg_parse_bool = arg_parse_with parse_bool_arg"

text \<open>\<open>strncmp(arg, "-", 1) == 0\<close>.\<close>

definition arg_unrecognised :: "string \<Rightarrow> bool" where
  "arg_unrecognised arg = (take 1 arg = ''-'')"

section \<open>The contract of the value parsers\<close>

locale arg_parser =
  fixes parse :: "string list \<Rightarrow> string \<Rightarrow> string \<Rightarrow> 'v taken"
  assumes not_taken: "parse (arg # rest) s l = Inr None \<longleftrightarrow> arg \<noteq> s \<and> arg \<noteq> l"
    and no_value: "arg = s \<or> arg = l \<Longrightarrow> parse [arg] s l = Inl (Exit EXIT_FAILURE)"
    and taken: "parse argv s l = Inr (Some (v, rest)) \<Longrightarrow>
      \<exists>arg val. argv = arg # val # rest \<and> (arg = s \<or> arg = l)"
begin

lemma shrinks: "parse argv s l = Inr (Some (v, rest)) \<Longrightarrow> length rest < length argv"
  by (drule taken) auto

lemma shrinks_tail: "parse (arg # argv) s l = Inr (Some (v, rest)) \<Longrightarrow> length rest < length argv"
  by (drule taken) auto

lemma taken_suffix: "parse argv s l = Inr (Some (v, rest)) \<Longrightarrow> \<exists>pre. argv = pre @ rest \<and> length pre = 2"
  by (drule taken) (auto intro: exI [of _ "[_, _]"])

lemma other_name: "arg \<noteq> s \<Longrightarrow> arg \<noteq> l \<Longrightarrow> parse (arg # rest) s l = Inr None"
  by (simp add: not_taken)

end

lemma arg_parse_with_contract: "arg_parser (arg_parse_with conv)"
  by unfold_locales (auto simp: arg_parse_with_def split: list.splits sum.splits if_splits)

interpretation string_arg: arg_parser arg_parse_string
  unfolding arg_parse_string_def by (rule arg_parse_with_contract)

interpretation ushort_arg: arg_parser arg_parse_ushort
  unfolding arg_parse_ushort_def by (rule arg_parse_with_contract)

interpretation uint_arg: arg_parser arg_parse_uint
  unfolding arg_parse_uint_def by (rule arg_parse_with_contract)

interpretation int_arg: arg_parser arg_parse_int
  unfolding arg_parse_int_def by (rule arg_parse_with_contract)

interpretation bool_arg: arg_parser arg_parse_bool
  unfolding arg_parse_bool_def by (rule arg_parse_with_contract)

lemmas value_args_shrink = string_arg.shrinks_tail ushort_arg.shrinks_tail uint_arg.shrinks_tail
  int_arg.shrinks_tail bool_arg.shrinks_tail

lemmas value_args_other = string_arg.other_name ushort_arg.other_name uint_arg.other_name
  int_arg.other_name bool_arg.other_name

section \<open>Commands of the client\<close>

datatype command_t = C_BACKUP | C_TRANSFER | C_CLOSE | C_UNKNOWN | C_GETTIMERS

definition COMMAND_SUCCESSFUL :: int where "COMMAND_SUCCESSFUL = 0"
definition COMMAND_NOT_FOUND :: int where "COMMAND_NOT_FOUND = 127"

text \<open>
  The return code, \<open>response->command\<close>, and the command string as \<open>to_lower_case\<close> leaves it.
\<close>

definition parse_command :: "string \<Rightarrow> int \<times> command_t \<times> string" where
  "parse_command command =
     (let command = to_lower_case command in
      if command = ''backup'' then (COMMAND_SUCCESSFUL, C_BACKUP, command)
      else if command = ''transfer'' then (COMMAND_SUCCESSFUL, C_TRANSFER, command)
      else if command = ''close'' then (COMMAND_SUCCESSFUL, C_CLOSE, command)
      else if command = ''get_timers'' then (COMMAND_SUCCESSFUL, C_GETTIMERS, command)
      else (COMMAND_NOT_FOUND, C_UNKNOWN, command))"

text \<open>The words of the language, as a client would name them: what may stand at each place.\<close>

fun command_spelling :: "command_t \<Rightarrow> string list option" where
  "command_spelling C_BACKUP = Some [''bB'', ''aA'', ''cC'', ''kK'', ''uU'', ''pP'']"
| "command_spelling C_TRANSFER = Some [''tT'', ''rR'', ''aA'', ''nN'', ''sS'', ''fF'', ''eE'', ''rR'']"
| "command_spelling C_CLOSE = Some [''cC'', ''lL'', ''oO'', ''sS'', ''eE'']"
| "command_spelling C_GETTIMERS =
     Some [''gG'', ''eE'', ''tT'', ''_'', ''tT'', ''iI'', ''mM'', ''eE'', ''rR'', ''sS'']"
| "command_spelling C_UNKNOWN = None"

definition spells :: "string \<Rightarrow> string list \<Rightarrow> bool" where
  "spells s ls = list_all2 (\<lambda>c l. c \<in> set l) s ls"

text \<open>The two alphabets, as the reply shows the command.\<close>

definition small_letter :: "char \<Rightarrow> char" where
  "small_letter c = (case map_of (zip ''ABCDEFGHIJKLMNOPQRSTUVWXYZ'' ''abcdefghijklmnopqrstuvwxyz'') c of
     None \<Rightarrow> c | Some d \<Rightarrow> d)"

lemma code_eq: "code c = code d \<longleftrightarrow> c = d"
  by (simp add: code_def)

lemma tolower_letter:
  assumes "code u + 32 = code d" "97 \<le> code d" "code d \<le> 122"
  shows "tolower c = d \<longleftrightarrow> c = d \<or> c = u"
proof (cases "65 \<le> code c \<and> code c \<le> 90")
  case True
  then have "tolower c = d \<longleftrightarrow> code c + 32 = code d"
    using code_eq [of "char_of (code c + 32)" d] by (simp add: tolower_def code_char_of)
  then show ?thesis using True assms code_eq [of c u] by auto
next
  case False
  then show ?thesis using assms by (auto simp: tolower_def)
qed

lemma tolower_letters:
  "tolower c = CHR ''a'' \<longleftrightarrow> c = CHR ''a'' \<or> c = CHR ''A''" "tolower c = CHR ''b'' \<longleftrightarrow> c = CHR ''b'' \<or> c = CHR ''B''"
  "tolower c = CHR ''c'' \<longleftrightarrow> c = CHR ''c'' \<or> c = CHR ''C''" "tolower c = CHR ''e'' \<longleftrightarrow> c = CHR ''e'' \<or> c = CHR ''E''"
  "tolower c = CHR ''f'' \<longleftrightarrow> c = CHR ''f'' \<or> c = CHR ''F''" "tolower c = CHR ''g'' \<longleftrightarrow> c = CHR ''g'' \<or> c = CHR ''G''"
  "tolower c = CHR ''i'' \<longleftrightarrow> c = CHR ''i'' \<or> c = CHR ''I''" "tolower c = CHR ''k'' \<longleftrightarrow> c = CHR ''k'' \<or> c = CHR ''K''"
  "tolower c = CHR ''l'' \<longleftrightarrow> c = CHR ''l'' \<or> c = CHR ''L''" "tolower c = CHR ''m'' \<longleftrightarrow> c = CHR ''m'' \<or> c = CHR ''M''"
  "tolower c = CHR ''n'' \<longleftrightarrow> c = CHR ''n'' \<or> c = CHR ''N''" "tolower c = CHR ''o'' \<longleftrightarrow> c = CHR ''o'' \<or> c = CHR ''O''"
  "tolower c = CHR ''p'' \<longleftrightarrow> c = CHR ''p'' \<or> c = CHR ''P''" "tolower c = CHR ''r'' \<longleftrightarrow> c = CHR ''r'' \<or> c = CHR ''R''"
  "tolower c = CHR ''s'' \<longleftrightarrow> c = CHR ''s'' \<or> c = CHR ''S''" "tolower c = CHR ''t'' \<longleftrightarrow> c = CHR ''t'' \<or> c = CHR ''T''"
  "tolower c = CHR ''u'' \<longleftrightarrow> c = CHR ''u'' \<or> c = CHR ''U''"
  by (rule tolower_letter; simp add: code_def)+

lemma tolower_underscore: "tolower c = CHR ''_'' \<longleftrightarrow> c = CHR ''_''"
proof -
  have u: "code CHR ''_'' = 95" by (simp add: code_def)
  have "tolower c = CHR ''_'' \<longleftrightarrow> code (tolower c) = 95" unfolding code_eq [symmetric] u ..
  also have "\<dots> \<longleftrightarrow> code c = 95" by (auto simp: tolower_def code_char_of)
  also have "\<dots> \<longleftrightarrow> c = CHR ''_''" unfolding u [symmetric] code_eq ..
  finally show ?thesis .
qed

lemma spells_word:
  assumes "list_all2 (\<lambda>d l. \<forall>c. (tolower c = d) = (c \<in> set l)) w ls"
  shows "to_lower_case s = w \<longleftrightarrow> spells s ls"
  using assms
proof (induction w ls arbitrary: s rule: list_all2_induct)
  case Nil
  then show ?case by (cases s) (simp_all add: spells_def to_lower_case_def)
next
  case (Cons d w l ls)
  then show ?case by (cases s) (simp_all add: spells_def to_lower_case_def)
qed

lemma spelled_words:
  "to_lower_case s = ''backup'' \<longleftrightarrow> spells s (the (command_spelling C_BACKUP))"
  "to_lower_case s = ''transfer'' \<longleftrightarrow> spells s (the (command_spelling C_TRANSFER))"
  "to_lower_case s = ''close'' \<longleftrightarrow> spells s (the (command_spelling C_CLOSE))"
  "to_lower_case s = ''get_timers'' \<longleftrightarrow> spells s (the (command_spelling C_GETTIMERS))"
  by (rule spells_word; simp add: tolower_letters tolower_underscore)+

lemma tolower_small: "tolower c = small_letter c"
proof (cases "65 \<le> code c \<and> code c \<le> 90")
  case True
  have "list_all (\<lambda>n. char_of (n + 32) = small_letter (char_of (n :: nat))) [65..<91]" by code_simp
  moreover have "code c \<in> set [65..<91]" unfolding set_upt using True by simp
  ultimately have "char_of (code c + 32) = small_letter (char_of (code c))" unfolding list_all_iff by (rule bspec)
  with True show ?thesis by (simp add: tolower_def) (simp add: code_def)
next
  case False
  have "list_all (\<lambda>d. 65 \<le> code d \<and> code d \<le> 90) ''ABCDEFGHIJKLMNOPQRSTUVWXYZ''"
    by (simp add: code_def)
  then have "c \<notin> set ''ABCDEFGHIJKLMNOPQRSTUVWXYZ''" using False unfolding list_all_iff by blast
  moreover have "map fst (zip ''ABCDEFGHIJKLMNOPQRSTUVWXYZ'' ''abcdefghijklmnopqrstuvwxyz'') = ''ABCDEFGHIJKLMNOPQRSTUVWXYZ''"
    by (rule map_fst_zip) simp
  ultimately have "map_of (zip ''ABCDEFGHIJKLMNOPQRSTUVWXYZ'' ''abcdefghijklmnopqrstuvwxyz'') c = None"
    unfolding map_of_eq_None_iff by (metis set_map)
  then have "small_letter c = c" unfolding small_letter_def by simp
  with False show ?thesis by (auto simp: tolower_def)
qed

lemma to_lower_case_small: "to_lower_case s = map small_letter s"
  using tolower_small by (simp add: to_lower_case_def)

lemma to_lower_case_idem [simp]: "to_lower_case (to_lower_case s) = to_lower_case s"
  by (simp add: to_lower_case_def)

text \<open>C35: The command language: a text is read as a command exactly when it spells that
  command's word, each letter small or capital, and nothing else; the code says "found" exactly
  then, and every other text is the unknown command with code 127. The text itself is left
  with its capitals made small, and read again it is the same command.\<close>

theorem parse_command_correct:
  "(fst (snd (parse_command s)) = c \<and> c \<noteq> C_UNKNOWN) = (\<exists>ls. command_spelling c = Some ls \<and> spells s ls) \<and>
   (fst (parse_command s) = 0) = (fst (snd (parse_command s)) \<noteq> C_UNKNOWN) \<and>
   (fst (parse_command s) = 127) = (fst (snd (parse_command s)) = C_UNKNOWN) \<and>
   snd (snd (parse_command s)) = map small_letter s \<and>
   parse_command (map small_letter s) = parse_command s"
proof (intro conjI)
  show "(fst (snd (parse_command s)) = c \<and> c \<noteq> C_UNKNOWN) = (\<exists>ls. command_spelling c = Some ls \<and> spells s ls)"
    using spelled_words [of s] by (cases c) (auto simp: parse_command_def Let_def)
  show "parse_command (map small_letter s) = parse_command s"
    unfolding to_lower_case_small [symmetric] by (simp add: parse_command_def)
qed (auto simp: parse_command_def Let_def COMMAND_SUCCESSFUL_def COMMAND_NOT_FOUND_def to_lower_case_small [symmetric])

section \<open>Numbers on the command line\<close>

lemma strtol_show_nat: "strtol (show_nat n) = Some (clamp_long (int n))"
  using scan_int_show_nat [of "[]" n] by (simp add: strtol_def)

lemma strtol_show_int: "strtol (show_int i) = Some (clamp_long i)"
proof (cases "i < 0")
  case True
  have "skip_space (CHR ''-'' # s) = CHR ''-'' # s" for s
    by (simp add: skip_space_def is_space_def code_def)
  then have "scan_int (show_int i) = Some (-1, int (nat (- i)), [])"
    using True by (simp add: scan_int_def show_int_def split_sign_def)
  with True show ?thesis by (simp add: strtol_def)
next
  case False
  then show ?thesis by (simp add: show_int_def strtol_show_nat)
qed

text \<open>C36: A port or number written in decimal is read back as itself exactly when it fits the
  type asked for, and the program exits on every other number, however long: the
  saturation of \<open>strtol\<close> never lets an overlong number through.\<close>

theorem parse_args_in_range:
  "parse_short_arg (show_int i) =
     (if 0 \<le> i \<and> i \<le> 65535 then Inr (word_of_int i) else Inl (Exit EXIT_FAILURE)) \<and>
   parse_unsigned_int_arg (show_int i) =
     (if 0 \<le> i \<and> i \<le> 4294967295 then Inr (word_of_int i) else Inl (Exit EXIT_FAILURE)) \<and>
   parse_signed_int_arg (show_int i) =
     (if - 2147483648 \<le> i \<and> i \<le> 2147483647 then Inr i else Inl (Exit EXIT_FAILURE))"
  by (auto simp: parse_short_arg_def parse_unsigned_int_arg_def parse_signed_int_arg_def
      strtol_show_int clamp_long_def LONG_MAX_def LONG_MIN_def)

text \<open>\<open>__parse_bool_arg\<close> reads every argument but "true" (in any case) as true, also
  "false" and "0", reads "true" as false, and never reaches its error exits: both string
  comparisons are used as if \<open>strcmp\<close> returned true on equality.\<close>

lemma parse_bool_arg_inverted:
  "parse_bool_arg s = Inr (to_lower_case s \<noteq> ''true'')"
  by (simp add: parse_bool_arg_def Let_def)

end
