(* ===== verification/RM_Time.thy ===== *)
theory RM_Time
  imports RM_Scan
begin

text \<open>
  \<open>get_hh_mm_str\<close> of \<open>src/libs/reportman.c\<close>: the next instant at which the local clock shows
  HH:MM. The C library's calendar is modelled for a time zone with a fixed offset \<open>off\<close>
  (seconds east of UTC, no daylight saving) and instants whose local date is 1970 or later:
  \<open>localtime\<close> breaks a time into fields, \<open>mktime\<close> puts fields together, accepting a day of
  the month past the end of the month, and stores the normalised fields back.
\<close>

section \<open>The calendar\<close>

record tm =
  tm_sec :: int
  tm_min :: int
  tm_hour :: int
  tm_mday :: int
  tm_mon :: nat
  tm_year :: nat

definition leap :: "nat \<Rightarrow> bool" where
  "leap y \<longleftrightarrow> y mod 4 = 0 \<and> (y mod 100 \<noteq> 0 \<or> y mod 400 = 0)"

definition year_len :: "nat \<Rightarrow> nat" where
  "year_len y = (if leap y then 366 else 365)"

definition month_lens :: "nat \<Rightarrow> nat list" where
  "month_lens y = [31, if leap y then 29 else 28, 31, 30, 31, 30, 31, 31, 30, 31, 30, 31]"

lemma year_len_pos [simp]: "0 < year_len y"
  by (simp add: year_len_def)

lemma sum_month_lens: "sum_list (month_lens y) = year_len y"
  by (simp add: month_lens_def year_len_def)

text \<open>Split a day number off year by year, then month by month, as \<open>localtime\<close> does.\<close>

function year_split :: "nat \<Rightarrow> nat \<Rightarrow> nat \<times> nat" where
  "year_split y d = (if d < year_len y then (y, d) else year_split (Suc y) (d - year_len y))"
  by pat_completeness auto
termination
  by (relation "measure snd") (auto simp: not_less intro: diff_less less_le_trans [OF year_len_pos])

declare year_split.simps [simp del]

fun month_split :: "nat list \<Rightarrow> nat \<Rightarrow> nat \<times> nat" where
  "month_split [] d = (0, d)"
| "month_split (m # ms) d =
     (if d < m then (0, d) else (case month_split ms (d - m) of (i, r) \<Rightarrow> (Suc i, r)))"

definition days_before_year :: "nat \<Rightarrow> nat" where
  "days_before_year y = (\<Sum>k = 1970..<y. year_len k)"

definition localtime :: "int \<Rightarrow> int \<Rightarrow> tm" where
  "localtime off t =
     (let lt = t + off; sod = lt mod 86400;
          (y, yd) = year_split 1970 (nat (lt div 86400));
          (mon, md) = month_split (month_lens y) yd in
      \<lparr>tm_sec = sod mod 60, tm_min = sod div 60 mod 60, tm_hour = sod div 3600,
       tm_mday = int md + 1, tm_mon = mon, tm_year = y\<rparr>)"

definition timegm :: "int \<Rightarrow> tm \<Rightarrow> int" where
  "timegm off x =
     (int (days_before_year (tm_year x) + sum_list (take (tm_mon x) (month_lens (tm_year x))))
        + (tm_mday x - 1)) * 86400
     + tm_hour x * 3600 + tm_min x * 60 + tm_sec x - off"

definition mktime :: "int \<Rightarrow> tm \<Rightarrow> int \<times> tm" where
  "mktime off x = (timegm off x, localtime off (timegm off x))"

section \<open>The function\<close>

definition D_INVALID_HH_MM_FORMAT :: int where "D_INVALID_HH_MM_FORMAT = -1"
definition D_INVALID_HH_MM_RANGE :: int where "D_INVALID_HH_MM_RANGE = -2"

definition hh_mm_format :: "directive list" where
  "hh_mm_format = [FUShort, FLit CHR '':'', FUShort]"

text \<open>
  \<open>now\<close> is what \<open>time(NULL)\<close> returns. The result is the return code and, on success, the
  value stored in \<open>*next_time\<close>.
\<close>

definition next_target :: "int \<Rightarrow> int \<Rightarrow> u16 \<Rightarrow> u16 \<Rightarrow> int" where
  "next_target off now target_hour target_minute =
     (let x = (localtime off now)\<lparr>tm_min := int (unat target_minute),
                                  tm_hour := int (unat target_hour), tm_sec := 0\<rparr>;
          (t, x') = mktime off x in
      if t - now < 0 then fst (mktime off (x'\<lparr>tm_mday := tm_mday x' + 1\<rparr>))
      else fst (mktime off x'))"

definition get_hh_mm_str :: "int \<Rightarrow> int \<Rightarrow> string \<Rightarrow> int \<times> int option" where
  "get_hh_mm_str off now input_HH_MM =
     (case sscanf hh_mm_format input_HH_MM of
        [SUShort target_hour, SUShort target_minute] \<Rightarrow>
          (if target_hour > 23 \<or> target_minute > 59 then (D_INVALID_HH_MM_RANGE, None)
           else (0, Some (next_target off now target_hour target_minute)))
      | _ \<Rightarrow> (D_INVALID_HH_MM_FORMAT, None))"

section \<open>The calendar is consistent\<close>

lemma days_before_year_Suc:
  "1970 \<le> y \<Longrightarrow> days_before_year (Suc y) = days_before_year y + year_len y"
  by (simp add: days_before_year_def)

lemma year_split_total:
  "1970 \<le> y \<Longrightarrow> year_split y d = (y', r) \<Longrightarrow>
   days_before_year y + d = days_before_year y' + r \<and> r < year_len y' \<and> 1970 \<le> y'"
proof (induction y d rule: year_split.induct)
  case (1 y d)
  show ?case
  proof (cases "d < year_len y")
    case True
    with 1 show ?thesis by (simp add: year_split.simps)
  next
    case False
    with "1.prems" have "year_split (Suc y) (d - year_len y) = (y', r)"
      by (simp add: year_split.simps [of y d])
    with "1.IH" [OF False] "1.prems" False days_before_year_Suc [of y] show ?thesis by auto
  qed
qed

lemma month_split_total:
  "d < sum_list ms \<Longrightarrow> month_split ms d = (i, r) \<Longrightarrow>
   sum_list (take i ms) + r = d \<and> i < length ms \<and> r < ms ! i"
proof (induction ms arbitrary: d i)
  case Nil
  then show ?case by simp
next
  case (Cons m ms)
  show ?case
  proof (cases "d < m")
    case True
    with Cons.prems show ?thesis by auto
  next
    case False
    with Cons.prems obtain j where j: "month_split ms (d - m) = (j, r)" "i = Suc j"
      by (auto split: prod.splits)
    have "d - m < sum_list ms" using Cons.prems(1) False by auto
    from Cons.IH [OF this j(1)] j(2) False show ?thesis by auto
  qed
qed

lemma date_sum:
  assumes "year_split 1970 d = (y, yd)" "month_split (month_lens y) yd = (mon, md)"
  shows "days_before_year y + sum_list (take mon (month_lens y)) + md = d"
proof -
  have "days_before_year 1970 = 0" by (simp add: days_before_year_def)
  with year_split_total [OF _ assms(1)] have "d = days_before_year y + yd" "yd < year_len y" by auto
  with month_split_total [OF _ assms(2)] show ?thesis by (simp add: sum_month_lens)
qed

text \<open>Changing the time of day of a broken-down time, and putting it together again.\<close>

lemma timegm_of_day:
  assumes "0 \<le> t + off"
  shows "timegm off ((localtime off t)\<lparr>tm_min := m, tm_hour := h, tm_sec := s\<rparr>) =
     (t + off) div 86400 * 86400 + h * 3600 + m * 60 + s - off"
proof -
  obtain y yd where y: "year_split 1970 (nat ((t + off) div 86400)) = (y, yd)" by force
  obtain mon md where m: "month_split (month_lens y) yd = (mon, md)" by force
  have "int (days_before_year y + sum_list (take mon (month_lens y)) + md) = (t + off) div 86400"
    using date_sum [OF y m] assms by simp
  then show ?thesis by (simp add: timegm_def localtime_def Let_def y m)
qed

lemma sod_parts:
  fixes x :: int
  shows "x div 3600 * 3600 + x div 60 mod 60 * 60 + x mod 60 = x"
proof -
  have "x div 3600 = x div 60 div 60" by (simp add: zdiv_zmult2_eq [symmetric])
  moreover have "x div 60 div 60 * 60 + x div 60 mod 60 = x div 60" by simp
  moreover have "x div 60 * 60 + x mod 60 = x" by simp
  ultimately show ?thesis by linarith
qed

lemma timegm_localtime:
  assumes "0 \<le> t + off"
  shows "timegm off (localtime off t) = t"
proof -
  define x where "x = localtime off t"
  have "x\<lparr>tm_min := tm_min x, tm_hour := tm_hour x, tm_sec := tm_sec x\<rparr> = x" by simp
  with timegm_of_day [OF assms, where m = "tm_min x" and h = "tm_hour x" and s = "tm_sec x"]
  have "timegm off x = (t + off) div 86400 * 86400
      + tm_hour x * 3600 + tm_min x * 60 + tm_sec x - off" by (simp add: x_def)
  moreover have "tm_hour x * 3600 + tm_min x * 60 + tm_sec x = (t + off) mod 86400"
  proof -
    define sod where "sod = (t + off) mod 86400"
    have "tm_hour x = sod div 3600" "tm_min x = sod div 60 mod 60" "tm_sec x = sod mod 60"
      by (simp_all only: x_def sod_def localtime_def Let_def case_prod_beta tm.select_convs)
    then show ?thesis using sod_parts [of sod] by (simp only: sod_def)
  qed
  ultimately show ?thesis
    unfolding x_def [symmetric] using div_mult_mod_eq [of "t + off" 86400] by linarith
qed

lemma timegm_next_day:
  "timegm off (x\<lparr>tm_mday := tm_mday x + 1\<rparr>) = timegm off x + 86400"
  by (simp add: timegm_def algebra_simps)

section \<open>Properties\<close>

lemma next_target_bounds:
  assumes off: "0 \<le> now + off" and h: "unat target_hour \<le> 23" and m: "unat target_minute \<le> 59"
  shows "now \<le> next_target off now target_hour target_minute"
    and "next_target off now target_hour target_minute < now + 86400"
    and "(next_target off now target_hour target_minute + off) mod 86400 =
      int (unat target_hour) * 3600 + int (unat target_minute) * 60"
proof -
  define sod where "sod = int (unat target_hour) * 3600 + int (unat target_minute) * 60"
  define t where "t = (now + off) div 86400 * 86400 + sod - off"
  have "int (unat target_hour) \<le> 23" "int (unat target_minute) \<le> 59" using h m by linarith+
  then have sod: "0 \<le> sod" "sod < 86400" unfolding sod_def by linarith+
  have t: "timegm off ((localtime off now)\<lparr>tm_min := int (unat target_minute),
      tm_hour := int (unat target_hour), tm_sec := 0\<rparr>) = t"
    using timegm_of_day [OF off] by (simp add: t_def sod_def)
  have "0 \<le> (now + off) div 86400" using off by (simp add: pos_imp_zdiv_nonneg_iff)
  then have again: "timegm off (localtime off t) = t"
    using sod by (intro timegm_localtime) (simp add: t_def)
  have nt: "next_target off now target_hour target_minute = (if t - now < 0 then t + 86400 else t)"
    by (simp only: next_target_def mktime_def Let_def prod.case fst_conv t again timegm_next_day)
  have now_parts: "now = (now + off) div 86400 * 86400 + (now + off) mod 86400 - off" by simp
  have range: "0 \<le> (now + off) mod 86400" "(now + off) mod 86400 < 86400" by simp_all
  from nt sod now_parts range show "now \<le> next_target off now target_hour target_minute"
    "next_target off now target_hour target_minute < now + 86400"
    unfolding t_def by (auto split: if_splits)
  have "(t + off) mod 86400 = sod" using sod by (simp add: t_def)
  moreover from this have "(t + 86400 + off) mod 86400 = sod"
    by (metis add.assoc add.commute mod_add_self2)
  ultimately show "(next_target off now target_hour target_minute + off) mod 86400 =
      int (unat target_hour) * 3600 + int (unat target_minute) * 60"
    by (simp add: nt sod_def)
qed

text \<open>C30: \<open>get_hh_mm_str\<close> answers in exactly three ways: a format error when the text does
  not start with two numbers joined by a colon, a range error when they are no time of
  day, and otherwise the first instant not before now, and less than a day away, at which
  the local clock shows that hour and minute with zero seconds.\<close>

theorem get_hh_mm_str_correct:
  assumes "0 \<le> now + off"
  shows "case sscanf hh_mm_format input of
      [SUShort h, SUShort m] \<Rightarrow>
        (if unat h \<le> 23 \<and> unat m \<le> 59
         then \<exists>t. get_hh_mm_str off now input = (0, Some t) \<and> now \<le> t \<and> t < now + 86400 \<and>
                (t + off) mod 86400 = int (unat h) * 3600 + int (unat m) * 60
         else get_hh_mm_str off now input = (D_INVALID_HH_MM_RANGE, None))
    | _ \<Rightarrow> get_hh_mm_str off now input = (D_INVALID_HH_MM_FORMAT, None)"
proof (cases "\<exists>h m. sscanf hh_mm_format input = [SUShort h, SUShort m]")
  case True
  then obtain h m where p: "sscanf hh_mm_format input = [SUShort h, SUShort m]" by auto
  have range: "(h > 23 \<or> m > 59) = (\<not> (unat h \<le> 23 \<and> unat m \<le> 59))"
    by (auto simp: word_less_nat_alt)
  show ?thesis using next_target_bounds [OF assms, of h m]
    by (auto simp: p get_hh_mm_str_def range)
next
  case False
  then show ?thesis by (auto simp: get_hh_mm_str_def split: list.split scanned.split)
qed

theorem get_hh_mm_str_correct_witness:
  "\<exists>t. get_hh_mm_str 3600 1700000000 ''23:30'' = (0, Some t) \<and> 1700000000 \<le> t \<and>
     t < 1700086400 \<and> (t + 3600) mod 86400 = 84600"
proof -
  have "sscanf hh_mm_format ''23:30'' = [SUShort 23, SUShort 30]" by code_simp
  with get_hh_mm_str_correct [of 1700000000 3600 "''23:30''"] show ?thesis by simp
qed

lemma scan_two_ushorts:
  "sscanf hh_mm_format (show_nat a @ CHR '':'' # show_nat b) =
     [SUShort (scanned_ushort 1 (int a)), SUShort (scanned_ushort 1 (int b))]"
proof -
  have "\<not> is_digit CHR '':''" by code_simp
  then show ?thesis
    using scan_int_show_nat [of "CHR '':'' # show_nat b" a] scan_int_show_nat [of "[]" b]
    by (simp add: hh_mm_format_def)
qed

text \<open>A decimal hour and minute are read modulo 65536: every number up to the largest
  \<open>unsigned long\<close> means the same time of day as its remainder, so 65536:00 is accepted as
  midnight.\<close>

lemma get_hh_mm_str_wraps:
  assumes "int a \<le> ULONG_MAX" "int b \<le> ULONG_MAX"
  shows "get_hh_mm_str off now (show_nat a @ CHR '':'' # show_nat b) =
    get_hh_mm_str off now (show_nat (a mod 65536) @ CHR '':'' # show_nat (b mod 65536))"
proof -
  have *: "scanned_ushort 1 (int n) = scanned_ushort 1 (int (n mod 65536))" if "int n \<le> ULONG_MAX" for n
  proof -
    have "int (n mod 65536) \<le> ULONG_MAX" using that by (simp add: ULONG_MAX_def zmod_int)
    moreover have "(word_of_int (int n) :: u16) = word_of_int (int (n mod 65536))"
      unfolding word_uint_eq_iff by (simp add: uint_word_of_int unsigned_of_nat take_bit_eq_mod zmod_int)
    ultimately show ?thesis using that by (simp add: scanned_ushort_def)
  qed
  show ?thesis
    by (simp only: get_hh_mm_str_def scan_two_ushorts * [OF assms(1)] * [OF assms(2)])
qed

end
