(* ===== verification/RM_Config.thy ===== *)
theory RM_Config
  imports RM_Args RM_Time RM_IPC RM_FS
begin

text \<open>
  The command lines of the four programs: \<open>__configure_daemon_args\<close> with the path helpers
  (\<open>reportmand.c\<close>), \<open>__configure_reportman_fm_args\<close> (\<open>reportman_fm.c\<close>),
  \<open>__configure_monitor_args\<close> (\<open>reportman_mon.c\<close>) and \<open>__configure_client_args\<close>
  (\<open>reportmanc.c\<close>). Each loop over \<open>argv\<close> runs on the arguments that are left.
\<close>

section \<open>The log file's path\<close>

definition PATH_MAX :: nat where "PATH_MAX = 4096"

definition D_INVALID_PATH_FORMAT :: int where "D_INVALID_PATH_FORMAT = -1"
definition D_NO_WRITE_TO_LOG_PARENT_DIRECTORY :: int where "D_NO_WRITE_TO_LOG_PARENT_DIRECTORY = -2"
definition D_PARENT_PATH_NO_EXIST :: int where "D_PARENT_PATH_NO_EXIST = -3"
definition D_COULD_NOT_EXPAND :: int where "D_COULD_NOT_EXPAND = -4"

text \<open>Where the process stands: its files and its working directory.\<close>

record place =
  pl_fs :: fsys
  pl_cwd :: "string list"

text \<open>Every component between slashes counts here, \<open>.\<close> and \<open>..\<close> too.\<close>

definition components :: "string \<Rightarrow> string list" where
  "components path = filter (\<lambda>x. x \<noteq> []) (split_slash [] path)"

definition start_at :: "place \<Rightarrow> string \<Rightarrow> string list" where
  "start_at env path = (if take 1 path = ''/'' then [] else pl_cwd env)"

text \<open>
  The kernel follows a path from a directory, component by component: each step needs a directory
  that may be searched; two dots go to the parent, and the root is its own.
\<close>

fun walk :: "bool \<Rightarrow> node \<Rightarrow> string list \<Rightarrow> string list \<Rightarrow> string list option" where
  "walk r root here [] = (if lookup True root here = None then None else Some here)"
| "walk r root here (c # cs) =
     (case lookup True root here of
        Some (Dir m es) \<Rightarrow>
          if \<not> may_search r m then None
          else if c = ''.'' then walk r root here cs
          else if c = ''..'' then walk r root (butlast here) cs
          else if map_of es c = None then None
          else walk r root (here @ [c]) cs
      | _ \<Rightarrow> None)"

text \<open>A path that ends in a slash names a directory.\<close>

definition reached :: "place \<Rightarrow> string \<Rightarrow> node option" where
  "reached env path =
     (if path = [] then None
      else (case walk (as_root (pl_fs env)) (fs_root (pl_fs env)) (start_at env path) (components path) of
        None \<Rightarrow> None
      | Some q \<Rightarrow> (case lookup True (fs_root (pl_fs env)) q of
            Some (File m c) \<Rightarrow> if last path = CHR ''/'' then None else Some (File m c)
          | n \<Rightarrow> n)))"

text \<open>\<open>access(path, F_OK)\<close> and \<open>access(path, W_OK)\<close>: 0 or -1.\<close>

definition access_f :: "place \<Rightarrow> string \<Rightarrow> int" where
  "access_f env path = (if reached env path = None then -1 else 0)"

definition access_w :: "place \<Rightarrow> string \<Rightarrow> int" where
  "access_w env path = (case reached env path of
     None \<Rightarrow> -1
   | Some (File m c) \<Rightarrow> if may_write (as_root (pl_fs env)) m then 0 else -1
   | Some (Dir m es) \<Rightarrow> if may_write (as_root (pl_fs env)) m then 0 else -1)"

definition W_OK :: int where "W_OK = 2"

text \<open>\<open>dirname(3)\<close>: the path without its last component and the slashes around it.\<close>

definition strip_slashes :: "string \<Rightarrow> string" where
  "strip_slashes s = rev (dropWhile (\<lambda>c. c = CHR ''/'') (rev s))"

definition upto_slash :: "string \<Rightarrow> string" where
  "upto_slash s = rev (dropWhile (\<lambda>c. c \<noteq> CHR ''/'') (rev s))"

definition dirname :: "string \<Rightarrow> string" where
  "dirname path =
     (let s = strip_slashes path; d = upto_slash s in
      if path = [] then ''.''
      else if s = [] then ''/''
      else if d = [] then ''.''
      else if strip_slashes d = [] then ''/'' else strip_slashes d)"

definition has_path_parent :: "place \<Rightarrow> string \<Rightarrow> bool" where
  "has_path_parent env path \<longleftrightarrow> access_f env (dirname path) = 0"

definition has_write_permission_to_parent :: "place \<Rightarrow> string \<Rightarrow> bool" where
  "has_write_permission_to_parent env path \<longleftrightarrow> access_w env (dirname path) = W_OK"

definition is_path_empty :: "string \<Rightarrow> bool" where
  "is_path_empty path \<longleftrightarrow> path = []"

text \<open>
  \<open>realpath\<close> gives the path from the root: of a relative path it needs that of the working
  directory, whose ancestors must be open to a search.
\<close>

definition expand_path_to_absolute :: "place \<Rightarrow> string \<Rightarrow> bool" where
  "expand_path_to_absolute env path \<longleftrightarrow> reached env path \<noteq> None \<and>
     (take 1 path = ''/'' \<or> node_of (pl_fs env) (pl_cwd env) \<noteq> None)"

text \<open>The text before the last slash and the text behind it, when there is a slash.\<close>

definition remove_last_item_path :: "string \<Rightarrow> (string \<times> string) option" where
  "remove_last_item_path path =
     (if CHR ''/'' \<notin> set path then None
      else Some (butlast (upto_slash path), drop (length (upto_slash path)) path))"

definition get_path :: "place \<Rightarrow> string \<Rightarrow> int \<times> string option" where
  "get_path env input_path =
     (if is_path_empty input_path then (D_INVALID_PATH_FORMAT, None)
      else (case remove_last_item_path input_path of
        None \<Rightarrow>
          if \<not> expand_path_to_absolute env input_path then (D_COULD_NOT_EXPAND, None)
          else (D_SUCCESS, Some input_path)
      | Some (directory, file_name) \<Rightarrow>
          if \<not> expand_path_to_absolute env directory then (D_COULD_NOT_EXPAND, None)
          else
            (let output_path = directory @ ''/'' @ file_name in
             if \<not> has_path_parent env output_path then (D_PARENT_PATH_NO_EXIST, None)
             else if has_write_permission_to_parent env output_path
             then (D_NO_WRITE_TO_LOG_PARENT_DIRECTORY, None)
             else (D_SUCCESS, Some output_path))))"

section \<open>The daemon's arguments\<close>

record daemon_arguments =
  make_daemon :: bool
  force :: bool
  da_close :: bool
  daemon_port :: u16
  transfer_time_str :: string
  backup_time_str :: string
  monitor_log_file_path :: string

definition M_LOG_PATH :: string where "M_LOG_PATH = ''/var/log/reportman/monitor.log''"
definition REPORTMAND_BIND_PORT :: u16 where "REPORTMAND_BIND_PORT = 7770"

definition exec_args :: daemon_arguments where
  "exec_args = \<lparr>make_daemon = True, force = False, da_close = False, daemon_port = REPORTMAND_BIND_PORT,
     transfer_time_str = ''23:30'', backup_time_str = ''01:00'', monitor_log_file_path = M_LOG_PATH\<rparr>"

function configure_daemon_args ::
  "place \<Rightarrow> string list \<Rightarrow> daemon_arguments \<Rightarrow> halt + daemon_arguments" where
  "configure_daemon_args env [] args = Inr args"
| "configure_daemon_args env (arg # argv) args =
     (if arg_parse_flag arg ''-nd'' ''--no-daemon'' = R_PARSE_SUCCESS then
        configure_daemon_args env argv (args\<lparr>make_daemon := False\<rparr>)
      else if arg_parse_flag arg ''-f'' ''--force'' \<noteq> 0 then
        configure_daemon_args env argv (args\<lparr>force := True\<rparr>)
      else if arg_parse_flag arg ''-c'' ''--close'' \<noteq> 0 then
        configure_daemon_args env argv (args\<lparr>da_close := True\<rparr>)
      else case arg_parse_ushort (arg # argv) ''-p'' ''--port'' of
        Inl h \<Rightarrow> Inl h
      | Inr (Some (v, rest)) \<Rightarrow> configure_daemon_args env rest (args\<lparr>daemon_port := v\<rparr>)
      | Inr None \<Rightarrow>
     (case arg_parse_string (arg # argv) ''-tt'' ''--transfer-time'' of
        Inl h \<Rightarrow> Inl h
      | Inr (Some (v, rest)) \<Rightarrow> configure_daemon_args env rest (args\<lparr>transfer_time_str := v\<rparr>)
      | Inr None \<Rightarrow>
     (case arg_parse_string (arg # argv) ''-bt'' ''--backup-time'' of
        Inl h \<Rightarrow> Inl h
      | Inr (Some (v, rest)) \<Rightarrow> configure_daemon_args env rest (args\<lparr>backup_time_str := v\<rparr>)
      | Inr None \<Rightarrow>
     (case arg_parse_string (arg # argv) ''-lf'' ''--log-file'' of
        Inl h \<Rightarrow> Inl h
      | Inr (Some (v, rest)) \<Rightarrow>
          (case get_path env v of
             (response, Some log_file) \<Rightarrow>
               if response < 0 then Inl (Exit response)
               else configure_daemon_args env rest (args\<lparr>monitor_log_file_path := log_file\<rparr>)
           | (response, None) \<Rightarrow> Inl (Exit response))
      | Inr None \<Rightarrow> Inl (Exit EXIT_FAILURE)))))"
  by pat_completeness auto
termination
  by (relation "measure (\<lambda>(env, argv, args). length argv)") (auto dest: value_args_shrink)

section \<open>The file manager's arguments\<close>

record fm_args =
  fa_from_daemon :: bool
  fa_debug :: bool
  fa_backup_time :: int
  fa_transfer_time :: int
  fa_do_backup :: bool
  fa_do_transfer :: bool
  fa_pipes :: ipc_pipes

definition fm_args_init :: fm_args where
  "fm_args_init = \<lparr>fa_from_daemon = False, fa_debug = False, fa_backup_time = 0, fa_transfer_time = 0,
     fa_do_backup = False, fa_do_transfer = False, fa_pipes = \<lparr>p_write = -1, p_read = -1\<rparr>\<rparr>"

text \<open>A time text is converted or the process exits with the (negative) response.\<close>

definition time_or_exit :: "int \<Rightarrow> int \<Rightarrow> string \<Rightarrow> halt + int" where
  "time_or_exit off now s = (case get_hh_mm_str off now s of
     (response, Some t) \<Rightarrow> if response < 0 then Inl (Exit response) else Inr t
   | (response, None) \<Rightarrow> Inl (Exit response))"

function fm_args_loop :: "int \<Rightarrow> int \<Rightarrow> string list \<Rightarrow> fm_args \<Rightarrow> halt + fm_args" where
  "fm_args_loop off now [] args = Inr args"
| "fm_args_loop off now (arg # argv) args =
     (if arg_parse_flag arg ''-fd'' ''--from-daemon'' \<noteq> 0 then
        fm_args_loop off now argv (args\<lparr>fa_from_daemon := True\<rparr>)
      else if arg_parse_flag arg ''--debug'' ''--debug'' \<noteq> 0 then
        fm_args_loop off now argv (args\<lparr>fa_debug := True\<rparr>)
      else case arg_parse_int (arg # argv) ''--d-to-c'' ''--d-to-c'' of
        Inl h \<Rightarrow> Inl h
      | Inr (Some (v, rest)) \<Rightarrow>
          fm_args_loop off now rest (args\<lparr>fa_pipes := (fa_pipes args)\<lparr>p_read := v\<rparr>\<rparr>)
      | Inr None \<Rightarrow>
     (case arg_parse_int (arg # argv) ''--c-to-d'' ''--c-to-d'' of
        Inl h \<Rightarrow> Inl h
      | Inr (Some (v, rest)) \<Rightarrow>
          fm_args_loop off now rest (args\<lparr>fa_pipes := (fa_pipes args)\<lparr>p_write := v\<rparr>\<rparr>)
      | Inr None \<Rightarrow>
     (case arg_parse_string (arg # argv) ''-tt'' ''--transfer-time'' of
        Inl h \<Rightarrow> Inl h
      | Inr (Some (v, rest)) \<Rightarrow>
          (case time_or_exit off now v of
             Inl h \<Rightarrow> Inl h
           | Inr t \<Rightarrow> fm_args_loop off now rest (args\<lparr>fa_transfer_time := t\<rparr>))
      | Inr None \<Rightarrow>
     (case arg_parse_string (arg # argv) ''-bt'' ''--backup-time'' of
        Inl h \<Rightarrow> Inl h
      | Inr (Some (v, rest)) \<Rightarrow>
          (case time_or_exit off now v of
             Inl h \<Rightarrow> Inl h
           | Inr t \<Rightarrow> fm_args_loop off now rest (args\<lparr>fa_backup_time := t\<rparr>))
      | Inr None \<Rightarrow>
          if arg_parse_flag arg ''-b'' ''--backup'' \<noteq> 0 then
            fm_args_loop off now argv (args\<lparr>fa_do_backup := True\<rparr>)
          else if arg_parse_flag arg ''-t'' ''--transfer'' \<noteq> 0 then
            fm_args_loop off now argv (args\<lparr>fa_do_transfer := True\<rparr>)
          else if arg_unrecognised arg then Inl (Exit EXIT_FAILURE)
          else fm_args_loop off now argv args))))"
  by pat_completeness auto
termination
  by (relation "measure (\<lambda>(off, now, argv, args). length argv)") (auto dest: value_args_shrink)

definition D_DEFAULT_BACKUP_TIME :: string where "D_DEFAULT_BACKUP_TIME = ''00:30''"
definition D_DEFAULT_TRANSFER_TIME :: string where "D_DEFAULT_TRANSFER_TIME = ''23:30''"

definition default_backup_time :: "int \<Rightarrow> int \<Rightarrow> fm_args \<Rightarrow> halt + fm_args" where
  "default_backup_time off now args =
     (if fa_backup_time args \<noteq> 0 then Inr args
      else (case time_or_exit off now D_DEFAULT_BACKUP_TIME of
              Inl h \<Rightarrow> Inl h | Inr t \<Rightarrow> Inr (args\<lparr>fa_backup_time := t\<rparr>)))"

definition default_transfer_time :: "int \<Rightarrow> int \<Rightarrow> fm_args \<Rightarrow> halt + fm_args" where
  "default_transfer_time off now args =
     (if fa_transfer_time args \<noteq> 0 then Inr args
      else (case time_or_exit off now D_DEFAULT_TRANSFER_TIME of
              Inl h \<Rightarrow> Inl h | Inr t \<Rightarrow> Inr (args\<lparr>fa_transfer_time := t\<rparr>)))"

definition configure_reportman_fm_args :: "int \<Rightarrow> int \<Rightarrow> string list \<Rightarrow> fm_args \<Rightarrow> halt + fm_args" where
  "configure_reportman_fm_args off now argv args =
     (case fm_args_loop off now argv args of
        Inl h \<Rightarrow> Inl h
      | Inr args1 \<Rightarrow>
     (case default_backup_time off now args1 of
        Inl h \<Rightarrow> Inl h
      | Inr args2 \<Rightarrow> default_transfer_time off now args2))"

section \<open>The monitor's arguments\<close>

record monitor_conf =
  log_file :: string
  log_sys_name :: string
  log_to_sys :: bool
  log_to_file :: bool
  log_to_stdout :: bool

record monitor_args =
  ma_from_daemon :: bool
  ma_dirs :: "string list"
  ma_conf :: monitor_conf
  ma_pipes :: ipc_pipes

definition R_REPORTS_DIRECTORY :: string where "R_REPORTS_DIRECTORY = ''/srv/reportman/reports''"
definition R_BACKUP_DIRECTORY :: string where "R_BACKUP_DIRECTORY = ''/srv/reportman/backup''"
definition R_DASHBOARD_DIRECTORY :: string where "R_DASHBOARD_DIRECTORY = ''/srv/reportman/dashboard''"

definition default_dirs :: "string list" where
  "default_dirs = [R_BACKUP_DIRECTORY, R_DASHBOARD_DIRECTORY, R_REPORTS_DIRECTORY]"

definition monitor_args_init :: monitor_args where
  "monitor_args_init = \<lparr>ma_from_daemon = False, ma_dirs = default_dirs,
     ma_conf = \<lparr>log_file = M_LOG_PATH, log_sys_name = ''reportman_mon'', log_to_sys = False,
       log_to_file = True, log_to_stdout = True\<rparr>,
     ma_pipes = \<lparr>p_write = -1, p_read = -1\<rparr>\<rparr>"

text \<open>
  \<open>string_array\<close> holds the directories named so far; every one of them makes the array the
  list of directories to watch.
\<close>

function monitor_args_loop ::
  "string list \<Rightarrow> string list \<Rightarrow> monitor_args \<Rightarrow> halt + monitor_args" where
  "monitor_args_loop string_array [] args = Inr args"
| "monitor_args_loop string_array (arg # argv) args =
     (if arg_parse_flag arg ''-fd'' ''--from-daemon'' \<noteq> 0 then
        monitor_args_loop string_array argv (args\<lparr>ma_from_daemon := True\<rparr>)
      else case arg_parse_int (arg # argv) ''--d-to-c'' ''--d-to-c'' of
        Inl h \<Rightarrow> Inl h
      | Inr (Some (v, rest)) \<Rightarrow>
          monitor_args_loop string_array rest (args\<lparr>ma_pipes := (ma_pipes args)\<lparr>p_read := v\<rparr>\<rparr>)
      | Inr None \<Rightarrow>
     (case arg_parse_int (arg # argv) ''--c-to-d'' ''--c-to-d'' of
        Inl h \<Rightarrow> Inl h
      | Inr (Some (v, rest)) \<Rightarrow>
          monitor_args_loop string_array rest (args\<lparr>ma_pipes := (ma_pipes args)\<lparr>p_write := v\<rparr>\<rparr>)
      | Inr None \<Rightarrow>
     (case arg_parse_string (arg # argv) ''-lf'' ''--log-file'' of
        Inl h \<Rightarrow> Inl h
      | Inr (Some (v, rest)) \<Rightarrow>
          monitor_args_loop string_array rest (args\<lparr>ma_conf := (ma_conf args)\<lparr>log_file := v\<rparr>\<rparr>)
      | Inr None \<Rightarrow>
     (case arg_parse_string (arg # argv) ''-ls'' ''--log-sys-name'' of
        Inl h \<Rightarrow> Inl h
      | Inr (Some (v, rest)) \<Rightarrow>
          monitor_args_loop string_array rest (args\<lparr>ma_conf := (ma_conf args)\<lparr>log_sys_name := v\<rparr>\<rparr>)
      | Inr None \<Rightarrow>
     (case arg_parse_bool (arg # argv) ''--log-to-file'' ''--log-to-file'' of
        Inl h \<Rightarrow> Inl h
      | Inr (Some (v, rest)) \<Rightarrow>
          monitor_args_loop string_array rest (args\<lparr>ma_conf := (ma_conf args)\<lparr>log_to_file := v\<rparr>\<rparr>)
      | Inr None \<Rightarrow>
     (case arg_parse_bool (arg # argv) ''--log-to-sys'' ''--log-to-sys'' of
        Inl h \<Rightarrow> Inl h
      | Inr (Some (v, rest)) \<Rightarrow>
          monitor_args_loop string_array rest (args\<lparr>ma_conf := (ma_conf args)\<lparr>log_to_sys := v\<rparr>\<rparr>)
      | Inr None \<Rightarrow>
          if arg_unrecognised arg then Inl (Exit EXIT_FAILURE)
          else monitor_args_loop (string_array @ [arg]) argv (args\<lparr>ma_dirs := string_array @ [arg]\<rparr>)))))))"
  by pat_completeness auto
termination
  by (relation "measure (\<lambda>(string_array, argv, args). length argv)") (auto dest: value_args_shrink)

definition configure_monitor_args :: "string list \<Rightarrow> monitor_args \<Rightarrow> halt + monitor_args" where
  "configure_monitor_args = monitor_args_loop []"

section \<open>The client's arguments\<close>

record client_arguments =
  ca_daemon_port :: u16
  ca_commands :: "string list"

definition starts_with :: "string \<Rightarrow> string \<Rightarrow> bool" where
  "starts_with str prefix =
     (if length prefix > length str then False else take (length prefix) str = prefix)"

fun configure_client_args :: "string list \<Rightarrow> client_arguments \<Rightarrow> halt + client_arguments" where
  "configure_client_args [] args = Inr args"
| "configure_client_args (arg # argv) args =
     (if arg = ''-p'' \<or> arg = ''--port'' then
        (case argv of
           [] \<Rightarrow> Inl (Exit 1)
         | v # rest \<Rightarrow>
             (case parse_short_arg v of
                Inl h \<Rightarrow> Inl h
              | Inr port \<Rightarrow> configure_client_args rest (args\<lparr>ca_daemon_port := port\<rparr>)))
      else if starts_with arg ''-'' then Inl (Exit EXIT_FAILURE)
      else configure_client_args argv (args\<lparr>ca_commands := ca_commands args @ [arg]\<rparr>))"

section \<open>Evaluating a command line\<close>

text \<open>A name that is not the one asked for, and a name with its value.\<close>

lemma value_args_eval [simp]:
  "a \<noteq> s \<Longrightarrow> a \<noteq> l \<Longrightarrow> arg_parse_int (a # r) s l = Inr None"
  "a \<noteq> s \<Longrightarrow> a \<noteq> l \<Longrightarrow> arg_parse_string (a # r) s l = Inr None"
  "a \<noteq> s \<Longrightarrow> a \<noteq> l \<Longrightarrow> arg_parse_ushort (a # r) s l = Inr None"
  "a \<noteq> s \<Longrightarrow> a \<noteq> l \<Longrightarrow> arg_parse_bool (a # r) s l = Inr None"
  by (simp_all add: value_args_other)

lemma int_arg_taken [simp]:
  "- 2147483648 \<le> i \<Longrightarrow> i \<le> 2147483647 \<Longrightarrow>
   arg_parse_int (s # show_int i # r) s l = Inr (Some (i, r))"
  by (simp add: arg_parse_int_def arg_parse_with_def parse_signed_int_arg_def strtol_show_int
      clamp_long_def LONG_MAX_def LONG_MIN_def)

lemma string_arg_taken [simp]:
  "length v < COMMUNICATION_BUFFER_SIZE \<Longrightarrow> arg_parse_string (s # v # r) s l = Inr (Some (v, r))"
  by (simp add: arg_parse_string_def arg_parse_with_def copy_into_def)

lemma bool_arg_taken [simp]:
  "arg_parse_bool (s # v # r) s l = Inr (Some (to_lower_case v \<noteq> ''true'', r))"
  by (simp add: arg_parse_bool_def arg_parse_with_def parse_bool_arg_def Let_def)

lemma parse_short_show:
  "0 \<le> i \<Longrightarrow> i \<le> 65535 \<Longrightarrow> parse_short_arg (show_int i) = Inr (word_of_int i)"
  by (simp add: parse_short_arg_def strtol_show_int clamp_long_def LONG_MAX_def LONG_MIN_def)

lemma flag_eval [simp]: "arg_parse_flag a s l = (if a = s \<or> a = l then 1 else 0)"
  by (simp add: arg_parse_flag_def R_PARSE_SUCCESS_def R_PARSE_NO_MATCH_def)

text \<open>A directory name: any text that does not begin with a hyphen.\<close>

definition positional :: "string \<Rightarrow> bool" where
  "positional a \<longleftrightarrow> take 1 a \<noteq> ''-''"

lemma positional_no_option: "positional a \<Longrightarrow> a \<noteq> CHR ''-'' # s"
  by (auto simp: positional_def)

lemma monitor_positional:
  "list_all positional ds \<Longrightarrow> monitor_args_loop acc ds args =
     Inr (if ds = [] then args else args\<lparr>ma_dirs := acc @ ds\<rparr>)"
proof (induction ds arbitrary: acc args)
  case (Cons d ds)
  then have p: "positional d" and "list_all positional ds" by simp_all
  have "monitor_args_loop acc (d # ds) args =
      monitor_args_loop (acc @ [d]) ds (args\<lparr>ma_dirs := acc @ [d]\<rparr>)"
    using positional_no_option [OF p] p by (simp add: arg_unrecognised_def positional_def)
  with Cons.IH [OF \<open>list_all positional ds\<close>] show ?case by simp
qed simp

lemma client_positional:
  "list_all positional cs \<Longrightarrow> configure_client_args cs args =
     Inr (args\<lparr>ca_commands := ca_commands args @ cs\<rparr>)"
proof (induction cs arbitrary: args)
  case (Cons c cs)
  then have p: "positional c" by simp
  have "\<not> starts_with c ''-''" using p by (simp add: starts_with_def positional_def)
  with Cons positional_no_option [OF p] show ?case by simp
qed simp

lemma default_times_parse:
  "sscanf hh_mm_format ''00:30'' = [SUShort 0, SUShort 30]"
  "sscanf hh_mm_format ''23:30'' = [SUShort 23, SUShort 30]"
  by code_simp+

lemma time_or_exit_default:
  "time_or_exit off now D_DEFAULT_BACKUP_TIME = Inr (next_target off now 0 30)"
  "time_or_exit off now D_DEFAULT_TRANSFER_TIME = Inr (next_target off now 23 30)"
  by (simp_all add: time_or_exit_def get_hh_mm_str_def default_times_parse
      D_DEFAULT_BACKUP_TIME_def D_DEFAULT_TRANSFER_TIME_def)

section \<open>Properties\<close>

lemma upto_slash_split:
  assumes "CHR ''/'' \<in> set p"
  obtains d f where "p = d @ CHR ''/'' # f" "CHR ''/'' \<notin> set f" "upto_slash p = d @ ''/''"
proof -
  from split_list_last [OF assms] obtain d f where p: "p = d @ CHR ''/'' # f" "CHR ''/'' \<notin> set f"
    by blast
  have "dropWhile (\<lambda>c. c \<noteq> CHR ''/'') (rev f @ CHR ''/'' # rev d) = CHR ''/'' # rev d"
    using p(2) by (subst dropWhile_append2) auto
  then show ?thesis using that p by (simp add: upto_slash_def)
qed

text \<open>
  What a path leads to, as a relation: the specification that the answers of the log file's
  check are measured by.
\<close>

inductive leads :: "bool \<Rightarrow> node \<Rightarrow> string list \<Rightarrow> string list \<Rightarrow> string list \<Rightarrow> bool" for r root where
  arrived: "lookup True root p \<noteq> None \<Longrightarrow> leads r root p [] p"
| stay: "lookup True root p = Some (Dir m es) \<Longrightarrow> may_search r m \<Longrightarrow> leads r root p cs q \<Longrightarrow>
    leads r root p (''.'' # cs) q"
| up: "lookup True root p = Some (Dir m es) \<Longrightarrow> may_search r m \<Longrightarrow> leads r root (butlast p) cs q \<Longrightarrow>
    leads r root p (''..'' # cs) q"
| down: "lookup True root p = Some (Dir m es) \<Longrightarrow> may_search r m \<Longrightarrow> c \<notin> {''.'', ''..''} \<Longrightarrow> map_of es c = Some n \<Longrightarrow>
    leads r root (p @ [c]) cs q \<Longrightarrow> leads r root p (c # cs) q"

lemma walk_leads: "walk r root p cs = Some q \<longleftrightarrow> leads r root p cs q"
proof
  show "leads r root p cs q" if "walk r root p cs = Some q"
    using that
    by (induction r root p cs rule: walk.induct)
      (auto intro: leads.intros split: if_splits option.splits node.splits)
  show "walk r root p cs = Some q" if "leads r root p cs q"
    using that by (induction rule: leads.induct) auto
qed

lemma walk_append: "walk r root p (cs @ ds) = Option.bind (walk r root p cs) (\<lambda>q. walk r root q ds)"
proof (induction r root p cs rule: walk.induct)
  case (1 r root p)
  then show ?case by (cases ds) simp_all
qed (simp split: option.split node.split)

text \<open>A step from a place shows that it is a directory.\<close>

lemma walk_from_dir: "walk r root p (c # cs) = Some q \<Longrightarrow> \<exists>m es. lookup True root p = Some (Dir m es) \<and> may_search r m"
  by (auto split: option.splits node.splits if_splits)

lemma walk_exists: "walk r root p cs = Some q \<Longrightarrow> lookup True root q \<noteq> None"
  by (induction r root p cs rule: walk.induct) (auto split: if_splits option.splits node.splits)

definition somewhere :: "place \<Rightarrow> string \<Rightarrow> bool" where
  "somewhere env path \<longleftrightarrow> path \<noteq> [] \<and>
     (\<exists>q. leads (as_root (pl_fs env)) (fs_root (pl_fs env)) (start_at env path) (components path) q \<and>
        (last path = CHR ''/'' \<longrightarrow> (\<exists>m es. lookup True (fs_root (pl_fs env)) q = Some (Dir m es))))"

lemma reached_somewhere: "reached env path \<noteq> None \<longleftrightarrow> somewhere env path"
  using walk_exists [of "as_root (pl_fs env)" "fs_root (pl_fs env)" "start_at env path" "components path"]
  unfolding reached_def somewhere_def walk_leads [symmetric]
  by (auto split: option.splits node.splits)

lemma reached_none: "reached env path = None \<longleftrightarrow> \<not> somewhere env path"
  using reached_somewhere by blast

subsection \<open>The directory of a path that was reached\<close>

lemma components_slash: "components (x @ CHR ''/'' # y) = components x @ components y"
  by (simp add: components_def split_slash_append)

lemma components_plain: "CHR ''/'' \<notin> set x \<Longrightarrow> components x = (if x = [] then [] else [x])"
  by (simp add: components_def split_slash_plain)

lemma slashes_split: obtains n where "d = strip_slashes d @ replicate n CHR ''/''"
proof -
  let ?t = "takeWhile (\<lambda>c. c = CHR ''/'') (rev d)"
  have "rev d = ?t @ dropWhile (\<lambda>c. c = CHR ''/'') (rev d)" by simp
  then have "d = strip_slashes d @ rev ?t" unfolding strip_slashes_def by (metis rev_append rev_rev_ident)
  moreover have "rev ?t = replicate (length ?t) CHR ''/''"
    by (rule replicate_eqI) (auto dest: set_takeWhileD)
  ultimately show thesis using that by metis
qed

lemma components_slashes: "components (x @ replicate n CHR ''/'') = components x"
proof (induction n)
  case (Suc n)
  have "x @ replicate (Suc n) CHR ''/'' = (x @ replicate n CHR ''/'') @ CHR ''/'' # []"
    by (simp add: replicate_append_same)
  then show ?case using Suc by (simp only: components_slash) (simp add: components_plain)
qed simp

lemma strip_slashes_last: "strip_slashes d \<noteq> [] \<Longrightarrow> last (strip_slashes d) \<noteq> CHR ''/''"
  using hd_dropWhile [of "\<lambda>c. c = CHR ''/''" "rev d"]
  unfolding strip_slashes_def rev_is_Nil_conv by (simp only: last_rev not_False_eq_True simp_thms)

lemma strip_slashes_simps:
  "strip_slashes (d @ ''/'') = strip_slashes d" "f \<noteq> [] \<Longrightarrow> CHR ''/'' \<notin> set f \<Longrightarrow> strip_slashes (d @ CHR ''/'' # f) = d @ CHR ''/'' # f"
  by (simp_all add: strip_slashes_def) (cases f rule: rev_cases; auto)

text \<open>Without its last slashes a path leads as far.\<close>

lemma somewhere_stripped:
  assumes "somewhere env d"
  shows "if strip_slashes d = [] then somewhere env ''/'' else somewhere env (strip_slashes d)"
proof -
  obtain n where n: "d = strip_slashes d @ replicate n CHR ''/''" by (rule slashes_split)
  have c: "components d = components (strip_slashes d)" using components_slashes [of "strip_slashes d" n] n by simp
  show ?thesis
  proof (cases "strip_slashes d = []")
    case True
    then have "last d = CHR ''/''" "take 1 d = ''/''" "components d = []"
      using n assms c by (cases n; simp add: somewhere_def components_plain)+
    then show ?thesis using assms True by (simp add: somewhere_def start_at_def components_def)
  next
    case False
    then have "start_at env (strip_slashes d) = start_at env d"
      unfolding start_at_def by (subst (2) n) (cases "strip_slashes d"; simp)
    then show ?thesis using assms False c strip_slashes_last [OF False] by (auto simp: somewhere_def)
  qed
qed

lemma somewhere_dirname:
  assumes "somewhere env d" "CHR ''/'' \<notin> set f"
  shows "somewhere env (dirname (d @ CHR ''/'' # f))"
proof (cases "f = []")
  case False
  have "upto_slash (d @ CHR ''/'' # f) = d @ ''/''"
    using assms(2) unfolding upto_slash_def by (simp, subst dropWhile_append2) auto
  then show ?thesis
    using somewhere_stripped [OF assms(1)] strip_slashes_simps(2) [OF False assms(2)]
    by (simp add: dirname_def Let_def strip_slashes_simps(1) split: if_splits)
next
  case True
  let ?s = "strip_slashes d"
  let ?r = "as_root (pl_fs env)" and ?root = "fs_root (pl_fs env)"
  show ?thesis
  proof (cases "?s = []")
    case True
    then show ?thesis using somewhere_stripped [OF assms(1)] \<open>f = []\<close>
      by (simp add: dirname_def Let_def strip_slashes_simps(1))
  next
    case s: False
    then obtain q where q: "walk ?r ?root (start_at env ?s) (components ?s) = Some q"
      using somewhere_stripped [OF assms(1)] by (auto simp: somewhere_def walk_leads)
    show ?thesis
    proof (cases "CHR ''/'' \<in> set ?s")
      case False
      then have u: "upto_slash ?s = []" unfolding upto_slash_def by (auto simp: dropWhile_eq_Nil_conv)
      have "start_at env ?s = pl_cwd env" using s False by (cases ?s) (auto simp: start_at_def)
      then obtain m es where "lookup True ?root (pl_cwd env) = Some (Dir m es)" "may_search ?r m"
        using q False s walk_from_dir [of ?r ?root "pl_cwd env" ?s "[]" q] by (auto simp: components_plain)
      then have "leads ?r ?root (pl_cwd env) [''.''] (pl_cwd env)" by (intro leads.intros) auto
      then have "somewhere env ''.''" by (auto simp: somewhere_def start_at_def components_plain)
      then show ?thesis using s u \<open>f = []\<close> by (simp add: dirname_def Let_def strip_slashes_simps(1))
    next
      case True
      then obtain e g where e: "?s = e @ CHR ''/'' # g" "CHR ''/'' \<notin> set g" "upto_slash ?s = e @ ''/''"
        by (rule upto_slash_split)
      then have g: "g \<noteq> []" using strip_slashes_last [OF s] by auto
      have "components ?s = components e @ [g]" using e g by (simp add: components_slash components_plain)
      then obtain q' where q': "walk ?r ?root (start_at env ?s) (components e) = Some q'" "walk ?r ?root q' [g] = Some q"
        using q by (auto simp: walk_append bind_eq_Some_conv)
      obtain m es where dir: "lookup True ?root q' = Some (Dir m es)" using walk_from_dir [OF q'(2)] by blast
      have "start_at env (e @ ''/'') = start_at env ?s" unfolding e(1) start_at_def by (cases e) simp_all
      moreover have "components (e @ ''/'') = components e" using components_slash [of e "[]"] by (simp add: components_plain)
      ultimately have "somewhere env (e @ ''/'')" using q'(1) dir by (auto simp: somewhere_def walk_leads)
      then show ?thesis
        using somewhere_stripped [of env "e @ ''/''"] s e(3) \<open>f = []\<close>
        by (simp add: dirname_def Let_def strip_slashes_simps(1) split: if_splits)
    qed
  qed
qed

text \<open>
  C32: what \<open>__get_path\<close> answers for every text. An empty one is refused with -1. A bare file name
  is accepted exactly when it leads to something, so the log file must already be there. Any
  other path is accepted exactly when the text before its last slash leads to something, with
  dots and double dots followed and whatever it leads to, a regular file too; it is then given
  back as it was. Every refusal is with -4: the checks for a parent directory and for write
  permission never refuse anything, the first because it is already settled, the second because
  \<open>access\<close> is compared with \<open>W_OK\<close> instead of 0. A file in the root directory is always
  refused. A relative path also needs a working directory that can be reached from the root.
\<close>

theorem get_path_correct:
  "get_path env [] = (-1, None) \<and>
   (CHR ''/'' \<notin> set f \<longrightarrow>
      (f \<noteq> [] \<longrightarrow> get_path env f = (if somewhere env f \<and> node_of (pl_fs env) (pl_cwd env) \<noteq> None
         then (0, Some f) else (-4, None))) \<and>
      get_path env (d @ CHR ''/'' # f) =
        (if somewhere env d \<and> (take 1 d = ''/'' \<or> node_of (pl_fs env) (pl_cwd env) \<noteq> None)
         then (0, Some (d @ CHR ''/'' # f)) else (-4, None)) \<and>
      get_path env (CHR ''/'' # f) = (-4, None))"
proof -
  have never: "\<not> has_write_permission_to_parent env x" for x
    by (simp add: has_write_permission_to_parent_def access_w_def W_OK_def split: option.split node.split)
  have slash: "get_path env (d @ CHR ''/'' # f) =
      (if somewhere env d \<and> (take 1 d = ''/'' \<or> node_of (pl_fs env) (pl_cwd env) \<noteq> None)
       then (0, Some (d @ CHR ''/'' # f)) else (-4, None))" if f: "CHR ''/'' \<notin> set f" for d
  proof -
    have "upto_slash (d @ CHR ''/'' # f) = d @ ''/''"
      using f unfolding upto_slash_def by (simp, subst dropWhile_append2) auto
    then have "remove_last_item_path (d @ CHR ''/'' # f) = Some (d, f)" by (simp add: remove_last_item_path_def)
    then show ?thesis using somewhere_dirname [OF _ f, of env d]
      by (auto simp: get_path_def is_path_empty_def expand_path_to_absolute_def never has_path_parent_def
          access_f_def D_COULD_NOT_EXPAND_def D_SUCCESS_def reached_none Let_def simp del: not_None_eq)
  qed
  moreover have "get_path env f = (if somewhere env f \<and> node_of (pl_fs env) (pl_cwd env) \<noteq> None
         then (0, Some f) else (-4, None))" if f: "CHR ''/'' \<notin> set f" "f \<noteq> []"
  proof -
    have "take 1 f \<noteq> ''/''" using f by (cases f) auto
    then show ?thesis using f
      by (simp add: get_path_def is_path_empty_def expand_path_to_absolute_def remove_last_item_path_def
          D_COULD_NOT_EXPAND_def D_SUCCESS_def reached_none del: not_None_eq)
  qed
  moreover have "get_path env [] = (-1, None)"
    by (simp add: get_path_def is_path_empty_def D_INVALID_PATH_FORMAT_def)
  moreover have "get_path env (CHR ''/'' # f) = (-4, None)" if "CHR ''/'' \<notin> set f"
    using slash [OF that, of "[]"] by (simp add: somewhere_def)
  ultimately show ?thesis by blast
qed

definition sample_place :: place where
  "sample_place = \<lparr>pl_fs = \<lparr>fs_root = Dir 0x1FF [(''v'', Dir 0x1FF []), (''w'', Dir 0x1FF [])], as_root = True, fs_umask = 0,
     fs_disk = good_disk\<rparr>, pl_cwd = [''w'']\<rparr>"

theorem get_path_correct_witness:
  "get_path sample_place ''../v/x.log'' = (0, Some ''../v/x.log'') \<and>
   get_path sample_place ''../u/x.log'' = (-4, None) \<and> get_path sample_place ''/x.log'' = (-4, None)"
proof -
  have "reached sample_place ''../v'' \<noteq> None" "reached sample_place ''../u'' = None"
    by (simp_all add: reached_def sample_place_def start_at_def components_def)
  then have "somewhere sample_place ''../v''" "\<not> somewhere sample_place ''../u''"
    using reached_somewhere by blast+
  moreover have "node_of (pl_fs sample_place) (pl_cwd sample_place) \<noteq> None"
    by (simp add: sample_place_def node_of_def)
  ultimately show ?thesis
    using get_path_correct [of sample_place "''x.log''" "''../v''"]
      get_path_correct [of sample_place "''x.log''" "''../u''"] by simp
qed

text \<open>
  C37: a client's command line: an optional port in decimal followed by commands is read as
  exactly that port and those commands, in their order, and a number that is no port ends
  the client with an exit.
\<close>

theorem client_args_correct:
  assumes "list_all positional cs"
  shows "configure_client_args ([''-p'', show_int i] @ cs) \<lparr>ca_daemon_port = REPORTMAND_BIND_PORT, ca_commands = []\<rparr> =
      (if 0 \<le> i \<and> i \<le> 65535 then Inr \<lparr>ca_daemon_port = word_of_int i, ca_commands = cs\<rparr>
       else Inl (Exit EXIT_FAILURE)) \<and>
    configure_client_args cs \<lparr>ca_daemon_port = REPORTMAND_BIND_PORT, ca_commands = []\<rparr> =
      Inr \<lparr>ca_daemon_port = REPORTMAND_BIND_PORT, ca_commands = cs\<rparr>"
  using client_positional [OF assms]
  by (auto simp: parse_short_arg_def strtol_show_int clamp_long_def LONG_MAX_def LONG_MIN_def)

theorem client_args_correct_witness:
  "configure_client_args ([''-p'', show_int 7771] @ [''backup'', ''close''])
     \<lparr>ca_daemon_port = REPORTMAND_BIND_PORT, ca_commands = []\<rparr> =
   Inr \<lparr>ca_daemon_port = 7771, ca_commands = [''backup'', ''close'']\<rparr>"
  using client_args_correct [of "[''backup'', ''close'']" 7771] by (simp add: positional_def)

end
