(* ===== verification/RM_Spawn.thy ===== *)
theory RM_Spawn
  imports RM_Config RM_Startup
begin

text \<open>
  Starting a child: \<open>__initialize_pipes\<close>, \<open>start_child_process\<close> and the argument vector the
  child is executed with (\<open>src/libs/reportman.c\<close>), and \<open>__child_spawn\<close> (\<open>reportmand.c\<close>), over
  the system state of \<open>RM_OS\<close>. The lemmas connect the two processes: the descriptors the
  child reads from its command line are the other ends of the daemon's.
\<close>

section \<open>Descriptors\<close>

definition free_fd :: "(fd \<times> fdobj) list \<Rightarrow> fd" where
  "free_fd tab = hd (filter (\<lambda>f. f \<notin> fst ` set tab) (map int [0..<Suc (length tab)]))"

lemma free_fd:
  "free_fd tab \<notin> fst ` set tab" "0 \<le> free_fd tab" "free_fd tab \<le> int (length tab)"
proof -
  let ?c = "map int [0..<Suc (length tab)]" and ?P = "\<lambda>f. f \<notin> fst ` set tab"
  have "card (fst ` set tab) \<le> length tab"
    by (meson card_image_le card_length finite_set order_trans)
  moreover have "card (set ?c) = Suc (length tab)" by (subst distinct_card) (auto simp: distinct_map inj_on_def)
  ultimately have "\<not> set ?c \<subseteq> fst ` set tab"
    by (metis List.finite_set card_mono finite_imageI not_less_eq_eq order_trans)
  then have "filter ?P ?c \<noteq> []" by (auto simp: filter_empty_conv)
  then have "free_fd tab \<in> {f \<in> set ?c. ?P f}"
    unfolding free_fd_def set_filter [symmetric] by (rule hd_in_set)
  then show "free_fd tab \<notin> fst ` set tab" "0 \<le> free_fd tab" "free_fd tab \<le> int (length tab)"
    by (auto simp del: upt_Suc)
qed

text \<open>What the kernel answers to the calls of one start.\<close>

record spawn_env =
  se_pipe1 :: bool
  se_pipe2 :: bool
  se_fork :: bool
  se_exec :: bool

text \<open>\<open>pipe(2)\<close>: two lowest free descriptors on a new pipe, or nothing.\<close>

definition sys_pipe :: "bool \<Rightarrow> pid \<Rightarrow> (os, (fd \<times> fd) option) prog" where
  "sys_pipe ok me s =
     (case map_of (procs s) me of
        None \<Rightarrow> (Inr None, s)
      | Some p \<Rightarrow>
          if \<not> ok then (Inr None, s)
          else
            (let n = npipe s; r = free_fd (fdtab p); tab = (r, PipeR n) # fdtab p; w = free_fd tab in
             (Inr (Some (r, w)),
              upd_proc me (\<lambda>p. p\<lparr>fdtab := (w, PipeW n) # tab\<rparr>)
                (s\<lparr>npipe := Suc n, bufs := (bufs s)(n := []), faulty := (faulty s)(n := False)\<rparr>))))"

definition sys_close :: "pid \<Rightarrow> fd \<Rightarrow> (os, unit) prog" where
  "sys_close me f = modify (upd_proc me (\<lambda>p. p\<lparr>fdtab := filter (\<lambda>e. fst e \<noteq> f) (fdtab p)\<rparr>))"

text \<open>\<open>fork(2)\<close>: the child has the parent's descriptors, dispositions and blocked signals,
  but no signal is pending for it.\<close>

definition sys_fork :: "bool \<Rightarrow> pid \<Rightarrow> (os, pid option) prog" where
  "sys_fork ok me s =
     (case map_of (procs s) me of
        None \<Rightarrow> (Inr None, s)
      | Some p \<Rightarrow>
          if \<not> ok then (Inr None, s)
          else (Inr (Some (npid s)),
                s\<lparr>procs := (npid s, p\<lparr>sigpipe_hits := 0,
                  pending := map_option (\<lambda>_. []) (pending p)\<rparr>) # procs s, npid := npid s + 1\<rparr>))"

definition proc_ends :: "pid \<Rightarrow> os \<Rightarrow> os" where
  "proc_ends c s = s\<lparr>procs := filter (\<lambda>e. fst e \<noteq> c) (procs s),
     zombies := (if autoreap s then zombies s else c # zombies s)\<rparr>"

text \<open>\<open>execv\<close> keeps descriptors and resets a handled signal to its default.\<close>

definition exec_proc :: "pid \<Rightarrow> os \<Rightarrow> os" where
  "exec_proc c = upd_proc c (\<lambda>p. p\<lparr>sigpipe := (if sigpipe p = SigHandler then SigDfl else sigpipe p)\<rparr>)"

section \<open>Starting a child\<close>

record child_process =
  cp_pid :: pid
  cp_pipes :: ipc_pipes
  max_retries :: u16
  retries :: u16
  executable :: string
  is_alive :: bool

definition D_MAX_INTERPROCESS_ARGUMENTS :: nat where "D_MAX_INTERPROCESS_ARGUMENTS = 25"

text \<open>\<open>None\<close> is the null pointer that ends an array; running past its end is undefined.\<close>

fun scan_extra :: "nat \<Rightarrow> string option list \<Rightarrow> halt + string list" where
  "scan_extra arg_count [] = Inl Undefined"
| "scan_extra arg_count (None # as) = Inr []"
| "scan_extra arg_count (Some a # as) =
     (if arg_count > D_MAX_INTERPROCESS_ARGUMENTS then Inl (Exit EXIT_FAILURE)
      else (case scan_extra (Suc arg_count) as of Inl h \<Rightarrow> Inl h | Inr rest \<Rightarrow> Inr (a # rest)))"

text \<open>
  The vector \<open>args\<close>: the number of elements it is declared with, and what is stored into
  it, the terminating null pointer last.
\<close>

definition child_args :: "string \<Rightarrow> fd \<Rightarrow> fd \<Rightarrow> string list \<Rightarrow> nat \<times> string option list" where
  "child_args exe parent_to_child child_to_parent extra =
     (length extra + 6,
      map Some ([exe, ''--from-daemon'', ''--d-to-c'',
        snprintf_buf COMMUNICATION_BUFFER_SIZE (show_int parent_to_child), ''--c-to-d'',
        snprintf_buf COMMUNICATION_BUFFER_SIZE (show_int child_to_parent)] @ extra) @ [None])"

lemma child_vector_overflow:
  "length (snd (child_args exe r w extra)) = Suc (fst (child_args exe r w extra))"
  by (simp add: child_args_def)

text \<open>
  What becomes of the child: it runs the executable with a vector of arguments, or it ends
  before. The terminating null pointer is stored one element behind the array \<open>args\<close>
  (\<open>child_vector_overflow\<close>), at every start of every child. That is undefined behaviour; so that the
  program can be followed beyond it, the model lets the store land in unused stack space, the
  only case in which the program works.
\<close>

datatype child_fate = Runs "string list" | Dies halt

definition child_vector :: "string \<Rightarrow> fd \<Rightarrow> fd \<Rightarrow> string list \<Rightarrow> string list" where
  "child_vector exe r w extra = map the (takeWhile (\<lambda>a. a \<noteq> None) (snd (child_args exe r w extra)))"

definition child_branch ::
  "spawn_env \<Rightarrow> pid \<Rightarrow> string \<Rightarrow> string option list option \<Rightarrow> fd \<Rightarrow> fd \<times> fd \<Rightarrow> fd \<times> fd \<Rightarrow> (os, child_fate) prog" where
  "child_branch env c exe extra_args d_socket parent_pipes child_pipes =
     bnd (sys_close c d_socket) (\<lambda>_.
     bnd (sys_close c (snd parent_pipes)) (\<lambda>_.
     bnd (sys_close c (fst child_pipes)) (\<lambda>_.
       case (case extra_args of None \<Rightarrow> Inr [] | Some as \<Rightarrow> scan_extra 0 as) of
         Inl h \<Rightarrow> bnd (modify (proc_ends c)) (\<lambda>_. ret (Dies h))
       | Inr extra \<Rightarrow>
           if \<not> se_exec env then bnd (modify (proc_ends c)) (\<lambda>_. ret (Dies (Exit EXIT_FAILURE)))
           else bnd (modify (exec_proc c)) (\<lambda>_.
             ret (Runs (child_vector exe (fst parent_pipes) (snd child_pipes) extra))))))"

definition initialize_pipes :: "spawn_env \<Rightarrow> pid \<Rightarrow> (os, ((fd \<times> fd) \<times> (fd \<times> fd)) option) prog" where
  "initialize_pipes env me =
     bnd (sys_pipe (se_pipe1 env) me) (\<lambda>child_pipes. case child_pipes of
       None \<Rightarrow> ret None
     | Some c \<Rightarrow> bnd (sys_pipe (se_pipe2 env) me) (\<lambda>daemon_pipes. case daemon_pipes of
         None \<Rightarrow> ret None
       | Some d \<Rightarrow> ret (Some (d, c))))"

text \<open>
  The result, the process struct and the fate of the child. The two processes only touch
  their own descriptors here, so the child's part is run first.
\<close>

definition start_child_process ::
  "spawn_env \<Rightarrow> pid \<Rightarrow> child_process \<Rightarrow> string option list option \<Rightarrow> fd \<Rightarrow>
     (os, int \<times> child_process \<times> child_fate option) prog" where
  "start_child_process env me cp extra_args d_socket =
     bnd (initialize_pipes env me) (\<lambda>pipes. case pipes of
       None \<Rightarrow> ret (D_FAILURE, cp, None)
     | Some (parent_pipes, child_pipes) \<Rightarrow>
         bnd (sys_fork (se_fork env) me) (\<lambda>fork_pid. case fork_pid of
           None \<Rightarrow> stop (Exit EXIT_FAILURE)
         | Some c \<Rightarrow>
             bnd (child_branch env c (executable cp) extra_args d_socket parent_pipes child_pipes) (\<lambda>fate.
             bnd (sys_close me (fst parent_pipes)) (\<lambda>_.
             bnd (sys_close me (snd child_pipes)) (\<lambda>_.
               ret (c, cp\<lparr>cp_pipes := \<lparr>p_write = snd parent_pipes, p_read = fst child_pipes\<rparr>,
                          cp_pid := c, is_alive := True\<rparr>, Some fate))))))"

text \<open>
  \<open>__child_spawn\<close>: the result of \<open>start_child_process\<close> is not looked at. \<open>world\<close> is what the
  other processes do before the daemon's \<open>select\<close> returns.
\<close>

definition child_spawn ::
  "spawn_env \<Rightarrow> (os \<Rightarrow> os) \<Rightarrow> pid \<Rightarrow> child_process \<Rightarrow> string option list option \<Rightarrow> fd \<Rightarrow> u64 \<Rightarrow>
     (os, child_process \<times> child_fate option) prog" where
  "child_spawn env world me cp extra_args d_socket junk =
     bnd (start_child_process env me cp extra_args d_socket) (\<lambda>(r, cp', fate).
     bnd (modify world) (\<lambda>_.
     bnd (acknowledge_client me (cp_pipes cp') junk) (\<lambda>_. ret (cp', fate))))"

section \<open>What a start leaves behind\<close>

lemma procs_upd_proc [simp]:
  "map_of (procs (upd_proc i f s)) x = (if x = i then map_option f (map_of (procs s) x) else map_of (procs s) x)"
proof -
  have "map_of (map (\<lambda>(j, p). (j, if j = i then f p else p)) l) x =
      (if x = i then map_option f (map_of l x) else map_of l x)" for l
    by (induction l) auto
  then show ?thesis by (simp add: upd_proc_def)
qed

lemma upd_proc_fields [simp]:
  "bufs (upd_proc i f s) = bufs s" "faulty (upd_proc i f s) = faulty s" "npipe (upd_proc i f s) = npipe s"
  "npid (upd_proc i f s) = npid s" "zombies (upd_proc i f s) = zombies s" "autoreap (upd_proc i f s) = autoreap s"
  by (simp_all add: upd_proc_def)

lemma map_of_closed: "map_of (filter (\<lambda>e. fst e \<noteq> f) t) x = (if x = f then None else map_of t x)"
  by (induction t) auto

lemma fd_obj_closed:
  "fd_obj (upd_proc i (\<lambda>p. p\<lparr>fdtab := filter (\<lambda>e. fst e \<noteq> f) (fdtab p)\<rparr>) s) x g =
    (if x = i \<and> g = f then None else fd_obj s x g)"
  by (auto simp: fd_obj_def fds_of_def map_of_closed split: option.split)

lemma fd_obj_exec: "fd_obj (exec_proc c s) x g = fd_obj s x g"
  by (auto simp: fd_obj_def fds_of_def exec_proc_def split: option.split)

lemma not_in_map_of: "f \<notin> fst ` set t \<Longrightarrow> map_of t f = None"
  by (simp add: map_of_eq_None_iff)

lemma sys_pipe_run:
  assumes "map_of (procs s) me = Some p"
  shows "sys_pipe True me s = (Inr (Some (free_fd (fdtab p), free_fd ((free_fd (fdtab p), PipeR (npipe s)) # fdtab p))),
     upd_proc me (\<lambda>q. q\<lparr>fdtab := (free_fd ((free_fd (fdtab p), PipeR (npipe s)) # fdtab p), PipeW (npipe s)) #
        (free_fd (fdtab p), PipeR (npipe s)) # fdtab p\<rparr>)
       (s\<lparr>npipe := Suc (npipe s), bufs := (bufs s)(npipe s := []), faulty := (faulty s)(npipe s := False)\<rparr>))"
  using assms by (simp add: sys_pipe_def Let_def)

lemma sys_fork_run:
  assumes "map_of (procs s) me = Some p"
  shows "sys_fork True me s = (Inr (Some (npid s)),
     s\<lparr>procs := (npid s, p\<lparr>sigpipe_hits := 0,
                  pending := map_option (\<lambda>_. []) (pending p)\<rparr>) # procs s, npid := npid s + 1\<rparr>)"
  using assms by (simp add: sys_fork_def)

text \<open>The four new descriptors, in the order the kernel gives them out.\<close>

definition new_fds :: "(fd \<times> fdobj) list \<Rightarrow> nat \<Rightarrow> fd \<times> fd \<times> fd \<times> fd" where
  "new_fds T n =
     (let cr = free_fd T; T1 = (cr, PipeR n) # T; cw = free_fd T1; T2 = (cw, PipeW n) # T1;
          pr = free_fd T2; T3 = (pr, PipeR (Suc n)) # T2; pw = free_fd T3 in (cr, cw, pr, pw))"

lemma new_fds_fresh:
  assumes "new_fds T n = (cr, cw, pr, pw)"
  shows "distinct [cr, cw, pr, pw]" "\<forall>f \<in> {cr, cw, pr, pw}. f \<notin> fst ` set T \<and> 0 \<le> f \<and> f \<le> int (length T) + 3"
proof -
  from assms have e: "cr = free_fd T" "cw = free_fd ((cr, PipeR n) # T)"
    "pr = free_fd ((cw, PipeW n) # (cr, PipeR n) # T)"
    "pw = free_fd ((pr, PipeR (Suc n)) # (cw, PipeW n) # (cr, PipeR n) # T)"
    by (auto simp: new_fds_def Let_def)
  note F = free_fd [of T, folded e] free_fd [of "(cr, PipeR n) # T", folded e]
    free_fd [of "(cw, PipeW n) # (cr, PipeR n) # T", folded e]
    free_fd [of "(pr, PipeR (Suc n)) # (cw, PipeW n) # (cr, PipeR n) # T", folded e]
  show "distinct [cr, cw, pr, pw]" using F by auto
  show "\<forall>f \<in> {cr, cw, pr, pw}. f \<notin> fst ` set T \<and> 0 \<le> f \<and> f \<le> int (length T) + 3" using F by auto
qed

lemma start_child_run:
  assumes env: "env = \<lparr>se_pipe1 = True, se_pipe2 = True, se_fork = True, se_exec = True\<rparr>"
    and me: "map_of (procs s) me = Some p" and c: "c = npid s" "map_of (procs s) c = None"
    and fds: "new_fds (fdtab p) (npipe s) = (cr, cw, pr, pw)"
    and sock: "d_socket \<in> fst ` set (fdtab p) \<or> d_socket < 0"
    and extra: "(case extra_args of None \<Rightarrow> Inr [] | Some as \<Rightarrow> scan_extra 0 as) = Inr extra"
  obtains s' where "start_child_process env me cp extra_args d_socket s =
      (Inr (c, cp\<lparr>cp_pipes := \<lparr>p_write = pw, p_read = cr\<rparr>, cp_pid := c, is_alive := True\<rparr>,
        Some (Runs (child_vector (executable cp) pr cw extra))), s')"
    "link s' c cw me cr (npipe s)" "link s' me pw c pr (Suc (npipe s))"
    "bufs s' (npipe s) = []" "bufs s' (Suc (npipe s)) = []"
proof -
  let ?n = "npipe s"
  from fds have e: "cr = free_fd (fdtab p)" "cw = free_fd ((cr, PipeR ?n) # fdtab p)"
    "pr = free_fd ((cw, PipeW ?n) # (cr, PipeR ?n) # fdtab p)"
    "pw = free_fd ((pr, PipeR (Suc ?n)) # (cw, PipeW ?n) # (cr, PipeR ?n) # fdtab p)"
    by (auto simp: new_fds_def Let_def)
  note fresh = new_fds_fresh [OF fds]
  have ne: "cr \<noteq> cw" "cr \<noteq> pr" "cr \<noteq> pw" "cw \<noteq> pr" "cw \<noteq> pw" "pr \<noteq> pw"
    "cw \<noteq> cr" "pr \<noteq> cr" "pw \<noteq> cr" "pr \<noteq> cw" "pw \<noteq> cw" "pw \<noteq> pr"
    using fresh(1) by auto
  have dc: "c \<noteq> me" using me c by auto
  let ?T = "(pw, PipeW (Suc ?n)) # (pr, PipeR (Suc ?n)) # (cw, PipeW ?n) # (cr, PipeR ?n) # fdtab p"
  define s1 where "s1 = snd (sys_pipe True me s)"
  have p1: "sys_pipe True me s = (Inr (Some (cr, cw)), s1)"
    and m1: "map_of (procs s1) me = Some (p\<lparr>fdtab := (cw, PipeW ?n) # (cr, PipeR ?n) # fdtab p\<rparr>)"
    and f1: "npipe s1 = Suc ?n" "npid s1 = c" "map_of (procs s1) c = None" "\<not> faulty s1 ?n" "bufs s1 ?n = []"
    using sys_pipe_run [OF me] me c dc by (auto simp: s1_def e(1,2))
  define s2 where "s2 = snd (sys_pipe True me s1)"
  have p2: "sys_pipe True me s1 = (Inr (Some (pr, pw)), s2)"
    and m2: "map_of (procs s2) me = Some (p\<lparr>fdtab := ?T\<rparr>)"
    and f2: "npid s2 = c" "map_of (procs s2) c = None" "\<not> faulty s2 ?n" "bufs s2 ?n = []"
      "\<not> faulty s2 (Suc ?n)" "bufs s2 (Suc ?n) = []"
    using sys_pipe_run [OF m1] m1 f1 dc by (auto simp: s2_def e(3,4))
  define s3 where "s3 = snd (sys_fork True me s2)"
  have p3: "sys_fork True me s2 = (Inr (Some c), s3)"
    and m3: "map_of (procs s3) me = Some (p\<lparr>fdtab := ?T\<rparr>)"
      "map_of (procs s3) c = Some (p\<lparr>fdtab := ?T, sigpipe_hits := 0, pending := map_option (\<lambda>_. []) (pending p)\<rparr>)"
    and f3: "faulty s3 = faulty s2" "bufs s3 = bufs s2"
    using sys_fork_run [OF m2] m2 f2 dc by (auto simp: s3_def)
  let ?close = "\<lambda>i f. upd_proc i (\<lambda>p. p\<lparr>fdtab := filter (\<lambda>e. fst e \<noteq> f) (fdtab p)\<rparr>)"
  define s4 where "s4 = exec_proc c (?close c cr (?close c pw (?close c d_socket s3)))"
  define s5 where "s5 = ?close me cw (?close me pr s4)"
  have run: "start_child_process env me cp extra_args d_socket s =
      (Inr (c, cp\<lparr>cp_pipes := \<lparr>p_write = pw, p_read = cr\<rparr>, cp_pid := c, is_alive := True\<rparr>,
        Some (Runs (child_vector (executable cp) pr cw extra))), s5)"
    by (simp add: start_child_process_def initialize_pipes_def child_branch_def sys_close_def
        prog_simps p1 p2 p3 env extra s4_def s5_def)
  have o3: "fd_obj s3 me f = map_of ?T f" "fd_obj s3 c f = map_of ?T f" for f
    using m3 by (simp_all add: fd_obj_def fds_of_def)
  have "fd_obj s5 me f = (if f = cw \<or> f = pr then None else map_of ?T f)" for f
    using dc by (auto simp only: s5_def s4_def fd_obj_closed fd_obj_exec o3 simp_thms split: if_split)
  then have d: "fd_obj s5 me cr = Some (PipeR ?n)" "fd_obj s5 me pw = Some (PipeW (Suc ?n))"
    using ne by simp_all
  have "fd_obj s5 c f = (if f = cr \<or> f = pw \<or> f = d_socket then None else map_of ?T f)" for f
    using dc by (auto simp only: s5_def s4_def fd_obj_closed fd_obj_exec o3 simp_thms split: if_split)
  moreover have "cw \<noteq> d_socket" "pr \<noteq> d_socket" using sock fresh(2) by auto
  ultimately have k: "fd_obj s5 c cw = Some (PipeW ?n)" "fd_obj s5 c pr = Some (PipeR (Suc ?n))"
    using ne by simp_all
  have "\<not> faulty s5 ?n" "\<not> faulty s5 (Suc ?n)" "bufs s5 ?n = []" "bufs s5 (Suc ?n) = []"
    using f2 f3 by (simp_all add: s5_def s4_def exec_proc_def)
  then show ?thesis using that [OF run] d k by (simp add: link_def)
qed

section \<open>The child's command line\<close>

lemma show_nat_length: "n < 10 ^ k \<Longrightarrow> 0 < k \<Longrightarrow> length (show_nat n) \<le> k"
proof (induction k arbitrary: n)
  case (Suc k)
  show ?case
  proof (cases "n < 10")
    case True
    then show ?thesis by (subst show_nat.simps) simp
  next
    case False
    then have "0 < k" using Suc.prems by (cases k) auto
    moreover have "n div 10 < 10 ^ k" using Suc.prems by auto
    ultimately have "length (show_nat (n div 10)) \<le> k" using Suc.IH by simp
    with False show ?thesis by (subst show_nat.simps) simp
  qed
qed simp

lemma show_fd_fits:
  assumes "0 \<le> f" "f \<le> 2147483647"
  shows "snprintf_buf COMMUNICATION_BUFFER_SIZE (show_int f) = show_int f"
proof -
  have "nat f < 10 ^ 10" using assms by simp
  then have "length (show_nat (nat f)) \<le> 10" by (rule show_nat_length) simp
  then show ?thesis using assms
    by (simp add: snprintf_buf_def show_int_def COMMUNICATION_BUFFER_SIZE_def)
qed

lemma child_vector_eq:
  assumes "0 \<le> r" "r \<le> 2147483647" "0 \<le> w" "w \<le> 2147483647"
  shows "child_vector exe r w extra =
    [exe, ''--from-daemon'', ''--d-to-c'', show_int r, ''--c-to-d'', show_int w] @ extra"
proof -
  have "map the (takeWhile (\<lambda>a. a \<noteq> None) (map Some xs @ [None])) = xs" for xs :: "string list"
    by (induction xs) auto
  then show ?thesis
    unfolding child_vector_def child_args_def snd_conv using assms by (simp only: show_fd_fits)
qed

lemma fm_reads_vector:
  assumes "0 \<le> r" "r \<le> 2147483647" "0 \<le> w" "w \<le> 2147483647"
  shows "\<exists>fa. configure_reportman_fm_args off now (tl (child_vector exe r w [])) fm_args_init = Inr fa \<and>
    fa_from_daemon fa \<and> fa_pipes fa = \<lparr>p_write = w, p_read = r\<rparr>"
  unfolding child_vector_eq [OF assms] using assms
  by (auto simp: configure_reportman_fm_args_def fm_args_init_def default_backup_time_def
      default_transfer_time_def time_or_exit_default)

lemma monitor_reads_vector:
  assumes "0 \<le> r" "r \<le> 2147483647" "0 \<le> w" "w \<le> 2147483647" "list_all positional ds"
  shows "configure_monitor_args (tl (child_vector exe r w ds)) monitor_args_init =
    Inr (monitor_args_init\<lparr>ma_from_daemon := True, ma_pipes := \<lparr>p_write = w, p_read = r\<rparr>,
      ma_dirs := (if ds = [] then default_dirs else ds)\<rparr>)"
  unfolding child_vector_eq [OF assms(1-4)] using assms(1-4)
  by (simp add: configure_monitor_args_def monitor_args_init_def monitor_positional [OF assms(5)])

lemma scan_extra_iff:
  "scan_extra n as = Inr xs \<longleftrightarrow>
     (\<exists>rest. as = map Some xs @ None # rest) \<and> (xs = [] \<or> n + length xs \<le> 26)"
proof (induction n as arbitrary: xs rule: scan_extra.induct)
  case (2 n as)
  then show ?case by (cases xs) auto
next
  case (3 n a as)
  have step: "scan_extra n (Some a # as) = Inr xs \<longleftrightarrow>
      n \<le> 25 \<and> (\<exists>ys. xs = a # ys \<and> scan_extra (Suc n) as = Inr ys)"
    by (auto simp: D_MAX_INTERPROCESS_ARGUMENTS_def split: sum.split)
  show ?case
  proof (cases "n \<le> 25")
    case True
    then have "\<not> n > D_MAX_INTERPROCESS_ARGUMENTS" by (simp add: D_MAX_INTERPROCESS_ARGUMENTS_def)
    from step "3.IH" [OF this] True show ?thesis by (cases xs) auto
  qed (use step in \<open>cases xs; auto\<close>)
qed simp

section \<open>Properties\<close>

text \<open>
  C5: when \<open>start_child_process\<close> starts the file manager, the child is connected to the
  daemon in both directions: it reads its end of the two pipes from its command line
  (\<open>__configure_reportman_fm_args\<close> on what \<open>start_child_process\<close> wrote with \<open>snprintf\<close>), these
  are the opposite ends of the pipes stored in the daemon's struct, and both pipes are
  empty. This is the situation from which the start-up protocol is shown to agree.
\<close>

theorem spawn_connects:
  assumes "map_of (procs s) me = Some p" "map_of (procs s) (npid s) = None"
    "d_socket \<in> fst ` set (fdtab p) \<or> d_socket < 0" "length (fdtab p) < 2000000000"
  shows "\<exists>s' cp' argv fa.
    start_child_process \<lparr>se_pipe1 = True, se_pipe2 = True, se_fork = True, se_exec = True\<rparr>
      me cp None d_socket s = (Inr (npid s, cp', Some (Runs argv)), s') \<and>
    configure_reportman_fm_args off now (tl argv) fm_args_init = Inr fa \<and> fa_from_daemon fa \<and>
    connected \<lparr>daemon_pid = me, child_pid = npid s, d_pipes = cp_pipes cp', c_pipes = fa_pipes fa,
      t_backup = b, t_transfer = t, s_junk = j\<rparr> (npipe s) (Suc (npipe s)) s' \<and>
    bufs s' (npipe s) = [] \<and> bufs s' (Suc (npipe s)) = []"
proof -
  obtain cr cw pr pw where fds: "new_fds (fdtab p) (npipe s) = (cr, cw, pr, pw)"
    by (metis prod_cases4)
  obtain s' where run: "start_child_process \<lparr>se_pipe1 = True, se_pipe2 = True, se_fork = True, se_exec = True\<rparr>
      me cp None d_socket s =
      (Inr (npid s, cp\<lparr>cp_pipes := \<lparr>p_write = pw, p_read = cr\<rparr>, cp_pid := npid s, is_alive := True\<rparr>,
        Some (Runs (child_vector (executable cp) pr cw []))), s')"
    and l: "link s' (npid s) cw me cr (npipe s)" "link s' me pw (npid s) pr (Suc (npipe s))"
      "bufs s' (npipe s) = []" "bufs s' (Suc (npipe s)) = []"
    by (rule start_child_run [OF refl assms(1) refl assms(2) fds assms(3), of None "[]"]) simp_all
  have "\<forall>f \<in> {cr, cw, pr, pw}. 0 \<le> f \<and> f \<le> 2147483647"
    using new_fds_fresh(2) [OF fds] assms(4) by auto
  then obtain fa where "configure_reportman_fm_args off now (tl (child_vector (executable cp) pr cw [])) fm_args_init = Inr fa"
    "fa_from_daemon fa" "fa_pipes fa = \<lparr>p_write = cw, p_read = pr\<rparr>"
    using fm_reads_vector [of pr cw off now "executable cp"] by auto
  with run l show ?thesis by (fastforce simp: connected_def)
qed

definition lone_daemon :: os where
  "lone_daemon = \<lparr>procs = [(1, \<lparr>fdtab = [(0, OtherFd 0), (3, OtherFd 3)], sigpipe = SigDfl,
     sigpipe_hits = 0, pending = None\<rparr>)], zombies = [], autoreap = True, bufs = (\<lambda>_. []),
     faulty = (\<lambda>_. False), npipe = 0, npid = 2\<rparr>"

definition sample_child :: child_process where
  "sample_child = \<lparr>cp_pid = -1, cp_pipes = \<lparr>p_write = -1, p_read = -1\<rparr>, max_retries = 3, retries = 0,
     executable = ''reportman_fm'', is_alive = False\<rparr>"

theorem spawn_connects_witness:
  "\<exists>s' cp' argv fa.
    start_child_process \<lparr>se_pipe1 = True, se_pipe2 = True, se_fork = True, se_exec = True\<rparr>
      1 sample_child None 3 lone_daemon = (Inr (2, cp', Some (Runs argv)), s') \<and>
    configure_reportman_fm_args 0 1700000000 (tl argv) fm_args_init = Inr fa \<and> fa_from_daemon fa \<and>
    connected \<lparr>daemon_pid = 1, child_pid = 2, d_pipes = cp_pipes cp', c_pipes = fa_pipes fa,
      t_backup = 0, t_transfer = 1, s_junk = 0\<rparr> 0 1 s'"
  using spawn_connects [of lone_daemon 1 "\<lparr>fdtab = [(0, OtherFd 0), (3, OtherFd 3)], sigpipe = SigDfl,
     sigpipe_hits = 0, pending = None\<rparr>" 3 sample_child 0 1700000000 0 1 0]
  by (fastforce simp: lone_daemon_def)

text \<open>
  C33: the monitor started by the daemon reads back its pipes and exactly the directories it
  was given, in their order, or the three default ones when it was given none, for every
  list of directories whose names do not begin with a hyphen.
\<close>

theorem monitor_args_roundtrip:
  assumes "0 \<le> r" "r \<le> 2147483647" "0 \<le> w" "w \<le> 2147483647" "list_all positional ds"
  shows "configure_monitor_args (tl (child_vector exe r w ds)) monitor_args_init =
    Inr (monitor_args_init\<lparr>ma_from_daemon := True, ma_pipes := \<lparr>p_write = w, p_read = r\<rparr>,
      ma_dirs := (if ds = [] then default_dirs else ds)\<rparr>)"
  by (rule monitor_reads_vector [OF assms])

theorem monitor_args_roundtrip_witness:
  "configure_monitor_args (tl (child_vector ''reportman_mon'' 4 5 [''/tmp'']))  monitor_args_init =
    Inr (monitor_args_init\<lparr>ma_from_daemon := True, ma_pipes := \<lparr>p_write = 5, p_read = 4\<rparr>,
      ma_dirs := [''/tmp'']\<rparr>)"
  using monitor_args_roundtrip [of 4 5 "[''/tmp'']"] by (simp add: positional_def)

text \<open>
  The extra arguments are accepted exactly when they are ended by a null pointer and are
  at most 26, and the vector built from them always needs one element more than the array
  it is stored into has. The daemon's own array of three directories is not ended by a null
  pointer, so starting the monitor with it runs past its end.
\<close>

lemma extra_args_bounds:
  "(scan_extra 0 as = Inr xs) = ((\<exists>rest. as = map Some xs @ None # rest) \<and> length xs \<le> 26) \<and>
   length (snd (child_args exe r w xs)) = fst (child_args exe r w xs) + 1 \<and>
   scan_extra 0 (map Some [R_REPORTS_DIRECTORY, R_BACKUP_DIRECTORY, R_DASHBOARD_DIRECTORY]) = Inl Undefined"
  by (auto simp: scan_extra_iff child_args_def D_MAX_INTERPROCESS_ARGUMENTS_def)

end
