(* ===== verification/RM_Health.thy ===== *)
theory RM_Health
  imports RM_Spawn RM_Timers
begin

text \<open>
  The daemon's state and what it does to its children (\<open>reportmand.c\<close>): \<open>__send_health_probe\<close>,
  \<open>__health_probe_child_process\<close>, \<open>__handle_sigpipe\<close>, \<open>__kill_children\<close> and \<open>__clean_close\<close>. What
  the other processes do while the daemon waits is an argument, one function on the
  system state per wait.
\<close>

section \<open>State\<close>

datatype which = FM | MON

record daemon =
  dm_os :: os
  dm_fs :: fsys
  dm_fm :: child_process
  dm_mon :: child_process
  dm_current :: "which option"
  dm_close_request :: bool
  dm_backup_timer :: u64
  dm_transfer_timer :: u64
  dm_command :: u32
  dm_sent :: "string list"

text \<open>The process number of the daemon and its singleton socket.\<close>

record self =
  me :: pid
  d_socket :: fd

fun child_of :: "which \<Rightarrow> daemon \<Rightarrow> child_process" where
  "child_of FM s = dm_fm s"
| "child_of MON s = dm_mon s"

fun set_child :: "which \<Rightarrow> child_process \<Rightarrow> daemon \<Rightarrow> daemon" where
  "set_child FM c s = s\<lparr>dm_fm := c\<rparr>"
| "set_child MON c s = s\<lparr>dm_mon := c\<rparr>"

lemma child_of_set [simp]: "child_of w (set_child w' c s) = (if w = w' then c else child_of w s)"
  by (cases w; cases w') simp_all

section \<open>System calls of the daemon\<close>

text \<open>
  The handler of SIGPIPE names the current child; without one it reads through a null
  pointer. It runs for every broken pipe a call of the daemon has met.
\<close>

definition hits :: "pid \<Rightarrow> os \<Rightarrow> nat" where
  "hits i s = (case map_of (procs s) i of None \<Rightarrow> 0 | Some p \<Rightarrow> sigpipe_hits p)"

definition handle_sigpipe :: "self \<Rightarrow> (daemon, unit) prog" where
  "handle_sigpipe self s =
     (if hits (me self) (dm_os s) = 0 then (Inr (), s)
      else if dm_current s = None then (Inl Undefined, s)
      else (Inr (), s\<lparr>dm_os := upd_proc (me self) (\<lambda>p. p\<lparr>sigpipe_hits := 0\<rparr>) (dm_os s)\<rparr>))"

definition on_os :: "self \<Rightarrow> (os, 'a) prog \<Rightarrow> (daemon, 'a) prog" where
  "on_os self m =
     bnd (\<lambda>s. case m (dm_os s) of (r, o') \<Rightarrow> (r, s\<lparr>dm_os := o'\<rparr>)) (\<lambda>a.
     bnd (handle_sigpipe self) (\<lambda>_. ret a))"

text \<open>\<open>kill(pid, 0)\<close>, \<open>kill(pid, SIGTERM)\<close> and \<open>waitpid(pid, NULL, 0)\<close>.\<close>

definition exists_proc :: "pid \<Rightarrow> os \<Rightarrow> bool" where
  "exists_proc c s \<longleftrightarrow> map_of (procs s) c \<noteq> None \<or> c \<in> set (zombies s)"

definition sys_kill0 :: "pid \<Rightarrow> (os, int) prog" where
  "sys_kill0 c = gets (\<lambda>s. if exists_proc c s then 0 else -1)"

text \<open>A process that reads its signals from a descriptor keeps the signal until it does.\<close>

definition term_proc :: "pid \<Rightarrow> os \<Rightarrow> os" where
  "term_proc c s = (case map_of (procs s) c of
     None \<Rightarrow> s
   | Some p \<Rightarrow> (case pending p of
        None \<Rightarrow> proc_ends c s
      | Some l \<Rightarrow> upd_proc c (\<lambda>p. p\<lparr>pending := Some (l @ [SIGTERM])\<rparr>) s))"

definition sys_kill_term :: "pid \<Rightarrow> (os, int) prog" where
  "sys_kill_term c s = (if exists_proc c s then (Inr 0, term_proc c s) else (Inr (-1), s))"

definition sys_waitpid :: "pid \<Rightarrow> (os, int) prog" where
  "sys_waitpid c s =
     (if map_of (procs s) c \<noteq> None then (Inl Blocked, s)
      else if c \<in> set (zombies s) then (Inr c, s\<lparr>zombies := removeAll c (zombies s)\<rparr>)
      else (Inr (-1), s))"

section \<open>Spawning from the daemon's state\<close>

record world =
  wo_answer :: "os \<Rightarrow> os"
  wo_exit :: "os \<Rightarrow> os"
  wo_start :: "os \<Rightarrow> os"
  wo_timers :: "os \<Rightarrow> os"
  wo_env :: spawn_env
  wo_junk :: u64

definition spawn_into ::
  "self \<Rightarrow> world \<Rightarrow> which \<Rightarrow> string option list option \<Rightarrow> (daemon, unit) prog" where
  "spawn_into self w which extra_args =
     bnd (gets (child_of which)) (\<lambda>c.
     bnd (on_os self (start_child_process (wo_env w) (me self) c extra_args (d_socket self))) (\<lambda>(r, c', fate).
     bnd (modify (set_child which c')) (\<lambda>_.
     bnd (modify (\<lambda>s. s\<lparr>dm_os := wo_start w (dm_os s)\<rparr>)) (\<lambda>_.
     bnd (on_os self (acknowledge_client (me self) (cp_pipes c') (wo_junk w))) (\<lambda>_. ret ())))))"

text \<open>\<open>__reportman_fm_get_timers\<close>, storing what it read.\<close>

definition get_timers_into :: "self \<Rightarrow> world \<Rightarrow> which \<Rightarrow> (daemon, int) prog" where
  "get_timers_into self w which =
     bnd (modify (\<lambda>s. s\<lparr>dm_os := wo_timers w (dm_os s)\<rparr>)) (\<lambda>_.
     bnd (gets (\<lambda>s. cp_pipes (child_of which s))) (\<lambda>pipes.
     bnd (on_os self (reportman_fm_get_timers (me self) pipes (wo_junk w))) (\<lambda>(b, t).
     bnd (modify (\<lambda>s. s\<lparr>dm_backup_timer := b, dm_transfer_timer := t\<rparr>)) (\<lambda>_. ret D_SUCCESS))))"

definition send_health_probe :: "self \<Rightarrow> world \<Rightarrow> which \<Rightarrow> (daemon, unit) prog" where
  "send_health_probe self w which =
     bnd (gets (child_of which)) (\<lambda>c.
       if cp_pid c > 0 then
         bnd (on_os self (sys_kill0 (cp_pid c))) (\<lambda>r.
           if r < 0 then spawn_into self w which None else ret ())
       else spawn_into self w which None)"

section \<open>The health probe\<close>

definition post_launch :: "self \<Rightarrow> world \<Rightarrow> which \<Rightarrow> bool \<Rightarrow> (daemon, unit) prog" where
  "post_launch self w which has_post =
     (if has_post then bnd (get_timers_into self w which) (\<lambda>_. ret ()) else ret ())"

definition restart_child :: "self \<Rightarrow> world \<Rightarrow> which \<Rightarrow> bool \<Rightarrow> (daemon, int) prog" where
  "restart_child self w which has_post =
     bnd (gets (child_of which)) (\<lambda>c.
     bnd (modify (set_child which (c\<lparr>retries := retries c + 1\<rparr>))) (\<lambda>_.
       if retries c > max_retries c then stop (Exit EXIT_FAILURE)
       else
         bnd (spawn_into self w which None) (\<lambda>_.
         bnd (post_launch self w which has_post) (\<lambda>_.
         bnd (modify (\<lambda>s. s\<lparr>dm_current := None\<rparr>)) (\<lambda>_. ret D_SUCCESS)))))"

definition health_probe_child_process :: "self \<Rightarrow> world \<Rightarrow> which \<Rightarrow> bool \<Rightarrow> (daemon, int) prog" where
  "health_probe_child_process self w which has_post =
     bnd (modify (\<lambda>s. s\<lparr>dm_current := Some which\<rparr>)) (\<lambda>_.
     bnd (gets (child_of which)) (\<lambda>c.
     bnd (on_os self (sys_kill0 (cp_pid c))) (\<lambda>k.
     bnd (modify (set_child which (c\<lparr>is_alive := (k = 0)\<rparr>))) (\<lambda>_.
       if k = 0 then
         bnd (on_os self (ipc_send_health_probe (me self) (cp_pipes c))) (\<lambda>_.
         bnd (modify (\<lambda>s. s\<lparr>dm_os := wo_answer w (dm_os s)\<rparr>)) (\<lambda>_.
         bnd (on_os self (ipc_get_command (me self) (cp_pipes c) 0 R_IPC_TIMEOUT (wo_junk w)))
           (\<lambda>(ipc_get_result, command).
           if ipc_get_result = 1 then ret D_SUCCESS
           else
             bnd (on_os self (sys_kill_term (cp_pid c))) (\<lambda>_.
             bnd (modify (\<lambda>s. s\<lparr>dm_os := wo_exit w (dm_os s)\<rparr>)) (\<lambda>_.
             bnd (on_os self (sys_waitpid (cp_pid c))) (\<lambda>_.
             bnd (modify (set_child which (c\<lparr>is_alive := False\<rparr>))) (\<lambda>_.
               restart_child self w which has_post)))))))
       else restart_child self w which has_post))))"

section \<open>Ending\<close>

text \<open>
  \<open>kill(0, SIGTERM)\<close> reaches every process of the group, the daemon too, which keeps the
  signal when it reads its signals from a descriptor and ends otherwise. \<open>waitpid(0, \<dots>)\<close>
  waits for a child, or, when SIGCHLD is ignored, for all of them.
\<close>

definition sys_kill_group :: "os \<Rightarrow> os" where
  "sys_kill_group s = fold term_proc (map fst (procs s)) s"

definition blocks_term :: "pid \<Rightarrow> os \<Rightarrow> bool" where
  "blocks_term i s = (case map_of (procs s) i of None \<Rightarrow> False | Some p \<Rightarrow> pending p \<noteq> None)"

definition sys_wait_any :: "pid \<Rightarrow> (os, int) prog" where
  "sys_wait_any i s = (case zombies s of
     c # cs \<Rightarrow> (Inr c, s\<lparr>zombies := cs\<rparr>)
   | [] \<Rightarrow> if list_ex (\<lambda>(j, p). j \<noteq> i) (procs s) then (Inl Blocked, s) else (Inr (-1), s))"

definition kill_children :: "self \<Rightarrow> world \<Rightarrow> (daemon, unit) prog" where
  "kill_children self w =
     bnd (gets (\<lambda>s. blocks_term (me self) (dm_os s))) (\<lambda>blocked.
     bnd (modify (\<lambda>s. s\<lparr>dm_os := sys_kill_group (dm_os s)\<rparr>)) (\<lambda>_.
       if \<not> blocked then stop (Killed SIGTERM)
       else
         bnd (modify (\<lambda>s. s\<lparr>dm_os := wo_exit w (dm_os s)\<rparr>)) (\<lambda>_.
         bnd (on_os self (sys_wait_any (me self))) (\<lambda>_. ret ()))))"

definition clean_close :: "self \<Rightarrow> world \<Rightarrow> fd \<Rightarrow> fd \<Rightarrow> int \<Rightarrow> (daemon, unit) prog" where
  "clean_close self w signal_fd timerfd exit_code =
     bnd (on_os self (sys_close (me self) timerfd)) (\<lambda>_.
     bnd (gets (\<lambda>s. p_read (cp_pipes (dm_fm s)))) (\<lambda>f.
     bnd (on_os self (sys_close (me self) f)) (\<lambda>_.
     bnd (gets (\<lambda>s. p_read (cp_pipes (dm_mon s)))) (\<lambda>f.
     bnd (on_os self (sys_close (me self) f)) (\<lambda>_.
     bnd (kill_children self w) (\<lambda>_.
     bnd (on_os self (sys_close (me self) signal_fd)) (\<lambda>_.
     bnd (on_os self (sys_close (me self) (d_socket self))) (\<lambda>_.
     stop (Exit exit_code)))))))))"

section \<open>What a start keeps of the struct\<close>

lemma start_child_keeps:
  assumes "start_child_process env i c extra sock s = (Inr (r, c', f), s')"
  shows "retries c' = retries c" "max_retries c' = max_retries c" "executable c' = executable c"
  using assms
  by (auto simp: start_child_process_def prog_defs split: prod.splits sum.splits option.splits)

definition counted :: "which \<Rightarrow> u16 \<Rightarrow> u16 \<Rightarrow> daemon \<Rightarrow> bool" where
  "counted which k m s \<longleftrightarrow> retries (child_of which s) = k \<and> max_retries (child_of which s) = m"

lemma child_of_fields [simp]:
  "child_of which (s\<lparr>dm_os := o1\<rparr>) = child_of which s"
  "child_of which (s\<lparr>dm_current := cu\<rparr>) = child_of which s"
  "child_of which (s\<lparr>dm_backup_timer := b, dm_transfer_timer := t\<rparr>) = child_of which s"
  by (cases which; simp)+

lemma counted_fields [simp]:
  "counted which k m (s\<lparr>dm_os := o1\<rparr>) = counted which k m s"
  "counted which k m (s\<lparr>dm_current := cu\<rparr>) = counted which k m s"
  "counted which k m (s\<lparr>dm_backup_timer := b, dm_transfer_timer := t\<rparr>) = counted which k m s"
  by (simp_all add: counted_def)

lemma preserves_on_os:
  assumes "\<And>s o1. I s \<Longrightarrow> I (s\<lparr>dm_os := o1\<rparr>)"
  shows "preserves I (on_os self m)"
proof -
  have "preserves I (\<lambda>s. case m (dm_os s) of (r, o') \<Rightarrow> (r, s\<lparr>dm_os := o'\<rparr>))"
    by (rule preservesI) (auto simp: assms split: prod.splits)
  moreover have "preserves I (handle_sigpipe self)"
    by (rule preservesI) (auto simp: handle_sigpipe_def assms)
  ultimately show ?thesis unfolding on_os_def by (intro preserves_intros)
qed

lemma counted_on_os [preserves_intros]: "preserves (counted which k m) (on_os self f)"
  by (rule preserves_on_os) simp

lemma counted_modify_os [preserves_intros]:
  "preserves (counted which k m) (modify (\<lambda>s. s\<lparr>dm_os := f s\<rparr>))"
  "preserves (counted which k m) (modify (\<lambda>s. s\<lparr>dm_current := g s\<rparr>))"
  "preserves (counted which k m) (modify (\<lambda>s. s\<lparr>dm_backup_timer := b, dm_transfer_timer := t\<rparr>))"
  by (rule preserves_modify; simp)+

lemma on_os_result:
  "on_os self f s = (Inr a, s') \<Longrightarrow> \<exists>o1 o2. f (dm_os s) = (Inr a, o1) \<and> s' = s\<lparr>dm_os := o2\<rparr>"
  by (auto simp: on_os_def prog_defs handle_sigpipe_def split: prod.splits sum.splits if_splits)

lemma counted_spawn [preserves_intros]:
  "preserves (counted which k m) (spawn_into self w which' extra)"
proof (rule preservesI)
  fix s assume c: "counted which k m s"
  have tail: "preserves (counted which k m) (bnd (modify (\<lambda>s. s\<lparr>dm_os := wo_start w (dm_os s)\<rparr>)) (\<lambda>_.
     bnd (on_os self (acknowledge_client (me self) (cp_pipes c') (wo_junk w))) (\<lambda>_. ret ())))" for c'
    by (intro preserves_intros)
  let ?start = "on_os self (start_child_process (wo_env w) (me self) (child_of which' s) extra (d_socket self))"
  show "counted which k m (snd (spawn_into self w which' extra s))"
  proof (cases "?start s")
    case (Pair r s1)
    have c1: "counted which k m s1" using preservesD [OF counted_on_os c] Pair by (metis snd_conv)
    show ?thesis
    proof (cases r)
      case (Inl h)
      with Pair c1 show ?thesis by (simp add: spawn_into_def prog_simps)
    next
      case (Inr a)
      obtain n c' f where a: "a = (n, c', f)" by (cases a) auto
      from on_os_result [of self _ s a s1] Pair Inr a obtain o1 o2
        where st: "start_child_process (wo_env w) (me self) (child_of which' s) extra (d_socket self) (dm_os s) =
          (Inr (n, c', f), o1)" and s1: "s1 = s\<lparr>dm_os := o2\<rparr>" by blast
      have "counted which k m (set_child which' c' s1)"
        using c1 start_child_keeps [OF st] s1 by (auto simp: counted_def)
      from preservesD [OF tail this] Pair Inr a show ?thesis
        by (simp add: spawn_into_def prog_simps)
    qed
  qed
qed

lemma counted_post [preserves_intros]: "preserves (counted which k m) (post_launch self w which' has_post)"
  unfolding post_launch_def get_timers_into_def
  by (intro preserves_intros, auto intro!: preserves_intros split: prod.split)

text \<open>Both counters after a probe that returns.\<close>

lemma restart_counts:
  assumes "restart_child self w which has_post s = (Inr v, s')"
  shows "retries (child_of which s) \<le> max_retries (child_of which s)"
    "counted which (retries (child_of which s) + 1) (max_retries (child_of which s)) s'"
proof -
  let ?c = "child_of which s"
  have p: "preserves (counted which (retries ?c + 1) (max_retries ?c))
      (bnd (spawn_into self w which None) (\<lambda>_. bnd (post_launch self w which has_post) (\<lambda>_.
         bnd (modify (\<lambda>s. s\<lparr>dm_current := None\<rparr>)) (\<lambda>_. ret D_SUCCESS))))"
    by (intro preserves_intros)
  show le: "retries ?c \<le> max_retries ?c"
    using assms by (auto simp: restart_child_def prog_simps not_le split: if_splits)
  then have "s' = snd (bnd (spawn_into self w which None) (\<lambda>_. bnd (post_launch self w which has_post) (\<lambda>_.
         bnd (modify (\<lambda>s. s\<lparr>dm_current := None\<rparr>)) (\<lambda>_. ret D_SUCCESS)))
       (set_child which (?c\<lparr>retries := retries ?c + 1\<rparr>) s))"
    using assms by (simp add: restart_child_def prog_simps leD)
  then show "counted which (retries ?c + 1) (max_retries ?c) s'"
    using preservesD [OF p, of "set_child which (?c\<lparr>retries := retries ?c + 1\<rparr>) s"]
    by (simp add: counted_def)
qed

section \<open>A probe that is answered\<close>

lemma hits_bufs [simp]: "hits i (s\<lparr>bufs := b\<rparr>) = hits i s"
  by (simp add: hits_def)

lemma exists_proc_bufs [simp]: "exists_proc c (s\<lparr>bufs := b\<rparr>) = exists_proc c s"
  by (simp add: exists_proc_def)

lemma on_os_run:
  assumes "m (dm_os s) = (Inr a, o1)" "hits (me self) o1 = 0"
  shows "on_os self m s = (Inr a, s\<lparr>dm_os := o1\<rparr>)"
  using assms by (simp add: on_os_def prog_simps bnd_def handle_sigpipe_def)

lemma set_child_fields [simp]:
  "dm_os (set_child which c s) = dm_os s" "dm_current (set_child which c s) = dm_current s"
  "(set_child which c s)\<lparr>dm_os := o1\<rparr> = set_child which c (s\<lparr>dm_os := o1\<rparr>)"
  "set_child which c (set_child which c' s) = set_child which c s"
  by (cases which; simp)+

text \<open>
  The daemon and child \<open>which\<close> joined by two healthy, empty pipes: \<open>down\<close> to the child, whose
  process is \<open>cpid\<close> and whose ends are \<open>pipes\<close>, and \<open>up\<close> back.
\<close>

definition joined :: "self \<Rightarrow> which \<Rightarrow> ipc_pipes \<Rightarrow> nat \<Rightarrow> nat \<Rightarrow> daemon \<Rightarrow> bool" where
  "joined self which pipes down up s \<longleftrightarrow>
     (let c = child_of which s in
      link (dm_os s) (me self) (p_write (cp_pipes c)) (cp_pid c) (p_read pipes) down \<and>
      link (dm_os s) (cp_pid c) (p_write pipes) (me self) (p_read (cp_pipes c)) up \<and>
      down \<noteq> up \<and> bufs (dm_os s) down = [] \<and> bufs (dm_os s) up = [] \<and>
      0 \<le> p_write pipes \<and> 0 \<le> p_write (cp_pipes c) \<and>
      exists_proc (cp_pid c) (dm_os s) \<and> hits (me self) (dm_os s) = 0)"

lemma probe_answered_run:
  assumes j: "joined self which pipes down up s" and m: "ipc_is_command m"
    and w: "wo_answer w ((dm_os s)\<lparr>bufs := (bufs (dm_os s))(down := bytes_of_word (ucast IPC_COMMAND_HEALTH_PROBE))\<rparr>) =
      (dm_os s)\<lparr>bufs := (bufs (dm_os s))(up := bytes_of_word m)\<rparr>"
  shows "health_probe_child_process self w which has_post s =
    (Inr D_SUCCESS, set_child which ((child_of which s)\<lparr>is_alive := True\<rparr>) (s\<lparr>dm_current := Some which\<rparr>))"
proof -
  let ?c = "child_of which s" and ?o = "dm_os s"
  let ?s1 = "set_child which (?c\<lparr>is_alive := True\<rparr>) (s\<lparr>dm_current := Some which\<rparr>)"
  from j have l: "link ?o (me self) (p_write (cp_pipes ?c)) (cp_pid ?c) (p_read pipes) down"
      "link ?o (cp_pid ?c) (p_write pipes) (me self) (p_read (cp_pipes ?c)) up"
      "bufs ?o down = []" "bufs ?o up = []" "exists_proc (cp_pid ?c) ?o" "hits (me self) ?o = 0"
    by (simp_all add: joined_def Let_def)
  have k: "on_os self (sys_kill0 (cp_pid ?c)) (s\<lparr>dm_current := Some which\<rparr>) = (Inr 0, s\<lparr>dm_current := Some which\<rparr>)"
    using on_os_run [of "sys_kill0 (cp_pid ?c)" "s\<lparr>dm_current := Some which\<rparr>" 0 ?o self] l(5,6)
    by (simp add: sys_kill0_def prog_simps)
  have p: "on_os self (ipc_send_health_probe (me self) (cp_pipes ?c)) ?s1 =
      (Inr True, ?s1\<lparr>dm_os := ?o\<lparr>bufs := (bufs ?o)(down := bytes_of_word (ucast IPC_COMMAND_HEALTH_PROBE))\<rparr>\<rparr>)"
    by (rule on_os_run) (use l in \<open>simp_all add: ipc_send_health_probe_def write_ulong_link pipe_capacity_def\<close>)
  let ?o2 = "?o\<lparr>bufs := (bufs ?o)(up := bytes_of_word m)\<rparr>"
  have g: "on_os self (ipc_get_command (me self) (cp_pipes ?c) 0 R_IPC_TIMEOUT (wo_junk w)) (?s1\<lparr>dm_os := ?o2\<rparr>) =
      (Inr (1, ucast m), ?s1)"
  proof -
    have "link ?o2 (cp_pid ?c) (p_write pipes) (me self) (p_read (cp_pipes ?c)) up" using l(2) by simp
    from read_command_word [OF this, of m "[]"]
    have "ipc_get_command (me self) (cp_pipes ?c) 0 R_IPC_TIMEOUT (wo_junk w) ?o2 = (Inr (1, ucast m), ?o)"
      using l(4) m by (simp add: fun_upd_idem)
    from on_os_run [of _ "?s1\<lparr>dm_os := ?o2\<rparr>", OF _ l(6)] this show ?thesis by simp
  qed
  show ?thesis
    unfolding health_probe_child_process_def
    using k p w g by (simp add: prog_simps bnd_def)
qed

end
