(* ===== verification/RM_Signals.thy ===== *)
theory RM_Signals
  imports RM_Spawn
begin

text \<open>
  Signals that are read from a descriptor, and waiting on several descriptors: the function
  \<open>r_initialize_signals\<close> (\<open>src/libs/reportman.c\<close>), \<open>poll\<close> as the three service loops use it,
  the \<open>read\<close> of one signal, and \<open>__shutdown_signals\<close>/\<open>mt_shutdown_signals\<close> (\<open>reportman_fm.c\<close>,
  \<open>monitor_tool.c\<close>).
\<close>

section \<open>The signal descriptor\<close>

text \<open>The object behind a descriptor made by \<open>signalfd\<close>.\<close>

definition signalfd_obj :: fdobj where
  "signalfd_obj = OtherFd 100"

record sig_env =
  mask_ok :: bool
  signalfd_ok :: bool

definition block_signals :: "proc \<Rightarrow> proc" where
  "block_signals p = p\<lparr>pending := (case pending p of None \<Rightarrow> Some [] | Some l \<Rightarrow> Some l)\<rparr>"

definition sys_new_fd :: "fdobj \<Rightarrow> bool \<Rightarrow> pid \<Rightarrow> (os, fd) prog" where
  "sys_new_fd ob ok me s =
     (case map_of (procs s) me of
        None \<Rightarrow> (Inr (-1), s)
      | Some p \<Rightarrow>
          if \<not> ok then (Inr (-1), s)
          else (Inr (free_fd (fdtab p)),
                upd_proc me (\<lambda>p. p\<lparr>fdtab := (free_fd (fdtab p), ob) # fdtab p\<rparr>) s))"

definition r_initialize_signals :: "sig_env \<Rightarrow> pid \<Rightarrow> (os, fd) prog" where
  "r_initialize_signals env me =
     (if \<not> mask_ok env then ret (-1)
      else
        bnd (modify (upd_proc me block_signals)) (\<lambda>_.
        bnd (sys_new_fd signalfd_obj (signalfd_ok env) me) (\<lambda>signal_fd.
          if signal_fd < 0 then ret (-1) else ret signal_fd)))"

text \<open>
  \<open>read(signal_fd, &fdsi, sizeof fdsi)\<close>: the number of the first pending signal, which is no
  longer pending then; \<open>None\<close> when the call does not give a whole record.
\<close>

definition sys_read_signal :: "bool \<Rightarrow> pid \<Rightarrow> fd \<Rightarrow> (os, nat option) prog" where
  "sys_read_signal ok me f s =
     (if \<not> ok \<or> fd_obj s me f \<noteq> Some signalfd_obj then (Inr None, s)
      else (case map_of (procs s) me of
          Some p \<Rightarrow> (case pending p of
              Some (n # l) \<Rightarrow> (Inr (Some n), upd_proc me (\<lambda>p. p\<lparr>pending := Some l\<rparr>) s)
            | _ \<Rightarrow> (Inl Blocked, s))
        | None \<Rightarrow> (Inr None, s)))"

definition shutdown_signals :: "pid \<Rightarrow> fd \<Rightarrow> ipc_pipes \<Rightarrow> (os, unit) prog" where
  "shutdown_signals me signal_fd pipes =
     bnd (sys_close me (p_read pipes)) (\<lambda>_.
     bnd (sys_close me (p_write pipes)) (\<lambda>_.
     sys_close me signal_fd))"

definition mt_shutdown_signals :: "pid \<Rightarrow> fd \<Rightarrow> ipc_pipes \<Rightarrow> (os, unit) prog" where
  "mt_shutdown_signals me signal_fd pipes =
     bnd (sys_close me (p_read pipes)) (\<lambda>_.
     bnd (sys_close me (p_write pipes)) (\<lambda>_.
     sys_close me signal_fd))"

section \<open>Waiting\<close>

text \<open>
  What \<open>poll\<close> reports of one descriptor watched for reading: \<open>POLLIN\<close>, when there are bytes in
  the pipe or a signal is pending, and whether it reports anything at all, as it also does
  for a pipe without a writer (\<open>POLLHUP\<close>) and for a descriptor that is not open
  (\<open>POLLNVAL\<close>). A negative descriptor is passed over. \<open>ext\<close> tells which of the remaining
  descriptors (sockets, inotify, timers) are ready.
\<close>

definition pollin :: "(fd \<Rightarrow> bool) \<Rightarrow> os \<Rightarrow> pid \<Rightarrow> fd \<Rightarrow> bool" where
  "pollin ext s me f \<longleftrightarrow> 0 \<le> f \<and> (case fd_obj s me f of
     Some (PipeR p) \<Rightarrow> bufs s p \<noteq> []
   | Some (OtherFd n) \<Rightarrow>
       if OtherFd n = signalfd_obj
       then (case map_of (procs s) me of
           Some p \<Rightarrow> (case pending p of Some (_ # _) \<Rightarrow> True | _ \<Rightarrow> False) | None \<Rightarrow> False)
       else ext f
   | _ \<Rightarrow> False)"

definition poll_reports :: "(fd \<Rightarrow> bool) \<Rightarrow> os \<Rightarrow> pid \<Rightarrow> fd \<Rightarrow> bool" where
  "poll_reports ext s me f \<longleftrightarrow> 0 \<le> f \<and> (case fd_obj s me f of
     Some (PipeR p) \<Rightarrow> bufs s p \<noteq> [] \<or> \<not> holds s (PipeW p)
   | Some (PipeW p) \<Rightarrow> \<not> holds s (PipeR p)
   | Some (OtherFd n) \<Rightarrow> pollin ext s me f
   | None \<Rightarrow> True)"

datatype poll_env = PollReady "fd \<Rightarrow> bool" | PollFails | PollInterrupted int

text \<open>How a round of a service loop ends.\<close>

datatype flow = Continue | Break

definition poll_blocks :: "(fd \<Rightarrow> bool) \<Rightarrow> os \<Rightarrow> pid \<Rightarrow> fd list \<Rightarrow> bool" where
  "poll_blocks ext s me fds \<longleftrightarrow> \<not> list_ex (poll_reports ext s me) fds"

section \<open>Facts\<close>

lemma pollin_bufs:
  "fd_obj s me f = Some (PipeR p) \<Longrightarrow> pollin ext s me f \<longleftrightarrow> 0 \<le> f \<and> bufs s p \<noteq> []"
  by (simp add: pollin_def)

lemma pollin_reports: "pollin ext s me f \<Longrightarrow> poll_reports ext s me f"
  by (auto simp: pollin_def poll_reports_def signalfd_obj_def split: option.splits fdobj.splits)

lemma block_signals_pending: "pending (block_signals p) \<noteq> None"
  by (simp add: block_signals_def split: option.split)

lemma sys_read_signal_next:
  assumes "fd_obj s me f = Some signalfd_obj" "map_of (procs s) me = Some p" "pending p = Some (n # l)"
  shows "sys_read_signal True me f s = (Inr (Some n), upd_proc me (\<lambda>p. p\<lparr>pending := Some l\<rparr>) s)"
  using assms by (simp add: sys_read_signal_def)

end
