(* ===== verification/RM_Parent.thy ===== *)
theory RM_Parent
  imports RM_Health RM_Signals
begin

text \<open>
  How a child answers its parent: the branch of the service loops of \<open>reportman_fm.c\<close> and
  \<open>reportman_mon.c\<close> that is taken when the parent's pipe has something to read. The locale
  states what the daemon relies on; both branches are interpretations, and the round of the
  health probe is proved once inside it.
\<close>

section \<open>The two branches\<close>

text \<open>
  \<open>command\<close> is the uninitialised variable: a timeout (-3) is not false, so the switch then
  reads it as it is.
\<close>

definition fm_parent_command :: "pid \<Rightarrow> ipc_pipes \<Rightarrow> u32 \<Rightarrow> u64 \<Rightarrow> (os, unit) prog" where
  "fm_parent_command child pipes command junk =
     bnd (ipc_get_command child pipes command R_IPC_TIMEOUT junk) (\<lambda>(r, command).
       if r = 0 then ret ()
       else if command = IPC_COMMAND_HEALTH_PROBE then
         bnd (ipc_send_command child pipes IPC_COMMAND_ACK) (\<lambda>_. ret ())
       else if command = IPC_COMMAND_PANIC then stop (Exit EXIT_FAILURE)
       else ret ())"

definition mon_parent_command :: "pid \<Rightarrow> ipc_pipes \<Rightarrow> u32 \<Rightarrow> u64 \<Rightarrow> (os, unit) prog" where
  "mon_parent_command child pipes command junk =
     bnd (ipc_get_command child pipes command R_IPC_TIMEOUT junk) (\<lambda>(r, command).
       if r = 0 then ret ()
       else if command = IPC_COMMAND_HEALTH_PROBE then
         bnd (ipc_send_command child pipes IPC_COMMAND_ACK) (\<lambda>_. ret ())
       else if command = IPC_COMMAND_PANIC then stop (Exit EXIT_FAILURE)
       else ret ())"

section \<open>What the daemon relies on\<close>

text \<open>
  A probe is answered with exactly one acknowledgement, a panic ends the child with a failure,
  and every other command is taken from the pipe and has no effect.
\<close>

locale parent_handler =
  fixes handle :: "pid \<Rightarrow> ipc_pipes \<Rightarrow> u32 \<Rightarrow> u64 \<Rightarrow> (os, unit) prog"
  assumes probe: "link s d dw c (p_read pipes) down \<Longrightarrow> link s c (p_write pipes) d dr up \<Longrightarrow>
      down \<noteq> up \<Longrightarrow> bufs s down = bytes_of_word (ucast IPC_COMMAND_HEALTH_PROBE) @ rest \<Longrightarrow>
      length (bufs s up) + 8 \<le> pipe_capacity \<Longrightarrow> 0 \<le> p_write pipes \<Longrightarrow>
      handle c pipes jc j s = (Inr (), s\<lparr>bufs := (bufs s)(down := rest,
        up := bufs s up @ bytes_of_word (ucast IPC_COMMAND_ACK))\<rparr>)"
    and panic: "link s d dw c (p_read pipes) down \<Longrightarrow>
      bufs s down = bytes_of_word (ucast IPC_COMMAND_PANIC) @ rest \<Longrightarrow>
      handle c pipes jc j s = (Inl (Exit EXIT_FAILURE), s\<lparr>bufs := (bufs s)(down := rest)\<rparr>)"
    and other: "link s d dw c (p_read pipes) down \<Longrightarrow> bufs s down = bytes_of_word m @ rest \<Longrightarrow>
      ipc_is_command m \<Longrightarrow> (ucast m :: u32) \<notin> {IPC_COMMAND_HEALTH_PROBE, IPC_COMMAND_PANIC} \<Longrightarrow>
      handle c pipes jc j s = (Inr (), s\<lparr>bufs := (bufs s)(down := rest)\<rparr>)"
begin

text \<open>The daemon's probe of a child that handles it succeeds and leaves both pipes empty.\<close>

lemma probe_round:
  assumes j: "joined self which pipes down up s"
    and w: "\<And>o1. wo_answer w o1 = snd (handle (cp_pid (child_of which s)) pipes jc j o1)"
  shows "health_probe_child_process self w which has_post s =
    (Inr D_SUCCESS, set_child which ((child_of which s)\<lparr>is_alive := True\<rparr>) (s\<lparr>dm_current := Some which\<rparr>))"
proof (rule probe_answered_run [OF j])
  let ?o = "dm_os s" and ?c = "child_of which s"
  let ?o1 = "?o\<lparr>bufs := (bufs ?o)(down := bytes_of_word (ucast IPC_COMMAND_HEALTH_PROBE))\<rparr>"
  from j have l: "link ?o (me self) (p_write (cp_pipes ?c)) (cp_pid ?c) (p_read pipes) down"
      "link ?o (cp_pid ?c) (p_write pipes) (me self) (p_read (cp_pipes ?c)) up"
      "down \<noteq> up" "bufs ?o down = []" "bufs ?o up = []" "0 \<le> p_write pipes"
    by (simp_all add: joined_def Let_def)
  have "handle (cp_pid ?c) pipes jc j ?o1 = (Inr (), ?o1\<lparr>bufs := (bufs ?o1)(down := [],
      up := bufs ?o1 up @ bytes_of_word (ucast IPC_COMMAND_ACK))\<rparr>)"
    by (rule probe) (use l in \<open>simp_all add: pipe_capacity_def\<close>)
  then show "wo_answer w ?o1 = ?o\<lparr>bufs := (bufs ?o)(up := bytes_of_word (ucast IPC_COMMAND_ACK))\<rparr>"
    using l(3-5) w by (simp add: fun_upd_twist [of up down] fun_upd_idem)
  show "ipc_is_command (ucast IPC_COMMAND_ACK)" by (simp add: ipc_is_defs ipc_flags ipc_commands)
qed

text \<open>A child that is told to panic ends, whatever else is in its pipe.\<close>

lemma panic_ends:
  assumes "link s d dw c (p_read pipes) down" "bufs s down = bytes_of_word (ucast IPC_COMMAND_PANIC) @ rest"
  shows "fst (handle c pipes jc j s) = Inl (Exit EXIT_FAILURE)"
  using panic [OF assms] by simp

end

section \<open>Both children keep it\<close>

lemma parent_command_cases:
  assumes "link s d dw c (p_read pipes) down" "bufs s down = bytes_of_word m @ rest" "ipc_is_command m"
  shows "fm_parent_command c pipes jc j s =
     (if (ucast m :: u32) = IPC_COMMAND_HEALTH_PROBE then
        bnd (ipc_send_command c pipes IPC_COMMAND_ACK) (\<lambda>_. ret ()) (s\<lparr>bufs := (bufs s)(down := rest)\<rparr>)
      else if (ucast m :: u32) = IPC_COMMAND_PANIC then
        (Inl (Exit EXIT_FAILURE), s\<lparr>bufs := (bufs s)(down := rest)\<rparr>)
      else (Inr (), s\<lparr>bufs := (bufs s)(down := rest)\<rparr>))"
  unfolding fm_parent_command_def using read_command_word [OF assms, of jc R_IPC_TIMEOUT j]
  by (simp add: bnd_def ret_run stop_run)

lemma ack_answer:
  assumes "link s c (p_write pipes) d dr up" "length (bufs s up) + 8 \<le> pipe_capacity" "0 \<le> p_write pipes"
  shows "bnd (ipc_send_command c pipes IPC_COMMAND_ACK) (\<lambda>_. ret ()) s =
    (Inr (), s\<lparr>bufs := (bufs s)(up := bufs s up @ bytes_of_word (ucast IPC_COMMAND_ACK))\<rparr>)"
  using write_ulong_link [OF assms(1,2)] assms(3)
  by (simp add: ipc_send_command_def prog_simps bnd_def)

lemma command_words [simp]:
  "ipc_is_command (ucast IPC_COMMAND_HEALTH_PROBE)" "ipc_is_command (ucast IPC_COMMAND_PANIC)"
  "IPC_COMMAND_PANIC \<noteq> IPC_COMMAND_HEALTH_PROBE"
  by (simp_all add: ipc_is_defs ipc_flags ipc_commands)

lemma ucast_up32 [simp]: "(ucast (ucast (c :: u32) :: u64) :: u32) = c"
  by (simp add: ucast_up_down)

interpretation fm_handler: parent_handler fm_parent_command
proof unfold_locales
  fix s :: os and d dw c and pipes :: ipc_pipes and down dr up rest jc j
  assume "link s d dw c (p_read pipes) down" "link s c (p_write pipes) d dr up" "down \<noteq> up"
    "bufs s down = bytes_of_word (ucast IPC_COMMAND_HEALTH_PROBE) @ rest"
    "length (bufs s up) + 8 \<le> pipe_capacity" "0 \<le> p_write pipes"
  then show "fm_parent_command c pipes jc j s = (Inr (), s\<lparr>bufs := (bufs s)(down := rest,
        up := bufs s up @ bytes_of_word (ucast IPC_COMMAND_ACK))\<rparr>)"
    using ack_answer [of "s\<lparr>bufs := (bufs s)(down := rest)\<rparr>" c pipes d dr up]
    by (simp add: parent_command_cases)
qed (simp_all add: parent_command_cases)

lemma mon_parent_command_eq: "mon_parent_command = fm_parent_command"
  by (intro ext) (simp add: mon_parent_command_def fm_parent_command_def)

interpretation mon_handler: parent_handler mon_parent_command
  unfolding mon_parent_command_eq by (rule fm_handler.parent_handler_axioms)

section \<open>Properties\<close>

definition handler_of :: "which \<Rightarrow> pid \<Rightarrow> ipc_pipes \<Rightarrow> u32 \<Rightarrow> u64 \<Rightarrow> (os, unit) prog" where
  "handler_of which = (case which of FM \<Rightarrow> fm_parent_command | MON \<Rightarrow> mon_parent_command)"

text \<open>
  C11: the daemon's health probe of a living child, file manager or monitor, whose service loop
  handles it: the probe reaches the child, its answer reaches the daemon, the probe counts as
  answered, nothing is killed or restarted, both pipes are empty again, and of the daemon's
  state only the liveness flag and the current process are set.
\<close>

theorem probe_round_trip:
  assumes "joined self which pipes down up s"
    "wo_answer w = (\<lambda>o1. snd (handler_of which (cp_pid (child_of which s)) pipes jc j o1))"
  shows "health_probe_child_process self w which has_post s =
    (Inr D_SUCCESS, set_child which ((child_of which s)\<lparr>is_alive := True\<rparr>) (s\<lparr>dm_current := Some which\<rparr>))"
proof (cases which)
  case FM
  show ?thesis by (rule fm_handler.probe_round [OF assms(1)]) (simp add: assms(2) handler_of_def FM)
next
  case MON
  show ?thesis by (rule mon_handler.probe_round [OF assms(1)]) (simp add: assms(2) handler_of_def MON)
qed

text \<open>
  A running system: the daemon is process 1, its children are processes 2 and 3. It is what the
  starts of the two children and the calls before their loops leave of a daemon that has
  only its standard descriptors and its socket; the monitor has inherited the daemon's
  ends of the file manager's pipes.
\<close>

definition boot_os :: os where
  "boot_os = \<lparr>procs = [(1, \<lparr>fdtab = [(3, OtherFd 3), (2, OtherFd 0), (1, OtherFd 0), (0, OtherFd 0)],
       sigpipe = SigDfl, sigpipe_hits = 0, pending = None\<rparr>)],
     zombies = [], autoreap = True, bufs = (\<lambda>_. []), faulty = (\<lambda>_. False), npipe = 0, npid = 2\<rparr>"

definition trio_os :: os where
  "trio_os = \<lparr>procs =
     [(3, \<lparr>fdtab = [(5, OtherFd 101), (3, signalfd_obj), (8, PipeR 3), (6, PipeW 2), (7, PipeW 1), (4, PipeR 0),
             (2, OtherFd 0), (1, OtherFd 0), (0, OtherFd 0)],
           sigpipe = SigDfl, sigpipe_hits = 0, pending = Some []\<rparr>),
      (2, \<lparr>fdtab = [(3, signalfd_obj), (6, PipeR 1), (5, PipeW 0), (2, OtherFd 0), (1, OtherFd 0), (0, OtherFd 0)],
           sigpipe = SigDfl, sigpipe_hits = 0, pending = Some []\<rparr>),
      (1, \<lparr>fdtab = [(8, signalfd_obj), (6, OtherFd 102), (9, PipeW 3), (5, PipeR 2), (7, PipeW 1), (4, PipeR 0),
             (3, OtherFd 3), (2, OtherFd 0), (1, OtherFd 0), (0, OtherFd 0)],
           sigpipe = SigHandler, sigpipe_hits = 0, pending = Some []\<rparr>)],
     zombies = [], autoreap = True, bufs = (\<lambda>_. []), faulty = (\<lambda>_. False), npipe = 4, npid = 4\<rparr>"

definition sample_start :: "string \<Rightarrow> string option list option \<Rightarrow> (os, unit) prog" where
  "sample_start exe extra =
     bnd (start_child_process \<lparr>se_pipe1 = True, se_pipe2 = True, se_fork = True, se_exec = True\<rparr> 1
       \<lparr>cp_pid = -1, cp_pipes = \<lparr>p_write = -1, p_read = -1\<rparr>, max_retries = 3, retries = 0,
        executable = exe, is_alive = False\<rparr> extra 3) (\<lambda>_. ret ())"

definition boot :: "(os, unit) prog" where
  "boot =
     bnd (sample_start ''reportman_fm'' None) (\<lambda>_.
     bnd (sample_start ''reportman_mon'' (Some [Some ''/srv'', None])) (\<lambda>_.
     bnd (sys_new_fd (OtherFd 102) True 1) (\<lambda>_.
     bnd (modify (upd_proc 1 (\<lambda>p. p\<lparr>sigpipe := SigHandler\<rparr>))) (\<lambda>_.
     bnd (r_initialize_signals \<lparr>mask_ok = True, signalfd_ok = True\<rparr> 1) (\<lambda>_.
     bnd (r_initialize_signals \<lparr>mask_ok = True, signalfd_ok = True\<rparr> 2) (\<lambda>_.
     bnd (r_initialize_signals \<lparr>mask_ok = True, signalfd_ok = True\<rparr> 3) (\<lambda>_.
     bnd (sys_new_fd (OtherFd 101) True 3) (\<lambda>_. ret ()))))))))"

lemma trio_os_reached: "procs (snd (boot boot_os)) = procs trio_os"
  by code_simp

definition trio :: daemon where
  "trio = \<lparr>dm_os = trio_os, dm_fs = sample_fs,
     dm_fm = \<lparr>cp_pid = 2, cp_pipes = \<lparr>p_write = 7, p_read = 4\<rparr>, max_retries = 3, retries = 0,
       executable = ''reportman_fm'', is_alive = True\<rparr>,
     dm_mon = \<lparr>cp_pid = 3, cp_pipes = \<lparr>p_write = 9, p_read = 5\<rparr>, max_retries = 3, retries = 0,
       executable = ''reportman_mon'', is_alive = True\<rparr>,
     dm_current = None, dm_close_request = False, dm_backup_timer = 0, dm_transfer_timer = 1,
     dm_command = 0, dm_sent = []\<rparr>"

definition trio_self :: self where "trio_self = \<lparr>me = 1, d_socket = 3\<rparr>"

definition trio_world :: "(os \<Rightarrow> os) \<Rightarrow> world" where
  "trio_world answer = \<lparr>wo_answer = answer, wo_exit = id, wo_start = id, wo_timers = id,
     wo_env = \<lparr>se_pipe1 = True, se_pipe2 = True, se_fork = True, se_exec = True\<rparr>, wo_junk = 0\<rparr>"

lemma trio_joined:
  "joined trio_self FM \<lparr>p_write = 5, p_read = 6\<rparr> 1 0 trio"
  "joined trio_self MON \<lparr>p_write = 6, p_read = 8\<rparr> 3 2 trio"
  by (simp_all add: joined_def trio_def trio_os_def trio_self_def link_def fd_obj_def fds_of_def exists_proc_def hits_def signalfd_obj_def)

theorem probe_round_trip_witness:
  "fst (health_probe_child_process trio_self (trio_world (\<lambda>o1. snd (mon_parent_command 3
     \<lparr>p_write = 6, p_read = 8\<rparr> 0 0 o1))) MON False trio) = Inr D_SUCCESS"
  using probe_round_trip [OF trio_joined(2), of "trio_world (\<lambda>o1. snd (mon_parent_command 3
     \<lparr>p_write = 6, p_read = 8\<rparr> 0 0 o1))" 0 0 False]
  by (simp add: trio_world_def handler_of_def trio_def)

text \<open>
  C22: any command word at all counts as an answer to the probe: a child that reports a panic
  while it is probed is taken for healthy, and its report is gone.
\<close>

theorem probe_accepts_any_command:
  assumes "joined self which pipes down up s" "m \<in> set five_commands"
    "wo_answer w ((dm_os s)\<lparr>bufs := (bufs (dm_os s))(down := bytes_of_word (ucast IPC_COMMAND_HEALTH_PROBE))\<rparr>) =
      (dm_os s)\<lparr>bufs := (bufs (dm_os s))(up := bytes_of_word (ucast m))\<rparr>"
  shows "fst (health_probe_child_process self w which has_post s) = Inr D_SUCCESS \<and>
    bufs (dm_os (snd (health_probe_child_process self w which has_post s))) up = []"
proof -
  have "ipc_is_command (ucast m)" using assms(2) five_commands_tests(4) by (auto simp: five_commands_def)
  from probe_answered_run [OF assms(1) this assms(3)] assms(1) show ?thesis
    by (simp add: joined_def Let_def)
qed

theorem probe_accepts_any_command_witness:
  "fst (health_probe_child_process trio_self (trio_world (\<lambda>o1. trio_os\<lparr>bufs := (bufs trio_os)(0 :=
     bytes_of_word (ucast IPC_COMMAND_PANIC))\<rparr>)) FM True trio) = Inr D_SUCCESS"
  using probe_accepts_any_command [OF trio_joined(1), of IPC_COMMAND_PANIC "trio_world (\<lambda>o1. trio_os\<lparr>bufs := (bufs trio_os)(0 :=
     bytes_of_word (ucast IPC_COMMAND_PANIC))\<rparr>)" True]
  by (simp add: trio_world_def five_commands_def trio_def)

end
