(* ===== verification/RM_Listen.thy ===== *)
theory RM_Listen
  imports RM_Parent
begin

text \<open>
  The daemon's service (\<open>reportmand.c\<close>): \<open>__handle_command\<close>, the conversation with one client,
  one round of \<open>__listen_to_clients\<close> and the loop with what comes before it. What the kernel
  and the other processes do in a round are arguments.
\<close>

section \<open>Commands\<close>

text \<open>
  \<open>sv_gettime t\<close> are the seconds left in the struct that \<open>gettime\<close> is given for timer \<open>t\<close>,
  whether or not the call succeeds; \<open>sv_offset\<close> is the time zone's offset.
\<close>

record ('c, 'x) services =
  sv_sha :: "('c, 'x) sha_scheme"
  sv_fuel :: nat
  sv_offset :: int
  sv_gettime :: "u64 \<Rightarrow> int"

definition two_digits :: "int \<Rightarrow> string" where
  "two_digits n = (if n < 10 then CHR ''0'' # show_int n else show_int n)"

text \<open>\<open>strftime\<close> with the format \<open>%Y-%m-%d %H:%M:%S\<close> into 26 bytes.\<close>

definition date_time_string :: "tm \<Rightarrow> string" where
  "date_time_string x = snprintf_buf 26
     (show_nat (tm_year x) @ ''-'' @ two_digits (int (tm_mon x) + 1) @ ''-'' @ two_digits (tm_mday x) @ '' '' @
      two_digits (tm_hour x) @ '':'' @ two_digits (tm_min x) @ '':'' @ two_digits (tm_sec x))"

text \<open>
  \<open>localtime\<close> gives a pointer to its one static struct, so both pointers of the code refer to
  what the second call left there.
\<close>

definition timers_reply :: "('c, 'x) services \<Rightarrow> u64 \<Rightarrow> u64 \<Rightarrow> string" where
  "timers_reply sv backup_timer transfer_timer =
     (let static_tm = localtime (sv_offset sv) (sv_gettime sv transfer_timer);
          backup_time_string = date_time_string static_tm;
          transfer_time_string = date_time_string static_tm in
      snprintf_buf COMMUNICATION_BUFFER_SIZE
        (''Next transfer from '' @ R_REPORTS_DIRECTORY @ '' to '' @ R_DASHBOARD_DIRECTORY @ '' scheduled at '' @
         transfer_time_string @ [CHR 0x0A] @ ''Next backup of '' @ R_DASHBOARD_DIRECTORY @ '' to '' @
         R_BACKUP_DIRECTORY @ '' scheduled at '' @ backup_time_string))"

definition errors_reply :: "string \<Rightarrow> string \<Rightarrow> string \<Rightarrow> int \<Rightarrow> string" where
  "errors_reply what from_dir to_dir no_errors = snprintf_buf COMMUNICATION_BUFFER_SIZE
     (what @ '' from '' @ from_dir @ '' to '' @ to_dir @ '' with '' @ show_int no_errors @
      '' errors. Check log for more details.'')"

definition command_transfer ::
  "('c, 'x) services \<Rightarrow> string \<Rightarrow> string \<Rightarrow> transfer_method \<Rightarrow> (daemon, int) prog" where
  "command_transfer sv source target meth s =
     (case transfer_directory (sv_sha sv) (sv_fuel sv) source target meth (dm_fs s) of
        None \<Rightarrow> (Inl Undefined, s)
      | Some (e, fs') \<Rightarrow> (Inr e, s\<lparr>dm_fs := fs'\<rparr>))"

definition handle_command :: "('c, 'x) services \<Rightarrow> string \<Rightarrow> (daemon, string) prog" where
  "handle_command sv command =
     (case fst (snd (parse_command command)) of
        C_BACKUP \<Rightarrow>
          bnd (command_transfer sv R_REPORTS_DIRECTORY R_BACKUP_DIRECTORY BACKUP) (\<lambda>no_errors.
          ret (errors_reply ''Backup'' R_REPORTS_DIRECTORY R_BACKUP_DIRECTORY no_errors))
      | C_TRANSFER \<Rightarrow>
          bnd (command_transfer sv R_DASHBOARD_DIRECTORY R_BACKUP_DIRECTORY TRANSFER) (\<lambda>no_errors.
          ret (errors_reply ''Transfer'' R_DASHBOARD_DIRECTORY R_BACKUP_DIRECTORY no_errors))
      | C_GETTIMERS \<Rightarrow> gets (\<lambda>s. timers_reply sv (dm_backup_timer s) (dm_transfer_timer s))
      | C_CLOSE \<Rightarrow>
          bnd (modify (\<lambda>s. s\<lparr>dm_close_request := True\<rparr>)) (\<lambda>_.
          ret (snprintf_buf COMMUNICATION_BUFFER_SIZE ''Close accepted. Exit reportmand.''))
      | C_UNKNOWN \<Rightarrow> ret (snprintf_buf COMMUNICATION_BUFFER_SIZE ''Unknown command.''))"

section \<open>One client\<close>

text \<open>
  What \<open>write\<close> to the client does: it succeeds, fails, or meets a connection the client has
  closed. The last raises SIGPIPE, whose handler reads through \<open>__current_process\<close>.
\<close>

datatype wrote = Wrote | WriteFailed | BrokenPipe

definition write_client :: "wrote \<Rightarrow> string \<Rightarrow> (daemon, unit) prog" where
  "write_client r msg = (case r of
     Wrote \<Rightarrow> modify (\<lambda>s. s\<lparr>dm_sent := dm_sent s @ [msg]\<rparr>)
   | WriteFailed \<Rightarrow> ret ()
   | BrokenPipe \<Rightarrow> bnd (gets dm_current) (\<lambda>c. if c = None then stop Undefined else ret ()))"

text \<open>
  A turn of the conversation: whether \<open>select\<close> succeeded (a failure is not zero either, so the
  loop reads all the same), what \<open>read\<close> gave (\<open>None\<close> on failure, no bytes at the end), and what
  became of the answer. \<open>select\<close> times out after the last turn.
\<close>

record turn =
  tu_select :: bool
  tu_read :: "string option"
  tu_wrote :: wrote

fun client_turns :: "('c, 'x) services \<Rightarrow> turn list \<Rightarrow> (daemon, bool) prog" where
  "client_turns sv [] = ret True"
| "client_turns sv (t # ts) = (case tu_read t of
     None \<Rightarrow> client_turns sv ts
   | Some b \<Rightarrow>
       if b = [] then ret (tu_select t)
       else
         bnd (handle_command sv (c_str (take (COMMUNICATION_BUFFER_SIZE - 1) b))) (\<lambda>response.
         bnd (write_client (tu_wrote t) (c_str response)) (\<lambda>_. client_turns sv ts)))"

definition timeout_msg :: string where
  "timeout_msg = ''Timeout reached. Closing connection.'' @ [CHR 0x00]"

definition client_session :: "('c, 'x) services \<Rightarrow> turn list \<Rightarrow> wrote \<Rightarrow> (daemon, unit) prog" where
  "client_session sv ts last_wrote =
     bnd (client_turns sv ts) (\<lambda>select_ok.
       if \<not> select_ok then ret () else write_client last_wrote timeout_msg)"

section \<open>One round\<close>

text \<open>
  \<open>rd_accept\<close> is \<open>None\<close> when \<open>accept\<close> fails. The functions on the system state are what the
  other processes do during \<open>poll\<close> and before each read of a child's pipe.
\<close>

record round =
  rd_before :: "os \<Rightarrow> os"
  rd_poll :: poll_env
  rd_read_ok :: bool
  rd_accept :: "(turn list \<times> wrote) option"
  rd_fm :: "os \<Rightarrow> os"
  rd_mon :: "os \<Rightarrow> os"
  rd_settime_ok :: bool
  rd_fm_timer :: "os \<Rightarrow> os"
  rd_mon_timer :: "os \<Rightarrow> os"
  rd_fm_world :: world
  rd_mon_world :: world
  rd_end :: world
  rd_junk :: u64

text \<open>The descriptors in the array given to \<open>poll\<close>: they are set once, before the loop.\<close>

record listen_fds =
  lf_signal :: fd
  lf_fm :: fd
  lf_mon :: fd
  lf_timer :: fd

definition polled :: "self \<Rightarrow> listen_fds \<Rightarrow> fd list" where
  "polled self L = [lf_signal L, d_socket self, lf_fm L, lf_mon L, lf_timer L]"

text \<open>A part of the round: \<open>Some\<close> ends the round at once, \<open>None\<close> goes on.\<close>

definition then_part :: "('s, flow option) prog \<Rightarrow> ('s, flow option) prog \<Rightarrow> ('s, flow option) prog" where
  "then_part m n = bnd m (\<lambda>r. case r of None \<Rightarrow> n | Some f \<Rightarrow> ret (Some f))"

definition signal_part :: "self \<Rightarrow> listen_fds \<Rightarrow> round \<Rightarrow> bool \<Rightarrow> (daemon, flow option) prog" where
  "signal_part self L r is_ready =
     (if \<not> is_ready then ret None
      else
        bnd (on_os self (sys_read_signal (rd_read_ok r) (me self) (lf_signal L))) (\<lambda>n. case n of
            None \<Rightarrow> bnd (kill_children self (rd_end r)) (\<lambda>_. stop (Exit EXIT_FAILURE))
          | Some n \<Rightarrow>
              if n = SIGINT \<or> n = SIGTERM then
                bnd (kill_children self (rd_end r)) (\<lambda>_.
                bnd (modify (\<lambda>s. s\<lparr>dm_close_request := True\<rparr>)) (\<lambda>_. ret (Some Break)))
              else ret None))"

definition client_part ::
  "('c, 'x) services \<Rightarrow> round \<Rightarrow> bool \<Rightarrow> (daemon, flow option) prog" where
  "client_part sv r is_ready =
     (if \<not> is_ready then ret None
      else (case rd_accept r of
          None \<Rightarrow> ret (Some Continue)
        | Some (ts, last_wrote) \<Rightarrow>
            bnd (client_session sv ts last_wrote) (\<lambda>_.
            bnd (gets dm_close_request) (\<lambda>c. ret (if c then Some Break else None)))))"

text \<open>Reading one command of a child; the variable keeps its value when nothing is read.\<close>

definition hear_child ::
  "self \<Rightarrow> listen_fds \<Rightarrow> world \<Rightarrow> u64 \<Rightarrow> (os \<Rightarrow> os) \<Rightarrow> which \<Rightarrow> int \<Rightarrow> (daemon, unit) prog" where
  "hear_child self L w junk before which timeout =
     bnd (modify (\<lambda>s. s\<lparr>dm_os := before (dm_os s)\<rparr>)) (\<lambda>_.
     bnd (gets (\<lambda>s. (cp_pipes (child_of which s), dm_command s))) (\<lambda>(pipes, command).
     bnd (on_os self (ipc_get_command (me self) pipes command timeout junk)) (\<lambda>(r, command).
     bnd (modify (\<lambda>s. s\<lparr>dm_command := command\<rparr>)) (\<lambda>_.
       if command = IPC_COMMAND_PANIC then clean_close self w (lf_signal L) (lf_timer L) EXIT_FAILURE else ret ()))))"

definition children_part :: "self \<Rightarrow> listen_fds \<Rightarrow> round \<Rightarrow> bool \<Rightarrow> bool \<Rightarrow> (daemon, flow option) prog" where
  "children_part self L r fm_ready mon_ready =
     bnd (if fm_ready then hear_child self L (rd_end r) (rd_junk r) (rd_fm r) FM 5 else ret ()) (\<lambda>_.
     bnd (if mon_ready then hear_child self L (rd_end r) (rd_junk r) (rd_mon r) MON 5 else ret ()) (\<lambda>_.
     ret None))"

definition probe_part :: "self \<Rightarrow> listen_fds \<Rightarrow> round \<Rightarrow> bool \<Rightarrow> (daemon, flow option) prog" where
  "probe_part self L r is_ready =
     (if \<not> is_ready then ret None
      else if \<not> rd_settime_ok r then stop (Exit EXIT_FAILURE)
      else
        bnd (hear_child self L (rd_end r) (rd_junk r) (rd_fm_timer r) FM 1) (\<lambda>_.
        bnd (hear_child self L (rd_end r) (rd_junk r) (rd_mon_timer r) MON 1) (\<lambda>_.
        bnd (health_probe_child_process self (rd_fm_world r) FM True) (\<lambda>_.
        bnd (health_probe_child_process self (rd_mon_world r) MON False) (\<lambda>_. ret None)))))"

definition daemon_round :: "('c, 'x) services \<Rightarrow> self \<Rightarrow> listen_fds \<Rightarrow> round \<Rightarrow> (daemon, flow) prog" where
  "daemon_round sv self L r =
     bnd (modify (\<lambda>s. s\<lparr>dm_os := rd_before r (dm_os s)\<rparr>)) (\<lambda>_. case rd_poll r of
       PollFails \<Rightarrow> bnd (kill_children self (rd_end r)) (\<lambda>_. stop (Exit EXIT_FAILURE))
     | PollInterrupted _ \<Rightarrow> ret Continue
     | PollReady ext \<Rightarrow> bnd (gets dm_os) (\<lambda>o1.
         if poll_blocks ext o1 (me self) (polled self L) then stop Blocked
         else
           (let is_ready = pollin ext o1 (me self) in
            bnd (then_part (signal_part self L r (is_ready (lf_signal L)))
                (then_part (client_part sv r (is_ready (d_socket self)))
                (then_part (children_part self L r (is_ready (lf_fm L)) (is_ready (lf_mon L)))
                           (probe_part self L r (is_ready (lf_timer L)))))) (\<lambda>f.
            ret (case f of Some Break \<Rightarrow> Break | _ \<Rightarrow> Continue)))))"

section \<open>The loop\<close>

fun listen_loop :: "('c, 'x) services \<Rightarrow> self \<Rightarrow> listen_fds \<Rightarrow> round list \<Rightarrow> (daemon, unit) prog" where
  "listen_loop sv self L [] = stop Blocked"
| "listen_loop sv self L (r # rs) =
     bnd (gets dm_close_request) (\<lambda>c.
       if c then clean_close self (rd_end r) (lf_signal L) (lf_timer L) EXIT_SUCCESS
       else
         bnd (daemon_round sv self L r) (\<lambda>f. case f of
           Break \<Rightarrow> clean_close self (rd_end r) (lf_signal L) (lf_timer L) EXIT_SUCCESS
         | Continue \<Rightarrow> listen_loop sv self L rs))"

interpretation listen_service: service_loop "listen_loop sv self L" "daemon_round sv self L"
    "\<lambda>f. f = Continue" "\<lambda>s. \<not> dm_close_request s"
  for sv :: "('c, 'x) services" and self L
  by unfold_locales (simp_all add: bnd_def gets_def stop_run)

record listen_env =
  lv_timer_ok :: bool
  lv_timerfd_ok :: bool
  lv_settime_ok :: bool
  lv_sigaction_ok :: bool
  lv_sig :: sig_env

definition timerfd_obj :: fdobj where
  "timerfd_obj = OtherFd 102"

text \<open>A failing \<open>sigaction\<close> makes the function return 1; every other failure exits.\<close>

definition listen_to_clients ::
  "('c, 'x) services \<Rightarrow> listen_env \<Rightarrow> self \<Rightarrow> round list \<Rightarrow> (daemon, int) prog" where
  "listen_to_clients sv env self rs =
     (if \<not> lv_timer_ok env then stop (Exit EXIT_FAILURE)
      else
        bnd (on_os self (sys_new_fd timerfd_obj (lv_timerfd_ok env) (me self))) (\<lambda>timerfd.
          if timerfd = -1 then stop (Exit EXIT_FAILURE)
          else if \<not> lv_settime_ok env then stop (Exit EXIT_FAILURE)
          else if \<not> lv_sigaction_ok env then ret 1
          else
            bnd (modify (\<lambda>s. s\<lparr>dm_os := upd_proc (me self) (\<lambda>p. p\<lparr>sigpipe := SigHandler\<rparr>) (dm_os s)\<rparr>)) (\<lambda>_.
            bnd (on_os self (r_initialize_signals (lv_sig env) (me self))) (\<lambda>signal_fd.
              if signal_fd < 0 then stop (Exit EXIT_FAILURE)
              else
                bnd (gets (\<lambda>s. \<lparr>lf_signal = signal_fd, lf_fm = p_read (cp_pipes (dm_fm s)),
                    lf_mon = p_read (cp_pipes (dm_mon s)), lf_timer = timerfd\<rparr>)) (\<lambda>L.
                bnd (listen_loop sv self L rs) (\<lambda>_. ret D_SUCCESS))))))"

end
