(* ===== verification/RM_ListenThms.thy ===== *)
theory RM_ListenThms
  imports RM_Listen
begin

text \<open>
  What the daemon's service keeps: the bound on restarts, the reasons for which it can end, and
  the refinement of a client's conversation to a server that handles commands one by one.
\<close>

section \<open>Programs that exit with a failure only\<close>

named_theorems quiet_intros \<open>rules for programs whose only exit status is 1\<close>

definition quiet :: "('s, 'a) prog \<Rightarrow> bool" where
  "quiet m \<longleftrightarrow> (\<forall>s h s'. m s = (Inl h, s') \<longrightarrow> (\<forall>n. h = Exit n \<longrightarrow> n = EXIT_FAILURE))"

lemma quietI: "(\<And>s n s'. m s = (Inl (Exit n), s') \<Longrightarrow> n = EXIT_FAILURE) \<Longrightarrow> quiet m"
  by (auto simp: quiet_def)

lemma quietD: "quiet m \<Longrightarrow> m s = (Inl (Exit n), s') \<Longrightarrow> n = EXIT_FAILURE"
  unfolding quiet_def by blast

lemma quiet_bnd [quiet_intros]: "quiet m \<Longrightarrow> (\<And>a. quiet (f a)) \<Longrightarrow> quiet (bnd m f)"
  unfolding quiet_def bnd_def by (fastforce split: prod.splits sum.splits)

lemma quiet_basic [quiet_intros]:
  "quiet (ret a)" "quiet (gets g)" "quiet (modify k)" "quiet (stop Undefined)" "quiet (stop Blocked)"
  "quiet (stop (Killed n))" "quiet (stop (Exit EXIT_FAILURE))"
  by (simp_all add: quiet_def prog_defs)

lemma quiet_if [quiet_intros]: "(b \<Longrightarrow> quiet m) \<Longrightarrow> (\<not> b \<Longrightarrow> quiet n) \<Longrightarrow> quiet (if b then m else n)"
  by simp

lemma quiet_option [quiet_intros]:
  "(x = None \<Longrightarrow> quiet m) \<Longrightarrow> (\<And>y. x = Some y \<Longrightarrow> quiet (f y)) \<Longrightarrow> quiet (case x of None \<Rightarrow> m | Some y \<Rightarrow> f y)"
  by (cases x) auto

lemma quiet_prod [quiet_intros]: "(\<And>a b. quiet (f a b)) \<Longrightarrow> quiet (case x of (a, b) \<Rightarrow> f a b)"
  by (cases x) auto

lemma quiet_os [quiet_intros]:
  "quiet (sys_write i f bs)" "quiet (sys_read i f n)" "quiet (sys_select i f)" "quiet (sys_close i f)"
  "quiet (sys_kill0 c)" "quiet (sys_kill_term c)" "quiet (sys_waitpid c)" "quiet (sys_wait_any c)"
  "quiet (sys_read_signal ok i f)" "quiet (sys_pipe ok i)" "quiet (sys_fork ok i)" "quiet (handle_sigpipe self)"
  by (auto simp: quiet_def prog_defs sys_write_def raise_sigpipe_def sys_read_def sys_select_def sys_close_def
      sys_kill0_def sys_kill_term_def sys_waitpid_def sys_wait_any_def sys_read_signal_def sys_pipe_def sys_fork_def
      handle_sigpipe_def Let_def split: option.splits fdobj.splits if_splits sigdisp.splits list.splits)

lemma quiet_on_os [quiet_intros]: "quiet m \<Longrightarrow> quiet (on_os self m)"
  unfolding on_os_def
  by (intro quiet_intros) (auto simp: quiet_def split: prod.splits)

lemma quiet_words [quiet_intros]: "quiet (write_ulong i f m)" "quiet (read_ulong i f j)"
  unfolding write_ulong_def read_ulong_def by (intro quiet_intros)+

lemma quiet_ipc [quiet_intros]:
  "quiet (ipc_send_ack i pipes)" "quiet (ipc_send_health_probe i pipes)" "quiet (ipc_get_ulong i pipes j)"
  "quiet (ipc_get_command i pipes c t j)" "quiet (ipc_get_ack i pipes j)"
  unfolding ipc_send_ack_def ipc_send_health_probe_def ipc_get_ulong_def ipc_get_command_def ipc_get_ack_def
    get_matching_def
  by (intro quiet_intros)+

lemma quiet_protocol [quiet_intros]:
  "quiet (acknowledge_client i pipes j)" "quiet (get_timer i pipes j)" "quiet (reportman_fm_get_timers i pipes j)"
  unfolding acknowledge_client_def get_timer_def reportman_fm_get_timers_def by (intro quiet_intros)+

lemma quiet_start [quiet_intros]: "quiet (start_child_process env i cp extra sock)"
  unfolding start_child_process_def initialize_pipes_def child_branch_def
  by (intro quiet_intros) (auto intro!: quiet_intros split: sum.split)

lemma quiet_supervision [quiet_intros]:
  "quiet (spawn_into self w which extra)" "quiet (get_timers_into self w which)"
  "quiet (post_launch self w which p)" "quiet (restart_child self w which p)"
  "quiet (health_probe_child_process self w which p)" "quiet (kill_children self w)"
  "quiet (clean_close self w sf tf EXIT_FAILURE)"
  unfolding health_probe_child_process_def restart_child_def post_launch_def spawn_into_def get_timers_into_def
    kill_children_def clean_close_def
  by (intro quiet_intros)+

lemma quiet_commands [quiet_intros]: "quiet (handle_command sv c)" "quiet (write_client r msg)"
proof -
  have "quiet (command_transfer sv a b m)" for a b m
    by (auto simp: quiet_def command_transfer_def split: option.splits prod.splits)
  then show "quiet (handle_command sv c)"
    unfolding handle_command_def by (auto intro!: quiet_intros split: command_t.split)
  show "quiet (write_client r msg)"
    unfolding write_client_def by (auto intro!: quiet_intros split: wrote.split)
qed

lemma quiet_turns [quiet_intros]: "quiet (client_turns sv ts)"
  by (induction ts) (auto intro!: quiet_intros split: option.split)

lemma quiet_parts [quiet_intros]:
  "quiet (client_session sv ts l)" "quiet (signal_part self L r b)" "quiet (client_part sv r b)"
  "quiet (hear_child self L w j before which t)" "quiet (children_part self L r b b')" "quiet (probe_part self L r b)"
  unfolding client_session_def signal_part_def client_part_def hear_child_def children_part_def probe_part_def
  by (intro quiet_intros)+

lemma quiet_round [quiet_intros]: "quiet (daemon_round sv self L r)"
  unfolding daemon_round_def then_part_def Let_def
  by (intro quiet_intros) (auto intro!: quiet_intros split: poll_env.split)

section \<open>Leaving the loop\<close>

lemma bnd_returns:
  "bnd m f s = (Inr b, s') \<longleftrightarrow> (\<exists>a s1. m s = (Inr a, s1) \<and> f a s1 = (Inr b, s'))"
  by (auto simp: bnd_def split: prod.splits sum.splits)

lemmas returns_simps = bnd_returns ret_run stop_run gets_run modify_run

lemma flow_Break: "(case x of Some Break \<Rightarrow> Break | _ \<Rightarrow> Continue) = Break \<longleftrightarrow> x = Some Break"
  by (simp split: option.split flow.split)

subsection \<open>Who records a request to close\<close>

definition closing :: "bool \<Rightarrow> daemon \<Rightarrow> bool" where
  "closing c s \<longleftrightarrow> dm_close_request s = c"

lemma closing_fields [simp]:
  "closing c (s\<lparr>dm_os := o1\<rparr>) = closing c s" "closing c (s\<lparr>dm_current := cu\<rparr>) = closing c s"
  "closing c (s\<lparr>dm_command := x\<rparr>) = closing c s" "closing c (s\<lparr>dm_sent := l\<rparr>) = closing c s"
  "closing c (s\<lparr>dm_fs := f\<rparr>) = closing c s" "closing c (set_child which cp s) = closing c s"
  "closing c (s\<lparr>dm_backup_timer := b, dm_transfer_timer := t\<rparr>) = closing c s"
  by (cases which; simp add: closing_def)+

lemma preserves_option [preserves_intros]:
  "(x = None \<Longrightarrow> preserves I m) \<Longrightarrow> (\<And>y. x = Some y \<Longrightarrow> preserves I (f y)) \<Longrightarrow>
   preserves I (case x of None \<Rightarrow> m | Some y \<Rightarrow> f y)"
  by (cases x) auto

lemma preserves_prod [preserves_intros]:
  "(\<And>a b. preserves I (f a b)) \<Longrightarrow> preserves I (case x of (a, b) \<Rightarrow> f a b)"
  by (cases x) auto

lemma closing_basic [preserves_intros]:
  "preserves (closing c) (on_os self m)" "preserves (closing c) (modify (\<lambda>s. s\<lparr>dm_os := f1 s\<rparr>))"
  "preserves (closing c) (modify (\<lambda>s. s\<lparr>dm_current := f2 s\<rparr>))"
  "preserves (closing c) (modify (\<lambda>s. s\<lparr>dm_command := f3 s\<rparr>))"
  "preserves (closing c) (modify (\<lambda>s. s\<lparr>dm_sent := f4 s\<rparr>))" "preserves (closing c) (modify (set_child which cp))"
  "preserves (closing c) (modify (\<lambda>s. s\<lparr>dm_backup_timer := b, dm_transfer_timer := t\<rparr>))"
  by (rule preserves_on_os preserves_modify; simp)+

lemma closing_children [preserves_intros]:
  "preserves (closing c) (kill_children self w)" "preserves (closing c) (clean_close self w sf tf n)"
  "preserves (closing c) (spawn_into self w which extra)" "preserves (closing c) (post_launch self w which p)"
  "preserves (closing c) (restart_child self w which p)"
  "preserves (closing c) (health_probe_child_process self w which p)"
  unfolding health_probe_child_process_def restart_child_def post_launch_def spawn_into_def get_timers_into_def
    kill_children_def clean_close_def
  by (intro preserves_intros)+

lemma closing_parts [preserves_intros]:
  "preserves (closing c) (hear_child self L w j before which t)"
  "preserves (closing c) (children_part self L r b b')" "preserves (closing c) (probe_part self L r b)"
  unfolding hear_child_def children_part_def probe_part_def by (intro preserves_intros)+

lemma closing_write [preserves_intros]: "preserves (closing c) (write_client x msg)"
  unfolding write_client_def by (cases x) (auto intro!: preserves_intros)

lemma closing_kept: "preserves (closing c) m \<Longrightarrow> m s = (r, s') \<Longrightarrow> dm_close_request s = c \<Longrightarrow> dm_close_request s' = c"
  using preservesD [of "closing c" m s] by (simp add: closing_def)

definition command_of :: "string \<Rightarrow> command_t" where
  "command_of text = fst (snd (parse_command text))"

text \<open>A client of the round says close; a termination signal is the next one to be read.\<close>

definition says_close :: "turn \<Rightarrow> bool" where
  "says_close t \<longleftrightarrow> (case tu_read t of None \<Rightarrow> False
     | Some b \<Rightarrow> b \<noteq> [] \<and> command_of (c_str (take (COMMUNICATION_BUFFER_SIZE - 1) b)) = C_CLOSE)"

definition client_asks :: "self \<Rightarrow> round \<Rightarrow> os \<Rightarrow> bool" where
  "client_asks self r o1 \<longleftrightarrow> (\<exists>ext ts l. rd_poll r = PollReady ext \<and>
     pollin ext (rd_before r o1) (me self) (d_socket self) \<and> rd_accept r = Some (ts, l) \<and> list_ex says_close ts)"

definition signal_asks :: "self \<Rightarrow> listen_fds \<Rightarrow> round \<Rightarrow> os \<Rightarrow> bool" where
  "signal_asks self L r o1 \<longleftrightarrow> (\<exists>n o2. sys_read_signal (rd_read_ok r) (me self) (lf_signal L) (rd_before r o1) =
     (Inr (Some n), o2) \<and> (n = SIGINT \<or> n = SIGTERM))"

lemma handle_close:
  "handle_command sv c s = (r, s') \<Longrightarrow> dm_close_request s' \<Longrightarrow> dm_close_request s \<or> command_of c = C_CLOSE"
  unfolding handle_command_def command_of_def
  by (cases "fst (snd (parse_command c))")
    (auto simp: prog_defs command_transfer_def split: option.splits prod.splits)

lemma turns_close:
  assumes "client_turns sv ts s = (r, s')" "dm_close_request s'"
  shows "dm_close_request s \<or> list_ex says_close ts"
  using assms
proof (induction ts arbitrary: s)
  case Nil
  then show ?case by (simp add: ret_run)
next
  case (Cons t ts)
  show ?case
  proof (cases "tu_read t")
    case None
    with Cons show ?thesis by (auto simp: says_close_def)
  next
    case (Some b)
    show ?thesis
    proof (cases "b = []")
      case True
      with Some Cons.prems show ?thesis by (simp add: ret_run)
    next
      case False
      let ?c = "c_str (take (COMMUNICATION_BUFFER_SIZE - 1) b)"
      obtain h s1 where h: "handle_command sv ?c s = (h, s1)" by force
      note hc = handle_close [OF h]
      show ?thesis
      proof (cases h)
        case (Inl e)
        with Cons.prems Some False h hc show ?thesis by (auto simp: bnd_def says_close_def)
      next
        case (Inr resp)
        obtain w s2 where w: "write_client (tu_wrote t) (c_str resp) s1 = (w, s2)" by force
        have same: "dm_close_request s2 = dm_close_request s1"
          by (rule closing_kept [OF closing_write w refl])
        show ?thesis
        proof (cases w)
          case (Inl e)
          with Cons.prems Some False h Inr w same hc show ?thesis by (auto simp: bnd_def says_close_def)
        next
          case (Inr u)
          with Cons.prems Some False h \<open>h = Inr resp\<close> w have "client_turns sv ts s2 = (r, s')"
            by (simp add: bnd_def)
          from Cons.IH [OF this Cons.prems(2)] same hc Some False show ?thesis
            by (auto simp: says_close_def)
        qed
      qed
    qed
  qed
qed

lemma session_close:
  assumes "client_session sv ts l s = (Inr u, s')" "dm_close_request s'"
  shows "dm_close_request s \<or> list_ex says_close ts"
proof -
  from assms(1) obtain ok s1 where t: "client_turns sv ts s = (Inr ok, s1)"
    and e: "(if \<not> ok then ret () else write_client l timeout_msg) s1 = (Inr u, s')"
    by (auto simp: client_session_def bnd_returns)
  have "dm_close_request s' = dm_close_request s1"
    using e closing_kept [OF closing_write, of l timeout_msg s1 _ s' "dm_close_request s1"]
    by (auto simp: ret_run split: if_splits)
  with turns_close [OF t] assms(2) show ?thesis by simp
qed

subsection \<open>The parts of a round\<close>

lemma signal_part_result:
  assumes "signal_part self L r b s = (Inr f, s')"
  shows "f = None \<and> dm_close_request s' = dm_close_request s \<or>
    f = Some Break \<and> dm_close_request s' \<and>
    (\<exists>n o2. sys_read_signal (rd_read_ok r) (me self) (lf_signal L) (dm_os s) = (Inr (Some n), o2) \<and>
       (n = SIGINT \<or> n = SIGTERM))"
proof (cases b)
  case True
  with assms obtain x s1 where x: "on_os self (sys_read_signal (rd_read_ok r) (me self) (lf_signal L)) s = (Inr x, s1)"
    and rest: "(case x of None \<Rightarrow> bnd (kill_children self (rd_end r)) (\<lambda>_. stop (Exit EXIT_FAILURE))
          | Some n \<Rightarrow>
              if n = SIGINT \<or> n = SIGTERM then
                bnd (kill_children self (rd_end r)) (\<lambda>_.
                bnd (modify (\<lambda>s. s\<lparr>dm_close_request := True\<rparr>)) (\<lambda>_. ret (Some Break)))
              else ret None) s1 = (Inr f, s')"
    by (auto simp: signal_part_def bnd_returns)
  obtain o2 where "sys_read_signal (rd_read_ok r) (me self) (lf_signal L) (dm_os s) = (Inr x, o2)"
    using on_os_result [OF x] by blast
  moreover have "dm_close_request s1 = dm_close_request s"
    by (rule closing_kept [OF closing_basic(1) x refl])
  ultimately show ?thesis using rest
    by (cases x) (auto simp: returns_simps split: if_splits)
qed (use assms in \<open>simp add: signal_part_def ret_run\<close>)

lemma client_part_result:
  assumes "client_part sv r b s = (Inr f, s')" "\<not> dm_close_request s"
  shows "f \<noteq> Some Break \<and> \<not> dm_close_request s' \<or>
    f = Some Break \<and> b \<and> dm_close_request s' \<and> (\<exists>ts l. rd_accept r = Some (ts, l) \<and> list_ex says_close ts)"
proof (cases "b \<and> rd_accept r \<noteq> None")
  case True
  then obtain ts l where acc: "rd_accept r = Some (ts, l)" by auto
  with assms True obtain u s1 where ses: "client_session sv ts l s = (Inr u, s1)"
    and f: "f = (if dm_close_request s1 then Some Break else None)" "s' = s1"
    by (auto simp: client_part_def returns_simps)
  show ?thesis
  proof (cases "dm_close_request s1")
    case True
    with session_close [OF ses] assms(2) have "list_ex says_close ts" by simp
    with True \<open>b \<and> _\<close> acc f show ?thesis by auto
  qed (simp add: f)
next
  case False
  with assms show ?thesis by (auto simp: client_part_def ret_run split: if_splits option.splits)
qed

text \<open>A round: what it does to the request, and why it breaks off.\<close>

lemma round_closes:
  assumes "daemon_round sv self L r s = (Inr f, s')" "\<not> dm_close_request s"
  shows "f = Continue \<and> \<not> dm_close_request s' \<or>
    f = Break \<and> dm_close_request s' \<and> (client_asks self r (dm_os s) \<or> signal_asks self L r (dm_os s))"
proof -
  let ?s = "s\<lparr>dm_os := rd_before r (dm_os s)\<rparr>"
  have n: "\<not> dm_close_request ?s" using assms(2) by simp
  show ?thesis
  proof (cases "rd_poll r")
    case (PollReady ext)
    let ?p = "pollin ext (rd_before r (dm_os s)) (me self)"
    from assms(1) PollReady obtain x where x: "then_part (signal_part self L r (?p (lf_signal L)))
        (then_part (client_part sv r (?p (d_socket self)))
        (then_part (children_part self L r (?p (lf_fm L)) (?p (lf_mon L)))
                   (probe_part self L r (?p (lf_timer L))))) ?s = (Inr x, s')"
      and f: "f = (case x of Some Break \<Rightarrow> Break | _ \<Rightarrow> Continue)"
      by (auto simp: daemon_round_def Let_def returns_simps split: if_splits)
    from x obtain x1 s1 where sig: "signal_part self L r (?p (lf_signal L)) ?s = (Inr x1, s1)"
      and r1: "(case x1 of None \<Rightarrow> then_part (client_part sv r (?p (d_socket self)))
        (then_part (children_part self L r (?p (lf_fm L)) (?p (lf_mon L)))
                   (probe_part self L r (?p (lf_timer L)))) | Some f \<Rightarrow> ret (Some f)) s1 = (Inr x, s')"
      by (auto simp: then_part_def [of "signal_part self L r (?p (lf_signal L))"] bnd_returns)
    from signal_part_result [OF sig] show ?thesis
    proof
      assume a: "x1 = None \<and> dm_close_request s1 = dm_close_request ?s"
      with r1 obtain x2 s2 where cl: "client_part sv r (?p (d_socket self)) s1 = (Inr x2, s2)"
        and r2: "(case x2 of None \<Rightarrow> then_part (children_part self L r (?p (lf_fm L)) (?p (lf_mon L)))
                   (probe_part self L r (?p (lf_timer L))) | Some f \<Rightarrow> ret (Some f)) s2 = (Inr x, s')"
        by (auto simp: then_part_def [of "client_part sv r (?p (d_socket self))"] bnd_returns)
      from a n have "\<not> dm_close_request s1" by simp
      from client_part_result [OF cl this] show ?thesis
      proof
        assume b: "x2 \<noteq> Some Break \<and> \<not> dm_close_request s2"
        show ?thesis
        proof (cases x2)
          case None
          have p: "preserves (closing c) (then_part (children_part self L r (?p (lf_fm L)) (?p (lf_mon L)))
              (probe_part self L r (?p (lf_timer L))))" for c
            unfolding then_part_def by (intro preserves_intros)
          from r2 None have r3: "then_part (children_part self L r (?p (lf_fm L)) (?p (lf_mon L)))
              (probe_part self L r (?p (lf_timer L))) s2 = (Inr x, s')" by simp
          have "x = None"
            using r3 by (auto simp: then_part_def children_part_def probe_part_def returns_simps split: if_splits)
          with closing_kept [OF p r3 refl] b f show ?thesis by simp
        next
          case (Some y)
          with b r2 f show ?thesis by (cases y) (auto simp: ret_run)
        qed
      next
        assume "x2 = Some Break \<and> ?p (d_socket self) \<and> dm_close_request s2 \<and>
          (\<exists>ts l. rd_accept r = Some (ts, l) \<and> list_ex says_close ts)"
        with r2 f PollReady show ?thesis by (auto simp: ret_run client_asks_def)
      qed
    next
      assume "x1 = Some Break \<and> dm_close_request s1 \<and>
        (\<exists>n o2. sys_read_signal (rd_read_ok r) (me self) (lf_signal L) (dm_os ?s) = (Inr (Some n), o2) \<and>
          (n = SIGINT \<or> n = SIGTERM))"
      with r1 f show ?thesis by (auto simp: ret_run signal_asks_def)
    qed
  next
    case (PollInterrupted signo)
    with assms show ?thesis by (auto simp: daemon_round_def returns_simps)
  next
    case PollFails
    with assms show ?thesis by (auto simp: daemon_round_def returns_simps)
  qed
qed

lemma clean_close_exit:
  assumes "clean_close self w sf tf n s = (r, s')"
  shows "r = Inl (Exit k) \<Longrightarrow> k = n \<or> k = EXIT_FAILURE" "r \<noteq> Inr a"
proof -
  let ?E = "\<lambda>h (s :: daemon). \<forall>k. h = Exit k \<longrightarrow> k = n \<or> k = EXIT_FAILURE"
  have q: "quiet m \<Longrightarrow> valid (\<lambda>_. True) m (\<lambda>_ _. True) ?E" for m :: "(daemon, 'b) prog"
    by (rule validI) (auto dest: quietD)
  have "valid (\<lambda>_. True) (clean_close self w sf tf n) (\<lambda>_ _. False) ?E"
    unfolding clean_close_def
    by (rule valid_bnd, rule q, (intro quiet_intros)?)+ (simp add: valid_stop)
  then show "r = Inl (Exit k) \<Longrightarrow> k = n \<or> k = EXIT_FAILURE" "r \<noteq> Inr a"
    using assms by (auto dest: valid_stops valid_returns)
qed

text \<open>The state after rounds that all go on.\<close>

fun after_rounds :: "('c, 'x) services \<Rightarrow> self \<Rightarrow> listen_fds \<Rightarrow> round list \<Rightarrow> daemon \<Rightarrow> daemon option" where
  "after_rounds sv self L [] s = Some s"
| "after_rounds sv self L (r # rs) s = (case daemon_round sv self L r s of
     (Inr Continue, s1) \<Rightarrow> after_rounds sv self L rs s1 | _ \<Rightarrow> None)"

definition asked_to_end :: "('c, 'x) services \<Rightarrow> self \<Rightarrow> listen_fds \<Rightarrow> round list \<Rightarrow> daemon \<Rightarrow> bool" where
  "asked_to_end sv self L rs s \<longleftrightarrow> (\<exists>rs1 r rs2 t. rs = rs1 @ r # rs2 \<and>
     after_rounds sv self L rs1 s = Some t \<and> (client_asks self r (dm_os t) \<or> signal_asks self L r (dm_os t)))"

lemma asked_first: "client_asks self r (dm_os s) \<or> signal_asks self L r (dm_os s) \<Longrightarrow> asked_to_end sv self L (r # rs) s"
  unfolding asked_to_end_def by (rule exI [of _ "[]"]) auto

lemma asked_later:
  assumes "asked_to_end sv self L rs t" "daemon_round sv self L r s = (Inr Continue, t)"
  shows "asked_to_end sv self L (r # rs) s"
proof -
  from assms(1) obtain rs1 r1 rs2 u where "rs = rs1 @ r1 # rs2" "after_rounds sv self L rs1 t = Some u"
    "client_asks self r1 (dm_os u) \<or> signal_asks self L r1 (dm_os u)"
    unfolding asked_to_end_def by blast
  then show ?thesis unfolding asked_to_end_def
    by (intro exI [of _ "r # rs1"] exI [of _ r1] exI [of _ rs2] exI [of _ u]) (simp add: assms(2))
qed

lemma listen_loop_exit:
  assumes "listen_loop sv self L rs s = (r, s')" "\<not> dm_close_request s"
  shows "(\<exists>h. r = Inl h) \<and>
    (\<forall>n. r = Inl (Exit n) \<longrightarrow> n = EXIT_FAILURE \<or> n = EXIT_SUCCESS \<and> asked_to_end sv self L rs s)"
  using assms
proof (induction rs arbitrary: s)
  case Nil
  then show ?case by (auto simp: stop_run)
next
  case (Cons rd rs)
  obtain q t where d: "daemon_round sv self L rd s = (q, t)" by fastforce
  show ?case
  proof (cases q)
    case (Inl h)
    with Cons.prems d show ?thesis
      using quietD [OF quiet_round, of sv self L rd s _ t] by (auto simp: prog_defs)
  next
    case (Inr f)
    from round_closes [OF d [unfolded Inr] Cons.prems(2)] show ?thesis
    proof
      assume c: "f = Continue \<and> \<not> dm_close_request t"
      with Cons.prems d Inr have "listen_loop sv self L rs t = (r, s')" by (simp add: prog_defs)
      from Cons.IH [OF this] c asked_later [of sv self L rs t rd s] d Inr show ?thesis by auto
    next
      assume b: "f = Break \<and> dm_close_request t \<and> (client_asks self rd (dm_os s) \<or> signal_asks self L rd (dm_os s))"
      with Cons.prems d Inr have "clean_close self (rd_end rd) (lf_signal L) (lf_timer L) EXIT_SUCCESS t = (r, s')"
        by (simp add: prog_defs)
      from clean_close_exit [OF this] b asked_first [of self rd s L sv rs] show ?thesis by (cases r) auto
    qed
  qed
qed

section \<open>Restarts\<close>

text \<open>
  Both children's counters: at most four restarts while the daemon serves, and a fifth attempt
  ends it. Nothing ever resets a counter.
\<close>

definition restarts_left :: "daemon \<Rightarrow> bool" where
  "restarts_left s \<longleftrightarrow> (\<forall>which. max_retries (child_of which s) = 3 \<and> retries (child_of which s) \<le> 4)"

definition restarts_spent :: "halt \<Rightarrow> daemon \<Rightarrow> bool" where
  "restarts_spent h s \<longleftrightarrow> (\<forall>which. max_retries (child_of which s) = 3 \<and> retries (child_of which s) \<le> 5) \<and>
     (h \<noteq> Exit EXIT_FAILURE \<longrightarrow> restarts_left s)"

lemma small_u16:
  "(x :: u16) \<le> 4 \<Longrightarrow> x \<le> 5" "(x :: u16) \<le> 4 \<Longrightarrow> x + 1 \<le> 5" "\<not> (x :: u16) > 3 \<Longrightarrow> x + 1 \<le> 4"
  by unat_arith+

lemma spent_left: "restarts_left s \<Longrightarrow> restarts_spent h s"
  by (simp add: restarts_left_def restarts_spent_def small_u16)

lemma child_of_more [simp]:
  "child_of which (s\<lparr>dm_fs := x1\<rparr>) = child_of which s" "child_of which (s\<lparr>dm_sent := x2\<rparr>) = child_of which s"
  "child_of which (s\<lparr>dm_command := x3\<rparr>) = child_of which s"
  "child_of which (s\<lparr>dm_close_request := x4\<rparr>) = child_of which s"
  by (cases which; simp)+

lemma left_modify [preserves_intros]:
  "preserves restarts_left (modify (\<lambda>s. s\<lparr>dm_os := f1 s\<rparr>))" "preserves restarts_left (modify (\<lambda>s. s\<lparr>dm_fs := f2 s\<rparr>))"
  "preserves restarts_left (modify (\<lambda>s. s\<lparr>dm_sent := f3 s\<rparr>))"
  "preserves restarts_left (modify (\<lambda>s. s\<lparr>dm_command := f4 s\<rparr>))"
  "preserves restarts_left (modify (\<lambda>s. s\<lparr>dm_close_request := f5 s\<rparr>))"
  "preserves restarts_left (modify (\<lambda>s. s\<lparr>dm_current := f6 s\<rparr>))"
  by (rule preserves_modify; simp add: restarts_left_def)+

lemma left_on_os [preserves_intros]: "preserves restarts_left (on_os self m)"
  by (rule preserves_on_os) (simp add: restarts_left_def)

lemma left_counted:
  assumes "\<And>which k n. preserves (counted which k n) m"
  shows "preserves restarts_left m"
proof (rule preservesI)
  fix s assume l: "restarts_left s"
  have "retries (child_of which (snd (m s))) = retries (child_of which s)"
    "max_retries (child_of which (snd (m s))) = max_retries (child_of which s)" for which
    using preservesD [OF assms, of which "retries (child_of which s)" "max_retries (child_of which s)" s]
    by (simp_all add: counted_def)
  with l show "restarts_left (snd (m s))" by (simp add: restarts_left_def)
qed

lemma left_spawn [preserves_intros]:
  "preserves restarts_left (spawn_into self w which extra)" "preserves restarts_left (post_launch self w which p)"
  by (rule left_counted; intro preserves_intros)+

lemma left_closing [preserves_intros]:
  "preserves restarts_left (kill_children self w)" "preserves restarts_left (clean_close self w sf tf n)"
  unfolding kill_children_def clean_close_def by (intro preserves_intros)+

lemma left_commands [preserves_intros]:
  "preserves restarts_left (handle_command sv c)" "preserves restarts_left (write_client r msg)"
proof -
  have "preserves restarts_left (command_transfer sv a b m)" for a b m
    by (rule preservesI) (simp add: command_transfer_def restarts_left_def split: option.split prod.split)
  then show "preserves restarts_left (handle_command sv c)"
    unfolding handle_command_def by (auto intro!: preserves_intros split: command_t.split)
  show "preserves restarts_left (write_client r msg)"
    unfolding write_client_def by (auto intro!: preserves_intros split: wrote.split)
qed

lemma left_turns [preserves_intros]: "preserves restarts_left (client_turns sv ts)"
  by (induction ts) (auto intro!: preserves_intros split: option.split)

lemma left_parts [preserves_intros]:
  "preserves restarts_left (client_session sv ts l)" "preserves restarts_left (signal_part self L r b)"
  "preserves restarts_left (client_part sv r b)" "preserves restarts_left (hear_child self L w j before which t)"
  "preserves restarts_left (children_part self L r b b')"
  unfolding client_session_def signal_part_def client_part_def hear_child_def children_part_def
  by (intro preserves_intros)+

subsection \<open>The health probe\<close>

lemma keeps_left: "preserves restarts_left m \<Longrightarrow> keeps restarts_left restarts_spent m"
  by (rule validI; drule (1) preservesD) (simp_all add: spent_left)

lemma keeps_restart: "keeps restarts_left restarts_spent (restart_child self w which p)"
  unfolding restart_child_def
proof (rule valid_bnd [where R = "\<lambda>c s. restarts_left s \<and> c = child_of which s"])
  fix c
  let ?rest = "bnd (spawn_into self w which None) (\<lambda>_. bnd (post_launch self w which p) (\<lambda>_.
      bnd (modify (\<lambda>s. s\<lparr>dm_current := None\<rparr>)) (\<lambda>_. ret D_SUCCESS)))"
  have rest: "keeps restarts_left restarts_spent ?rest"
    by (rule keeps_left) (intro preserves_intros)
  show "valid (\<lambda>s. restarts_left s \<and> c = child_of which s)
      (bnd (modify (set_child which (c\<lparr>retries := retries c + 1\<rparr>))) (\<lambda>_.
         if retries c > max_retries c then stop (Exit EXIT_FAILURE) else ?rest)) (\<lambda>_. restarts_left) restarts_spent"
  proof (cases "retries c > max_retries c")
    case True
    have "valid (\<lambda>s. restarts_left s \<and> c = child_of which s)
        (modify (set_child which (c\<lparr>retries := retries c + 1\<rparr>)))
        (\<lambda>_. restarts_spent (Exit EXIT_FAILURE)) restarts_spent"
      by (rule valid_modify) (auto simp: restarts_left_def restarts_spent_def small_u16)
    then show ?thesis by (rule valid_bnd) (simp add: True valid_stop)
  next
    case False
    then have "valid (\<lambda>s. restarts_left s \<and> c = child_of which s)
        (modify (set_child which (c\<lparr>retries := retries c + 1\<rparr>))) (\<lambda>_. restarts_left) restarts_spent"
      by (intro valid_modify) (auto simp: restarts_left_def small_u16)
    from valid_bnd [OF this rest] False show ?thesis by simp
  qed
qed (simp add: valid_gets)

lemma keeps_probe: "keeps restarts_left restarts_spent (health_probe_child_process self w which p)"
proof -
  let ?R = "\<lambda>c s. restarts_left s \<and> counted which (retries c) (max_retries c) s"
  have R: "keeps (?R c) restarts_spent m"
    if "preserves restarts_left m" "preserves (counted which (retries c) (max_retries c)) m"
    for c and m :: "(daemon, 'a) prog"
    by (rule validI; elim conjE; frule preservesD [OF that(1)]; drule preservesD [OF that(2)])
      (simp_all add: spent_left)
  have set: "valid (?R c) (modify (set_child which (c\<lparr>is_alive := b\<rparr>))) (\<lambda>_. ?R c) restarts_spent" for c b
    by (rule valid_modify, unfold restarts_left_def counted_def) (simp, metis)
  have last: "valid (?R c) (restart_child self w which p) (\<lambda>_. restarts_left) restarts_spent" for c
    by (rule valid_weaken [OF keeps_restart]) simp_all
  show ?thesis
    unfolding health_probe_child_process_def
    apply (rule valid_bnd [OF keeps_left], intro preserves_intros)
    apply (rule valid_bnd [where R = ?R], rule valid_gets, simp add: counted_def)
    apply (rule valid_bnd [OF R], intro preserves_intros, intro preserves_intros)
    apply (rule valid_bnd [OF set])
    apply (rule valid_if)
     apply (rule valid_bnd [OF R], intro preserves_intros, intro preserves_intros)
     apply (rule valid_bnd [OF R], intro preserves_intros, intro preserves_intros)
     apply (rule valid_bnd [OF R], intro preserves_intros, intro preserves_intros)
     apply (simp split: prod.split, intro allI impI conjI)
      apply (rule valid_ret, simp)
     apply (rule valid_bnd [OF R], intro preserves_intros, intro preserves_intros)
     apply (rule valid_bnd [OF R], intro preserves_intros, intro preserves_intros)
     apply (rule valid_bnd [OF R], intro preserves_intros, intro preserves_intros)
     apply (rule valid_bnd [OF set])
     apply (rule last)
    apply (rule last)
    done
qed

lemma keeps_round: "keeps restarts_left restarts_spent (daemon_round sv self L r)"
proof -
  have probes: "keeps restarts_left restarts_spent (probe_part self L r b)" for b
    unfolding probe_part_def
    by (intro valid_intros keeps_probe keeps_left preserves_intros valid_stop) (simp_all add: spent_left)
  have thens: "keeps restarts_left restarts_spent (then_part m n)"
    if "keeps restarts_left restarts_spent m" "keeps restarts_left restarts_spent n" for m n
    unfolding then_part_def by (rule valid_bnd [OF that(1)]) (simp add: that(2) keeps_ret split: option.split)
  have parts: "keeps restarts_left restarts_spent (then_part (signal_part self L r b1) (then_part (client_part sv r b2)
      (then_part (children_part self L r b3 b4) (probe_part self L r b5))))" for b1 b2 b3 b4 b5
    by (intro thens probes keeps_left preserves_intros)
  show ?thesis
    unfolding daemon_round_def Let_def
    by (rule valid_bnd [OF keeps_left], intro preserves_intros)
      (auto intro!: valid_intros parts valid_stop spent_left keeps_left [OF left_closing(1)] split: poll_env.split)
qed

lemma listen_loop_restarts:
  assumes "listen_loop sv self L rs s = (Inl h, s')" "restarts_left s"
  shows "restarts_spent h s'"
proof -
  have "keeps restarts_left restarts_spent (listen_loop sv self L rs)"
  proof (induction rs)
    case Nil
    then show ?case by (simp add: valid_stop spent_left)
  next
    case (Cons r rs)
    have "keeps restarts_left restarts_spent (case f of Break \<Rightarrow> clean_close self (rd_end r) (lf_signal L) (lf_timer L) EXIT_SUCCESS
        | Continue \<Rightarrow> listen_loop sv self L rs)" for f
      by (cases f) (simp_all add: Cons.IH keeps_left left_closing)
    then show ?case
      unfolding listen_loop.simps
      by (intro valid_intros keeps_round) (simp_all add: keeps_left left_closing)
  qed
  with assms show ?thesis by (auto dest: valid_stops)
qed

section \<open>The server a conversation implements\<close>

text \<open>
  What a command promises: its reply and what it does to the directories, \<open>None\<close> when the tree
  is too deep. \<open>serve\<close> handles one command after the other.
\<close>

fun promised :: "('c, 'x) services \<Rightarrow> u64 \<Rightarrow> u64 \<Rightarrow> command_t \<Rightarrow> fsys \<Rightarrow> (string \<times> fsys) option" where
  "promised sv b t C_BACKUP fs =
     map_option (\<lambda>(e, fs'). (errors_reply ''Backup'' R_REPORTS_DIRECTORY R_BACKUP_DIRECTORY e, fs'))
       (transfer_directory (sv_sha sv) (sv_fuel sv) R_REPORTS_DIRECTORY R_BACKUP_DIRECTORY BACKUP fs)"
| "promised sv b t C_TRANSFER fs =
     map_option (\<lambda>(e, fs'). (errors_reply ''Transfer'' R_DASHBOARD_DIRECTORY R_BACKUP_DIRECTORY e, fs'))
       (transfer_directory (sv_sha sv) (sv_fuel sv) R_DASHBOARD_DIRECTORY R_BACKUP_DIRECTORY TRANSFER fs)"
| "promised sv b t C_GETTIMERS fs = Some (timers_reply sv b t, fs)"
| "promised sv b t C_CLOSE fs = Some (''Close accepted. Exit reportmand.'', fs)"
| "promised sv b t C_UNKNOWN fs = Some (''Unknown command.'', fs)"

fun serve :: "('c, 'x) services \<Rightarrow> u64 \<Rightarrow> u64 \<Rightarrow> command_t list \<Rightarrow> fsys \<Rightarrow> (string list \<times> fsys) option" where
  "serve sv b t [] fs = Some ([], fs)"
| "serve sv b t (c # cs) fs = (case promised sv b t c fs of
     None \<Rightarrow> None
   | Some (r, fs1) \<Rightarrow> map_option (\<lambda>(rs, fs2). (r # rs, fs2)) (serve sv b t cs fs1))"

definition plain_text :: "string \<Rightarrow> bool" where
  "plain_text c \<longleftrightarrow> c \<noteq> [] \<and> length c < COMMUNICATION_BUFFER_SIZE \<and> CHR 0x00 \<notin> set c"

definition says :: "string \<Rightarrow> turn" where
  "says c = \<lparr>tu_select = True, tu_read = Some c, tu_wrote = Wrote\<rparr>"

subsection \<open>Replies are C strings\<close>

lemma show_no_nul: "CHR 0x00 \<notin> set (show_nat n)" "CHR 0x00 \<notin> set (show_int i)"
proof -
  have n: "CHR 0x00 \<notin> set (show_nat n)" for n
    using show_nat_digits [of "CHR 0x00" n] by (auto simp: is_digit_def code_def)
  then show "CHR 0x00 \<notin> set (show_nat n)" "CHR 0x00 \<notin> set (show_int i)"
    by (simp_all add: show_int_def)
qed

lemma snprintf_no_nul: "CHR 0x00 \<notin> set t \<Longrightarrow> CHR 0x00 \<notin> set (snprintf_buf n t)"
  unfolding snprintf_buf_def by (meson in_set_takeD)

lemma dirs_no_nul:
  "CHR 0x00 \<notin> set R_REPORTS_DIRECTORY" "CHR 0x00 \<notin> set R_DASHBOARD_DIRECTORY" "CHR 0x00 \<notin> set R_BACKUP_DIRECTORY"
  by (simp_all add: R_REPORTS_DIRECTORY_def R_DASHBOARD_DIRECTORY_def R_BACKUP_DIRECTORY_def)

lemma errors_reply_no_nul:
  "CHR 0x00 \<notin> set w \<Longrightarrow> CHR 0x00 \<notin> set d1 \<Longrightarrow> CHR 0x00 \<notin> set d2 \<Longrightarrow> CHR 0x00 \<notin> set (errors_reply w d1 d2 e)"
  unfolding errors_reply_def by (rule snprintf_no_nul) (simp add: show_no_nul)

lemma timers_reply_no_nul: "CHR 0x00 \<notin> set (timers_reply sv b t)"
  unfolding timers_reply_def Let_def date_time_string_def
  by (rule snprintf_no_nul) (simp add: dirs_no_nul two_digits_def show_no_nul snprintf_no_nul)

lemma promised_c_str:
  assumes "promised sv b t c fs = Some (r, fs')"
  shows "c_str r = r"
proof -
  have "CHR 0x00 \<notin> set r"
    using assms errors_reply_no_nul [of _ R_REPORTS_DIRECTORY R_BACKUP_DIRECTORY]
      errors_reply_no_nul [of _ R_DASHBOARD_DIRECTORY R_BACKUP_DIRECTORY] timers_reply_no_nul [of sv b t]
    by (cases c) (auto simp: dirs_no_nul)
  then show ?thesis by (rule c_str_no_nul)
qed

subsection \<open>The refinement\<close>

lemma handle_promised:
  "handle_command sv c s =
    (case promised sv (dm_backup_timer s) (dm_transfer_timer s) (command_of c) (dm_fs s) of
       None \<Rightarrow> (Inl Undefined, s)
     | Some (r, fs') \<Rightarrow> (Inr r, s\<lparr>dm_fs := fs',
         dm_close_request := (dm_close_request s \<or> command_of c = C_CLOSE)\<rparr>))"
  unfolding handle_command_def command_of_def
  by (cases "fst (snd (parse_command c))")
    (simp_all add: prog_defs command_transfer_def COMMUNICATION_BUFFER_SIZE_def snprintf_buf_def split: option.split prod.split)

lemma turn_run:
  assumes "plain_text c"
    "promised sv (dm_backup_timer s) (dm_transfer_timer s) (command_of c) (dm_fs s) = Some (r, fs1)"
  shows "client_turns sv (says c # ts) s = client_turns sv ts (s\<lparr>dm_fs := fs1,
      dm_close_request := (dm_close_request s \<or> command_of c = C_CLOSE), dm_sent := dm_sent s @ [r]\<rparr>)"
proof -
  have "take (COMMUNICATION_BUFFER_SIZE - 1) c = c" using assms(1) by (auto simp: plain_text_def)
  then show ?thesis
    using assms promised_c_str [OF assms(2)]
    by (simp add: says_def plain_text_def c_str_no_nul handle_promised bnd_def write_client_def modify_run)
qed

lemma turns_serve:
  assumes "list_all plain_text cs"
    "serve sv (dm_backup_timer s) (dm_transfer_timer s) (map command_of cs) (dm_fs s) = Some (rs, fs')"
  shows "client_turns sv (map says cs @ ts) s = client_turns sv ts (s\<lparr>dm_fs := fs',
      dm_close_request := (dm_close_request s \<or> C_CLOSE \<in> set (map command_of cs)), dm_sent := dm_sent s @ rs\<rparr>)"
  using assms
proof (induction cs arbitrary: s rs)
  case Nil
  then show ?case by auto
next
  case (Cons c cs)
  from Cons.prems(2) obtain r fs1 rs' where p:
      "promised sv (dm_backup_timer s) (dm_transfer_timer s) (command_of c) (dm_fs s) = Some (r, fs1)"
    and q: "serve sv (dm_backup_timer s) (dm_transfer_timer s) (map command_of cs) fs1 = Some (rs', fs')"
    and rs: "rs = r # rs'"
    by (auto split: option.splits)
  let ?s = "s\<lparr>dm_fs := fs1, dm_close_request := (dm_close_request s \<or> command_of c = C_CLOSE), dm_sent := dm_sent s @ [r]\<rparr>"
  have "client_turns sv (map says cs @ ts) ?s = client_turns sv ts (?s\<lparr>dm_fs := fs',
      dm_close_request := (dm_close_request ?s \<or> C_CLOSE \<in> set (map command_of cs)), dm_sent := dm_sent ?s @ rs'\<rparr>)"
    by (rule Cons.IH) (use Cons.prems q in simp_all)
  with Cons.prems turn_run [OF _ p, of "map says cs @ ts"] rs show ?case by (simp add: disj_ac eq_commute)
qed

section \<open>Properties\<close>

text \<open>
  C6: the conversation with a client implements the server that handles its commands one by
  one: every command, in any mixture of cases, is answered in its turn with its own reply, the
  directories end as the server leaves them, the request to close is recorded exactly when
  one of them asks for it (the commands after it are still served), and the message about a
  timeout ends the conversation also when the client hung up itself.
\<close>

theorem session_implements_server:
  assumes "list_all plain_text cs"
    "serve sv (dm_backup_timer s) (dm_transfer_timer s) (map command_of cs) (dm_fs s) = Some (rs, fs')"
    "hung_up = [] \<or> hung_up = [\<lparr>tu_select = True, tu_read = Some [], tu_wrote = Wrote\<rparr>]"
  shows "client_session sv (map says cs @ hung_up) Wrote s = (Inr (), s\<lparr>dm_fs := fs',
      dm_close_request := (dm_close_request s \<or> C_CLOSE \<in> set (map command_of cs)),
      dm_sent := dm_sent s @ rs @ [timeout_msg]\<rparr>)"
  unfolding client_session_def using turns_serve [OF assms(1,2), of hung_up] assms(3)
  by (auto simp: bnd_def prog_simps write_client_def)

definition sample_services :: "(byte list, unit) services" where
  "sample_services = \<lparr>sv_sha = sample_sha, sv_fuel = 3, sv_offset = 0, sv_gettime = (\<lambda>_. 0)\<rparr>"

theorem session_implements_server_witness:
  "dm_sent (snd (client_session sample_services (map says [''frob'', ''Close'']) Wrote trio)) =
    [''Unknown command.'', ''Close accepted. Exit reportmand.'', timeout_msg]"
proof -
  have c: "command_of ''frob'' = C_UNKNOWN" "command_of ''Close'' = C_CLOSE"
    by code_simp+
  show ?thesis
    using session_implements_server [of "[''frob'', ''Close'']" sample_services trio
        "[''Unknown command.'', ''Close accepted. Exit reportmand.'']" "dm_fs trio" "[]"]
    by (simp add: c plain_text_def COMMUNICATION_BUFFER_SIZE_def trio_def)
qed

text \<open>
  C8: the daemon's loop, entered with no request to close, never just returns: it waits or
  ends the process. It exits with status 0 only if in some round it got to a client said
  close, on the socket \<open>poll\<close> had reported, or the signal it read next was SIGINT or SIGTERM;
  every other exit has status 1.
\<close>

theorem daemon_exit_status:
  assumes "listen_loop sv self L rs s = (r, s')" "\<not> dm_close_request s"
  shows "(\<exists>h. r = Inl h) \<and>
    (\<forall>n. r = Inl (Exit n) \<longrightarrow> n = 1 \<or> n = 0 \<and> (\<exists>rs1 rd rs2 t. rs = rs1 @ rd # rs2 \<and>
       after_rounds sv self L rs1 s = Some t \<and>
       ((\<exists>ext ts l. rd_poll rd = PollReady ext \<and>
           pollin ext (rd_before rd (dm_os t)) (me self) (d_socket self) \<and>
           rd_accept rd = Some (ts, l) \<and> list_ex says_close ts) \<or>
        (\<exists>n o1. sys_read_signal (rd_read_ok rd) (me self) (lf_signal L) (rd_before rd (dm_os t)) =
             (Inr (Some n), o1) \<and> (n = SIGINT \<or> n = SIGTERM)))))"
  using listen_loop_exit [OF assms]
  by (simp add: asked_to_end_def client_asks_def signal_asks_def)

text \<open>A round in which a client asks to close; the children end when they are told to.\<close>

definition close_round :: round where
  "close_round = (let w = trio_world id\<lparr>wo_exit := \<lambda>o1. o1\<lparr>procs := filter (\<lambda>e. fst e = 1) (procs o1)\<rparr>\<rparr> in
     \<lparr>rd_before = id, rd_poll = PollReady (\<lambda>f. f = 3), rd_read_ok = True,
      rd_accept = Some ([says ''close''], Wrote), rd_fm = id, rd_mon = id, rd_settime_ok = True,
      rd_fm_timer = id, rd_mon_timer = id, rd_fm_world = w, rd_mon_world = w, rd_end = w, rd_junk = 0\<rparr>)"

definition trio_fds :: listen_fds where
  "trio_fds = \<lparr>lf_signal = 8, lf_fm = 4, lf_mon = 5, lf_timer = 6\<rparr>"

lemma close_round_run:
  "fst (listen_loop sample_services trio_self trio_fds [close_round] trio) = Inl (Exit EXIT_SUCCESS)"
  by code_simp

theorem daemon_exit_status_witness:
  "fst (listen_loop sample_services trio_self trio_fds [close_round] trio) = Inl (Exit 0) \<and>
   (\<exists>ts l. rd_accept close_round = Some (ts, l) \<and> list_ex says_close ts)"
proof -
  let ?r = "listen_loop sample_services trio_self trio_fds [close_round] trio"
  have c: "\<not> dm_close_request trio" by (simp add: trio_def)
  have "\<not> signal_asks trio_self trio_fds close_round (dm_os trio)"
    by (simp add: signal_asks_def close_round_def Let_def sys_read_signal_def trio_self_def trio_fds_def
        trio_def trio_os_def fd_obj_def fds_of_def)
  moreover obtain rs1 rd rs2 t where "[close_round] = rs1 @ rd # rs2"
    "after_rounds sample_services trio_self trio_fds rs1 trio = Some t"
    "(\<exists>ts l. rd_accept rd = Some (ts, l) \<and> list_ex says_close ts) \<or>
      signal_asks trio_self trio_fds rd (dm_os t)"
    using daemon_exit_status [of _ _ _ _ _ "fst ?r" "snd ?r", OF _ c] close_round_run
    unfolding signal_asks_def by (metis less_numeral_extra(1) less_irrefl prod.collapse zero_neq_one)
  ultimately show ?thesis using close_round_run by (cases rs1) auto
qed

text \<open>
  C10: whatever happens in however many rounds, the counter of each child grows to at most four
  while the daemon lives, and to five only when it exits with status 1: there are at most four
  restarts in the daemon's life, however far apart, since nothing resets the counters.
\<close>

theorem restarts_bounded:
  assumes "listen_loop sv self L rs s = (Inl h, s')"
    "max_retries (child_of FM s) = 3" "max_retries (child_of MON s) = 3"
    "retries (child_of FM s) \<le> 4" "retries (child_of MON s) \<le> 4"
  shows "retries (child_of which s') \<le> 5 \<and> (h \<noteq> Exit EXIT_FAILURE \<longrightarrow> retries (child_of which s') \<le> 4)"
proof -
  have "max_retries (child_of which s) = 3 \<and> retries (child_of which s) \<le> 4" for which
    using assms(2-5) by (cases which) simp_all
  then have "restarts_left s" by (simp add: restarts_left_def)
  from listen_loop_restarts [OF assms(1) this] show ?thesis
    by (simp add: restarts_spent_def restarts_left_def)
qed

theorem restarts_bounded_witness:
  "retries (child_of FM (snd (listen_loop sample_services trio_self trio_fds [close_round] trio))) \<le> 4"
  using restarts_bounded [of sample_services trio_self trio_fds "[close_round]" trio "Exit EXIT_SUCCESS"
      "snd (listen_loop sample_services trio_self trio_fds [close_round] trio)" FM] close_round_run
  by (simp add: prod_eq_iff trio_def)

end
