(* ===== verification/RM_Client.thy ===== *)
theory RM_Client
  imports RM_ListenThms
begin

text \<open>
  The client \<open>src/reportmanc.c\<close>: \<open>main\<close> with \<open>error\<close>, over what the network does, and the client
  and the daemon joined: what the user sees of a list of commands.
\<close>

section \<open>The program\<close>

text \<open>What it prints on its standard output, and what it has sent.\<close>

record client =
  cl_out :: "string list"
  cl_sent :: "string list"

definition printf :: "string \<Rightarrow> (client, unit) prog" where
  "printf text = modify (\<lambda>s. s\<lparr>cl_out := cl_out s @ [text]\<rparr>)"

text \<open>\<open>error\<close> prints its message (the reason goes to standard error) and exits with status 0.\<close>

definition client_error :: "string \<Rightarrow> (client, 'a) prog" where
  "client_error msg = bnd (printf msg) (\<lambda>_. stop (Exit 0))"

record client_env =
  ce_socket :: bool
  ce_host :: bool
  ce_connect :: bool

text \<open>
  \<open>peer\<close> is what the connection does for each command: whether the \<open>write\<close> succeeds, and what
  the \<open>read\<close> after it gives, at most 1023 bytes (\<open>None\<close> on failure).
\<close>

fun client_commands :: "string list \<Rightarrow> (bool \<times> string option) list \<Rightarrow> (client, unit) prog" where
  "client_commands [] peer = ret ()"
| "client_commands (c # cs) [] = stop Blocked"
| "client_commands (c # cs) ((written, answer) # peer) =
     bnd (printf (''Sending command: '' @ c @ [CHR 0x0A])) (\<lambda>_.
       if \<not> written then client_error ''ERROR writing to socket''
       else
         bnd (modify (\<lambda>s. s\<lparr>cl_sent := cl_sent s @ [c]\<rparr>)) (\<lambda>_. case answer of
             None \<Rightarrow> client_error ''ERROR reading from socket''
           | Some b \<Rightarrow>
               bnd (printf (c_str (take (COMMUNICATION_BUFFER_SIZE - 1) b) @ [CHR 0x0A])) (\<lambda>_.
               client_commands cs peer)))"

definition client_main ::
  "client_env \<Rightarrow> string list \<Rightarrow> (bool \<times> string option) list \<Rightarrow> (client, unit) prog" where
  "client_main env argv peer =
     (case configure_client_args argv \<lparr>ca_daemon_port = REPORTMAND_BIND_PORT, ca_commands = []\<rparr> of
        Inl h \<Rightarrow> stop h
      | Inr args \<Rightarrow>
          if length (ca_commands args) < 1 then stop (Exit 1)
          else if \<not> ce_socket env then client_error ''ERROR opening socket''
          else if \<not> ce_host env then stop (Exit 0)
          else if \<not> ce_connect env then
            client_error (''ERROR connecting. reportmand is most likely not running on port '' @
              show_nat (unat (ca_daemon_port args)) @ [CHR ''.'', CHR 0x0A])
          else bnd (client_commands (ca_commands args) peer) (\<lambda>_. stop (Exit EXIT_SUCCESS)))"

section \<open>The conversation\<close>

definition transcript :: "string list \<Rightarrow> string list \<Rightarrow> string list" where
  "transcript cs rs = concat (map2 (\<lambda>c r. [''Sending command: '' @ c @ [CHR 0x0A], r @ [CHR 0x0A]]) cs rs)"

lemma client_commands_run:
  assumes "list_all (\<lambda>r. c_str r = r \<and> length r < COMMUNICATION_BUFFER_SIZE) rs" "length rs = length cs"
  shows "client_commands cs (map (\<lambda>r. (True, Some r)) rs @ peer) s =
    (Inr (), s\<lparr>cl_out := cl_out s @ transcript cs rs, cl_sent := cl_sent s @ cs\<rparr>)"
  using assms
proof (induction cs arbitrary: rs s)
  case Nil
  then show ?case by (simp add: ret_run transcript_def)
next
  case (Cons c cs)
  then obtain r rs' where rs: "rs = r # rs'" by (cases rs) auto
  have "take (COMMUNICATION_BUFFER_SIZE - 1) r = r" using Cons.prems rs by auto
  with Cons rs show ?case by (simp add: prog_simps printf_def prog_defs transcript_def)
qed

lemma promised_short:
  assumes "promised sv b t c fs = Some (r, fs')"
  shows "length r < COMMUNICATION_BUFFER_SIZE"
  using assms snprintf_buf_length [of COMMUNICATION_BUFFER_SIZE]
  by (cases c) (auto simp: errors_reply_def timers_reply_def Let_def COMMUNICATION_BUFFER_SIZE_def)

lemma serve_replies:
  assumes "serve sv b t cs fs = Some (rs, fs')"
  shows "list_all (\<lambda>r. c_str r = r \<and> length r < COMMUNICATION_BUFFER_SIZE) rs \<and> length rs = length cs"
  using assms
  by (induction cs arbitrary: fs rs)
    (auto split: option.splits dest: promised_c_str promised_short)

section \<open>Property\<close>

text \<open>
  C7: client and daemon together. For a command line of commands, the daemon answers each of
  them, the client prints each command and then the reply to it and nothing else, in their
  order, and exits with status 0; the directories end as the commands say. And the status is
  0 as well when no daemon can be reached: the client's failures are not visible in it.
\<close>

theorem client_daemon_conversation:
  assumes "cs \<noteq> []" "list_all positional cs" "list_all plain_text cs"
    "serve sv (dm_backup_timer s) (dm_transfer_timer s) (map command_of cs) (dm_fs s) = Some (rs, fs')"
  shows "\<exists>s'. client_session sv (map says cs) Wrote s = (Inr (), s') \<and> dm_fs s' = fs' \<and>
    (\<exists>replies. dm_sent s' = dm_sent s @ replies @ [timeout_msg] \<and>
      client_main \<lparr>ce_socket = True, ce_host = True, ce_connect = True\<rparr> cs
          (map (\<lambda>r. (True, Some r)) replies) \<lparr>cl_out = [], cl_sent = []\<rparr> =
        (Inl (Exit EXIT_SUCCESS), \<lparr>cl_out = transcript cs replies, cl_sent = cs\<rparr>)) \<and>
    fst (client_main \<lparr>ce_socket = True, ce_host = True, ce_connect = False\<rparr> cs [] \<lparr>cl_out = [], cl_sent = []\<rparr>) =
      Inl (Exit EXIT_SUCCESS)"
proof -
  have a: "configure_client_args cs \<lparr>ca_daemon_port = REPORTMAND_BIND_PORT, ca_commands = []\<rparr> =
      Inr \<lparr>ca_daemon_port = REPORTMAND_BIND_PORT, ca_commands = cs\<rparr>"
    using client_positional [OF assms(2), of "\<lparr>ca_daemon_port = REPORTMAND_BIND_PORT, ca_commands = []\<rparr>"] by simp
  have l: "\<not> length cs < 1" using assms(1) by (cases cs) simp_all
  note rs = serve_replies [OF assms(4)]
  have "client_session sv (map says cs) Wrote s = (Inr (), s\<lparr>dm_fs := fs',
      dm_close_request := (dm_close_request s \<or> C_CLOSE \<in> set (map command_of cs)),
      dm_sent := dm_sent s @ rs @ [timeout_msg]\<rparr>)"
    unfolding client_session_def using turns_serve [OF assms(3,4), of "[]"]
    by (simp add: bnd_def prog_simps write_client_def)
  moreover have "client_main \<lparr>ce_socket = True, ce_host = True, ce_connect = True\<rparr> cs
      (map (\<lambda>r. (True, Some r)) rs) \<lparr>cl_out = [], cl_sent = []\<rparr> =
      (Inl (Exit EXIT_SUCCESS), \<lparr>cl_out = transcript cs rs, cl_sent = cs\<rparr>)"
    using a l client_commands_run [of rs cs "[]" "\<lparr>cl_out = [], cl_sent = []\<rparr>"] rs
    by (simp add: client_main_def bnd_def stop_run)
  moreover have "fst (client_main \<lparr>ce_socket = True, ce_host = True, ce_connect = False\<rparr> cs [] \<lparr>cl_out = [], cl_sent = []\<rparr>) =
      Inl (Exit EXIT_SUCCESS)"
    using a l by (simp add: client_main_def client_error_def printf_def prog_defs)
  ultimately show ?thesis by auto
qed

theorem client_daemon_conversation_witness:
  "\<exists>s' replies. client_session sample_services (map says [''frob'', ''Close'']) Wrote trio = (Inr (), s') \<and>
    dm_sent s' = replies @ [timeout_msg] \<and>
    fst (client_main \<lparr>ce_socket = True, ce_host = True, ce_connect = True\<rparr> [''frob'', ''Close'']
      (map (\<lambda>r. (True, Some r)) replies) \<lparr>cl_out = [], cl_sent = []\<rparr>) = Inl (Exit EXIT_SUCCESS)"
proof -
  have c: "command_of ''frob'' = C_UNKNOWN" "command_of ''Close'' = C_CLOSE"
    by code_simp+
  show ?thesis
    using client_daemon_conversation [of "[''frob'', ''Close'']" sample_services trio
        "[''Unknown command.'', ''Close accepted. Exit reportmand.'']" "dm_fs trio"]
    by (auto simp: c plain_text_def positional_def COMMUNICATION_BUFFER_SIZE_def trio_def)
qed

end
