(* ===== verification/RM_FileManager.thy ===== *)
theory RM_FileManager
  imports RM_Parent
begin

text \<open>
  The file manager \<open>src/reportman_fm.c\<close>: its two schedules, its start, its service loop and
  \<open>main\<close>. A run of the loop is a list of wake-ups: what the other processes did while
  \<open>poll\<close> waited and how \<open>poll\<close> came back. The kernel delivers a timer's signal while the
  process waits there.
\<close>

section \<open>State\<close>

record fmproc =
  fp_os :: os
  fp_dt :: dirtool
  fp_backup_timer :: u64
  fp_transfer_timer :: u64

abbreviation on_fm_os :: "(os, 'a) prog \<Rightarrow> (fmproc, 'a) prog" where
  "on_fm_os \<equiv> within fp_os (\<lambda>o1 s. s\<lparr>fp_os := o1\<rparr>)"

abbreviation on_fm_dt :: "(dirtool, 'a) prog \<Rightarrow> (fmproc, 'a) prog" where
  "on_fm_dt \<equiv> within fp_dt (\<lambda>d s. s\<lparr>fp_dt := d\<rparr>)"

section \<open>The schedules\<close>

definition D_INTERVAL :: int where "D_INTERVAL = 24 * 60 * 60"

definition schedule_backup :: "timer_sys \<Rightarrow> int \<Rightarrow> (fmproc, unit) prog" where
  "schedule_backup sys transfer_time =
     bnd (on_fm_dt (transfer_at_time sys R_REPORTS_DIRECTORY R_DASHBOARD_DIRECTORY transfer_time D_INTERVAL BACKUP))
       (\<lambda>t. modify (\<lambda>s. s\<lparr>fp_backup_timer := word_of_nat t\<rparr>))"

definition schedule_transfer :: "timer_sys \<Rightarrow> int \<Rightarrow> (fmproc, unit) prog" where
  "schedule_transfer sys transfer_time =
     bnd (on_fm_dt (transfer_at_time sys R_DASHBOARD_DIRECTORY R_BACKUP_DIRECTORY transfer_time D_INTERVAL TRANSFER))
       (\<lambda>t. modify (\<lambda>s. s\<lparr>fp_transfer_timer := word_of_nat t\<rparr>))"

section \<open>The service loop\<close>

text \<open>
  One wake-up; \<open>fw_command\<close> and \<open>fw_junk\<close> are what the uninitialised variables hold, and
  \<open>fw_revents\<close> is the uninitialised \<open>revents\<close> of a descriptor \<open>poll\<close> is not given.
\<close>

record wake =
  fw_before :: "os \<Rightarrow> os"
  fw_poll :: poll_env
  fw_command :: u32
  fw_junk :: u64
  fw_revents :: bool
  fw_read_ok :: bool

record fm_setting =
  fs_pid :: pid
  fs_pipes :: ipc_pipes
  fs_debug :: bool
  fs_signal :: fd
  fs_polled :: "fd list"

definition fm_signal :: "fm_setting \<Rightarrow> bool \<Rightarrow> (os, flow) prog" where
  "fm_signal F read_ok =
     bnd (sys_read_signal read_ok (fs_pid F) (fs_signal F)) (\<lambda>n. case n of
         None \<Rightarrow> stop (Exit EXIT_FAILURE)
       | Some n \<Rightarrow> if n = SIGINT \<or> n = SIGTERM then ret Break else ret Continue)"

definition fm_round :: "('c, 'x) sha_scheme \<Rightarrow> nat \<Rightarrow> fm_setting \<Rightarrow> wake \<Rightarrow> (fmproc, flow) prog" where
  "fm_round H fuel F w =
     bnd (on_fm_os (modify (fw_before w))) (\<lambda>_. case fw_poll w of
       PollFails \<Rightarrow> stop (Exit EXIT_FAILURE)
     | PollInterrupted signo \<Rightarrow> bnd (on_fm_dt (deliver H fuel signo)) (\<lambda>_. stop (Exit EXIT_FAILURE))
     | PollReady ext \<Rightarrow> bnd (gets fp_os) (\<lambda>o1.
         if poll_blocks ext o1 (fs_pid F) (fs_polled F) then stop Blocked
         else
           (let parent = (if p_read (fs_pipes F) \<in> set (fs_polled F)
                          then pollin ext o1 (fs_pid F) (p_read (fs_pipes F)) else fw_revents w);
                sig = pollin ext o1 (fs_pid F) (fs_signal F) in
            bnd (if \<not> fs_debug F \<and> parent
                 then on_fm_os (fm_parent_command (fs_pid F) (fs_pipes F) (fw_command w) (fw_junk w))
                 else ret ()) (\<lambda>_.
            if sig then on_fm_os (fm_signal F (fw_read_ok w)) else ret Continue))))"

fun fm_loop :: "('c, 'x) sha_scheme \<Rightarrow> nat \<Rightarrow> fm_setting \<Rightarrow> wake list \<Rightarrow> (fmproc, unit) prog" where
  "fm_loop H fuel F [] = stop Blocked"
| "fm_loop H fuel F (w # ws) =
     bnd (fm_round H fuel F w) (\<lambda>flow. case flow of
       Continue \<Rightarrow> fm_loop H fuel F ws
     | Break \<Rightarrow>
         bnd (on_fm_os (shutdown_signals (fs_pid F) (fs_signal F) (fs_pipes F))) (\<lambda>_.
         stop (Exit EXIT_SUCCESS)))"

interpretation fm_service: service_loop "fm_loop H fuel F" "fm_round H fuel F" "\<lambda>f. f = Continue" "\<lambda>_. True"
  for H :: "('c, 'x) sha_scheme" and fuel F
  by unfold_locales (simp_all add: bnd_def stop_run)

section \<open>Starting\<close>

text \<open>
  \<open>fe_world\<close> is what the other processes do while the child waits for the daemon's
  acknowledgement.
\<close>

record fm_env =
  fe_backup_sys :: timer_sys
  fe_transfer_sys :: timer_sys
  fe_world :: "os \<Rightarrow> os"
  fe_junk :: u64
  fe_sig :: sig_env

text \<open>
  In debug mode the array of polled descriptors has one element and two are stored into it.
  A panic is sent when the signals cannot be set up; the loop is entered all the same.
\<close>

definition fm_serve ::
  "('c, 'x) sha_scheme \<Rightarrow> nat \<Rightarrow> fm_env \<Rightarrow> pid \<Rightarrow> fm_args \<Rightarrow> wake list \<Rightarrow> (fmproc, unit) prog" where
  "fm_serve H fuel env self_pid args ws =
     bnd (on_fm_os (r_initialize_signals (fe_sig env) self_pid)) (\<lambda>signal_fd.
     bnd (if signal_fd < 0 then on_fm_os (ipc_send_panic self_pid (fa_pipes args)) else ret (True, False)) (\<lambda>_.
       if fa_debug args then stop Undefined
       else fm_loop H fuel \<lparr>fs_pid = self_pid, fs_pipes = fa_pipes args, fs_debug = fa_debug args,
           fs_signal = signal_fd,
           fs_polled = (if p_read (fa_pipes args) > 0 then [signal_fd, p_read (fa_pipes args)] else [signal_fd])\<rparr> ws))"

definition fm_started_from_daemon ::
  "('c, 'x) sha_scheme \<Rightarrow> nat \<Rightarrow> fm_env \<Rightarrow> pid \<Rightarrow> fm_args \<Rightarrow> wake list \<Rightarrow> (fmproc, int) prog" where
  "fm_started_from_daemon H fuel env self_pid args ws =
     (if \<not> fa_from_daemon args then ret 0
      else if \<not> fa_debug args \<and> (p_read (fa_pipes args) < 0 \<or> p_write (fa_pipes args) < 0) then ret D_FAILURE
      else
        bnd (schedule_backup (fe_backup_sys env) (fa_backup_time args)) (\<lambda>_.
        bnd (schedule_transfer (fe_transfer_sys env) (fa_transfer_time args)) (\<lambda>_.
        bnd (if fa_debug args then ret D_SUCCESS
             else on_fm_os (acknowledge_daemon (fe_world env) self_pid (fa_pipes args) (fe_junk env))) (\<lambda>_.
        bnd (gets (\<lambda>s. (fp_backup_timer s, fp_transfer_timer s))) (\<lambda>(b, t).
        bnd (if fa_debug args then ret D_SUCCESS
             else on_fm_os (report_to_daemon self_pid (fa_pipes args) b t)) (\<lambda>_.
        bnd (fm_serve H fuel env self_pid args ws) (\<lambda>_. ret 0)))))))"

definition fm_main ::
  "('c, 'x) sha_scheme \<Rightarrow> nat \<Rightarrow> fm_env \<Rightarrow> pid \<Rightarrow> int \<Rightarrow> int \<Rightarrow> string list \<Rightarrow> wake list \<Rightarrow> (fmproc, unit) prog" where
  "fm_main H fuel env self_pid off now argv ws =
     (case configure_reportman_fm_args off now argv fm_args_init of
        Inl h \<Rightarrow> stop h
      | Inr args \<Rightarrow>
          bnd (fm_started_from_daemon H fuel env self_pid args ws) (\<lambda>_.
          bnd (if fa_do_backup args
               then on_fm_dt (dt_transfer H fuel (Some R_DASHBOARD_DIRECTORY) (Some R_BACKUP_DIRECTORY) BACKUP)
               else ret 0) (\<lambda>_.
          bnd (if fa_do_transfer args
               then on_fm_dt (dt_transfer H fuel (Some R_REPORTS_DIRECTORY) (Some R_DASHBOARD_DIRECTORY) TRANSFER)
               else ret 0) (\<lambda>_.
          stop (Exit EXIT_SUCCESS)))))"

section \<open>The state after both schedules\<close>

abbreviation timers_ok :: timer_sys where
  "timers_ok \<equiv> \<lparr>sigaction_ok = True, timer_create_ok = True, timer_settime_ok = True\<rparr>"

definition armed :: "int \<Rightarrow> int \<Rightarrow> dirtool \<Rightarrow> dirtool" where
  "armed t1 t2 d = d\<lparr>back_up_source_directory := Some R_REPORTS_DIRECTORY,
     back_up_target_directory := Some R_DASHBOARD_DIRECTORY,
     transfer_source_directory := Some R_DASHBOARD_DIRECTORY,
     transfer_target_directory := Some R_BACKUP_DIRECTORY,
     dt_handlers := (dt_handlers d)(34 \<mapsto> BackUpHandler, 35 \<mapsto> TransferHandler),
     dt_timers := dt_timers d @ [\<lparr>tm_signo = 34, it_value = t1, it_interval = D_INTERVAL\<rparr>,
       \<lparr>tm_signo = 35, it_value = t2, it_interval = D_INTERVAL\<rparr>]\<rparr>"

lemma schedules_run:
  "bnd (schedule_backup timers_ok t1) (\<lambda>_. schedule_transfer timers_ok t2) s =
    (Inr (), s\<lparr>fp_dt := armed t1 t2 (fp_dt s), fp_backup_timer := word_of_nat (length (dt_timers (fp_dt s))),
       fp_transfer_timer := word_of_nat (Suc (length (dt_timers (fp_dt s))))\<rparr>)"
  by (simp add: schedule_backup_def schedule_transfer_def transfer_at_time_def Let_def prog_simps prog_defs
      within_def set_timer_signals_def create_timer_abs_def start_timer_def SIGRTMIN_def method_number_def armed_def)

lemma armed_fields [simp]:
  "dt_fs (armed t1 t2 d) = dt_fs d" "back_up_source_directory (armed t1 t2 d) = Some R_REPORTS_DIRECTORY"
  "back_up_target_directory (armed t1 t2 d) = Some R_DASHBOARD_DIRECTORY"
  "deliver H fuel 34 (armed t1 t2 d) = back_up_directory H fuel 34 (armed t1 t2 d)"
  by (simp_all add: armed_def deliver_def)

section \<open>Properties\<close>

text \<open>
  C13: what the first scheduled backup does to a file manager run as root: every report is
  copied, in full where reading and writing do not fail, but below the dashboard directory,
  not the backup directory; and the handler's
  return interrupts \<open>poll\<close>, which the loop takes for a failure, so the process exits with
  status 1 after its first timer, whatever would have come later.
\<close>

theorem scheduled_backup_ends_file_manager:
  assumes "streaming H" "ready R_REPORTS_DIRECTORY R_DASHBOARD_DIRECTORY (dt_fs (fp_dt s))"
    "as_root (dt_fs (fp_dt s))" "view (dt_fs (fp_dt s)) (resolve R_REPORTS_DIRECTORY) = IsDir"
    "view (dt_fs (fp_dt s)) (resolve R_DASHBOARD_DIRECTORY) = IsDir"
    "compatible (resolve R_REPORTS_DIRECTORY) (resolve R_DASHBOARD_DIRECTORY) (dt_fs (fp_dt s))"
    "deep fuel (resolve R_REPORTS_DIRECTORY) (dt_fs (fp_dt s))" "fw_poll w = PollInterrupted 34"
  shows "\<exists>s'. bnd (schedule_backup timers_ok t1) (\<lambda>_. bnd (schedule_transfer timers_ok t2)
      (\<lambda>_. fm_loop H fuel F (w # ws))) s = (Inl (Exit EXIT_FAILURE), s') \<and>
    (\<forall>q c. view (dt_fs (fp_dt s)) (resolve R_REPORTS_DIRECTORY @ q) = IsFile c \<longrightarrow>
       view (dt_fs (fp_dt s')) (resolve R_DASHBOARD_DIRECTORY @ q) = IsFile (copied (fs_disk (dt_fs (fp_dt s)))
         (resolve R_REPORTS_DIRECTORY @ q) (resolve R_DASHBOARD_DIRECTORY @ q) c) \<and>
       (intact (fs_disk (dt_fs (fp_dt s)))
         (resolve R_REPORTS_DIRECTORY @ q) (resolve R_DASHBOARD_DIRECTORY @ q) \<longrightarrow>
         view (dt_fs (fp_dt s')) (resolve R_DASHBOARD_DIRECTORY @ q) = IsFile c))"
proof -
  let ?d = "armed t1 t2 (fp_dt s)"
  obtain fs' where b: "back_up_directory H fuel 34 ?d = (Inr (), ?d\<lparr>dt_fs := fs'\<rparr>)"
    and c: "\<And>q c. view (dt_fs ?d) (resolve R_REPORTS_DIRECTORY @ q) = IsFile c \<Longrightarrow>
      view fs' (resolve R_DASHBOARD_DIRECTORY @ q) = IsFile (copied (fs_disk (dt_fs ?d))
         (resolve R_REPORTS_DIRECTORY @ q) (resolve R_DASHBOARD_DIRECTORY @ q) c)"
    by (rule timed_backup_run [OF assms(1), of R_REPORTS_DIRECTORY R_DASHBOARD_DIRECTORY ?d fuel])
      (use assms in simp_all)
  let ?s1 = "s\<lparr>fp_dt := ?d, fp_backup_timer := word_of_nat (length (dt_timers (fp_dt s))),
       fp_transfer_timer := word_of_nat (Suc (length (dt_timers (fp_dt s))))\<rparr>"
  have "fm_loop H fuel F (w # ws) ?s1 = (Inl (Exit EXIT_FAILURE),
      ?s1\<lparr>fp_os := fw_before w (fp_os s), fp_dt := ?d\<lparr>dt_fs := fs'\<rparr>\<rparr>)"
    using b assms(8) by (simp add: fm_round_def prog_defs within_def)
  moreover have "bnd (schedule_backup timers_ok t1) (\<lambda>_. bnd (schedule_transfer timers_ok t2) (\<lambda>_. L)) s = L ?s1"
    for L :: "(fmproc, unit) prog"
    unfolding bnd_assoc [symmetric] by (rule trans [OF bnd_ok], rule schedules_run) (rule refl)
  ultimately show ?thesis using c by simp
qed

text \<open>A report waits in an otherwise empty set of directories.\<close>

definition srv_tree :: fsys where
  "srv_tree = \<lparr>fs_root = Dir 0x1FF [(''srv'', Dir 0x1FF [(''reportman'', Dir 0x1FF
     [(''reports'', Dir 0x1FF [(''q1'', File 0x1B6 [1, 2])]), (''dashboard'', Dir 0x1FF []),
      (''backup'', Dir 0x1FF [])])])], as_root = True, fs_umask = 0, fs_disk = good_disk\<rparr>"

lemma resolve_dirs:
  "resolve R_REPORTS_DIRECTORY = [''srv'', ''reportman'', ''reports'']"
  "resolve R_DASHBOARD_DIRECTORY = [''srv'', ''reportman'', ''dashboard'']"
  "resolve R_BACKUP_DIRECTORY = [''srv'', ''reportman'', ''backup'']"
  by (simp_all add: resolve_def R_REPORTS_DIRECTORY_def R_DASHBOARD_DIRECTORY_def R_BACKUP_DIRECTORY_def)

lemma srv_source: "lookup True (fs_root srv_tree) (resolve R_REPORTS_DIRECTORY) =
    Some (Dir 0x1FF [(''q1'', File 0x1B6 [1, 2])])"
  by (simp add: srv_tree_def resolve_dirs)

lemma srv_lengths:
  "length R_REPORTS_DIRECTORY = 22" "length R_DASHBOARD_DIRECTORY = 24" "length R_BACKUP_DIRECTORY = 21"
  by (simp_all add: R_REPORTS_DIRECTORY_def R_DASHBOARD_DIRECTORY_def R_BACKUP_DIRECTORY_def)

lemma srv_ready: "ready R_REPORTS_DIRECTORY R_DASHBOARD_DIRECTORY srv_tree"
  unfolding ready_def
  by (intro conjI tree_fitsI [OF srv_source])
    (simp_all add: resolve_dirs apart_def D_PATH_SIZE_def plain_name_def srv_lengths)

lemma srv_views:
  "view srv_tree (resolve R_REPORTS_DIRECTORY) = IsDir" "view srv_tree (resolve R_DASHBOARD_DIRECTORY) = IsDir"
  "view srv_tree (resolve R_REPORTS_DIRECTORY @ [''q1'']) = IsFile [1, 2]"
  by (simp_all add: view_def resolve_dirs srv_tree_def)

lemma srv_compatible: "compatible (resolve R_REPORTS_DIRECTORY) (resolve R_DASHBOARD_DIRECTORY) srv_tree"
  unfolding compatible_def
proof
  fix q show "fits_over (view srv_tree (resolve R_REPORTS_DIRECTORY @ q)) (view srv_tree (resolve R_DASHBOARD_DIRECTORY @ q))"
    by (cases q) (simp_all add: fits_over_def view_def resolve_dirs srv_tree_def)
qed

lemma srv_deep: "deep 1 (resolve R_REPORTS_DIRECTORY) srv_tree"
  by (rule deepI [OF srv_source]) simp

definition srv_fm :: "os \<Rightarrow> fmproc" where
  "srv_fm o1 = \<lparr>fp_os = o1, fp_dt = sample_dirtool\<lparr>dt_fs := srv_tree\<rparr>, fp_backup_timer = 0,
     fp_transfer_timer = 0\<rparr>"

definition sample_wake :: "poll_env \<Rightarrow> wake" where
  "sample_wake p = \<lparr>fw_before = id, fw_poll = p, fw_command = 0, fw_junk = 0, fw_revents = False,
     fw_read_ok = True\<rparr>"

definition sample_setting :: fm_setting where
  "sample_setting = \<lparr>fs_pid = 2, fs_pipes = \<lparr>p_write = 5, p_read = 6\<rparr>, fs_debug = False, fs_signal = 3,
     fs_polled = [3, 6]\<rparr>"

theorem scheduled_backup_ends_file_manager_witness:
  "\<exists>s'. bnd (schedule_backup timers_ok 100) (\<lambda>_. bnd (schedule_transfer timers_ok 200)
      (\<lambda>_. fm_loop sample_sha 1 sample_setting [sample_wake (PollInterrupted 34)])) (srv_fm trio_os) =
        (Inl (Exit EXIT_FAILURE), s') \<and>
    view (dt_fs (fp_dt s')) (resolve R_DASHBOARD_DIRECTORY @ [''q1'']) = IsFile [1, 2]"
proof -
  have f: "dt_fs (fp_dt (srv_fm trio_os)) = srv_tree" "as_root srv_tree" "fw_poll (sample_wake p) = p" for p
    by (simp_all add: srv_fm_def srv_tree_def sample_wake_def)
  have "\<exists>s'. bnd (schedule_backup timers_ok 100) (\<lambda>_. bnd (schedule_transfer timers_ok 200)
      (\<lambda>_. fm_loop sample_sha 1 sample_setting [sample_wake (PollInterrupted 34)])) (srv_fm trio_os) =
        (Inl (Exit EXIT_FAILURE), s') \<and>
    (\<forall>q c. view (dt_fs (fp_dt (srv_fm trio_os))) (resolve R_REPORTS_DIRECTORY @ q) = IsFile c \<longrightarrow>
       view (dt_fs (fp_dt s')) (resolve R_DASHBOARD_DIRECTORY @ q) = IsFile (copied (fs_disk (dt_fs (fp_dt (srv_fm trio_os))))
         (resolve R_REPORTS_DIRECTORY @ q) (resolve R_DASHBOARD_DIRECTORY @ q) c) \<and>
       (intact (fs_disk (dt_fs (fp_dt (srv_fm trio_os))))
         (resolve R_REPORTS_DIRECTORY @ q) (resolve R_DASHBOARD_DIRECTORY @ q) \<longrightarrow>
         view (dt_fs (fp_dt s')) (resolve R_DASHBOARD_DIRECTORY @ q) = IsFile c))"
    by (rule scheduled_backup_ends_file_manager [OF sample_streaming]; unfold f)
      (rule srv_ready refl srv_views srv_compatible srv_deep f)+
  moreover have "intact (fs_disk srv_tree) p q" for p q by (simp add: intact_def srv_tree_def)
  ultimately show ?thesis using srv_views(3) unfolding f by blast
qed

section \<open>Without a daemon\<close>

text \<open>
  With the parent's end of its pipe closed in every process and nothing in it, \<open>poll\<close> returns
  at once every time (\<open>POLLHUP\<close>), the loop looks for \<open>POLLIN\<close> only, and any number of rounds
  pass without a wait, an exit or any effect. While another process holds the write end,
  the loop waits and nothing wakes it.
\<close>

lemma orphaned_file_manager_spins:
  assumes "fs_polled F = [fs_signal F, p_read (fs_pipes F)]" "0 \<le> p_read (fs_pipes F)"
    "fd_obj (fp_os s) (fs_pid F) (p_read (fs_pipes F)) = Some (PipeR p)"
    "bufs (fp_os s) p = []" "\<not> holds (fp_os s) (PipeW p)"
    "\<not> pollin ext (fp_os s) (fs_pid F) (fs_signal F)" "fw_before w = id" "fw_poll w = PollReady ext"
  shows "fm_loop H fuel F (replicate n w @ ws) s = fm_loop H fuel F ws s"
proof (rule fm_service.idles)
  have "poll_reports ext (fp_os s) (fs_pid F) (p_read (fs_pipes F))"
    using assms(2-5) by (simp add: poll_reports_def)
  then have "\<not> poll_blocks ext (fp_os s) (fs_pid F) (fs_polled F)"
    using assms(1) by (simp add: poll_blocks_def)
  moreover have "\<not> pollin ext (fp_os s) (fs_pid F) (p_read (fs_pipes F))"
    using assms(3,4) by (simp add: pollin_def)
  ultimately show "fm_round H fuel F w s = (Inr Continue, s)"
    using assms(1,6-8) by (simp add: fm_round_def prog_defs within_def Let_def)
qed simp_all

lemma held_file_manager_waits:
  assumes "fs_polled F = [fs_signal F, p_read (fs_pipes F)]" "fw_before w (fp_os s) = o1"
    "fd_obj o1 (fs_pid F) (fs_signal F) = Some signalfd_obj"
    "fd_obj o1 (fs_pid F) (p_read (fs_pipes F)) = Some (PipeR p)" "bufs o1 p = []" "holds o1 (PipeW p)"
    "\<not> pollin ext o1 (fs_pid F) (fs_signal F)" "fw_poll w = PollReady ext"
  shows "fm_loop H fuel F (w # ws) s = (Inl Blocked, s\<lparr>fp_os := o1\<rparr>)"
proof -
  have "poll_blocks ext o1 (fs_pid F) (fs_polled F)"
    using assms(1,3-7) by (simp add: poll_blocks_def poll_reports_def signalfd_obj_def)
  then have "fm_round H fuel F w s = (Inl Blocked, s\<lparr>fp_os := o1\<rparr>)"
    using assms(2,8) by (simp add: fm_round_def prog_defs within_def)
  then show ?thesis by (rule fm_service.stops [OF TrueI])
qed

text \<open>A handler that returns leaves \<open>poll\<close> interrupted, and the process exits.\<close>

lemma interrupted_file_manager_exits:
  assumes "fw_poll w = PollInterrupted signo" "fst (deliver H fuel signo (fp_dt s)) = Inr ()"
  shows "fst (fm_loop H fuel F (w # ws) s) = Inl (Exit EXIT_FAILURE)"
  using assms by (cases "deliver H fuel signo (fp_dt s)") (simp add: fm_round_def prog_defs within_def)

text \<open>A file manager whose next signal is SIGTERM closes its descriptors and exits with status 0.\<close>

lemma told_file_manager_ends:
  assumes "fs_polled F = [fs_signal F, p_read (fs_pipes F)]" "0 \<le> fs_signal F"
    "fd_obj (fp_os s) (fs_pid F) (fs_signal F) = Some signalfd_obj"
    "map_of (procs (fp_os s)) (fs_pid F) = Some p" "pending p = Some (SIGTERM # l)"
    "\<not> pollin ext (fp_os s) (fs_pid F) (p_read (fs_pipes F))"
    "fw_before w = id" "fw_poll w = PollReady ext" "fw_read_ok w"
  shows "fst (fm_loop H fuel F (w # ws) s) = Inl (Exit EXIT_SUCCESS)"
proof -
  have sig: "pollin ext (fp_os s) (fs_pid F) (fs_signal F)"
    using assms(2-5) by (simp add: pollin_def signalfd_obj_def)
  then have nb: "\<not> poll_blocks ext (fp_os s) (fs_pid F) (fs_polled F)"
    using pollin_reports [OF sig] assms(1) by (simp add: poll_blocks_def)
  have "fm_round H fuel F w s = (Inr Break, s\<lparr>fp_os := upd_proc (fs_pid F) (\<lambda>p. p\<lparr>pending := Some l\<rparr>) (fp_os s)\<rparr>)"
    using sig nb assms(1,6-9) sys_read_signal_next [OF assms(3-5)]
    by (simp add: fm_round_def prog_defs within_def Let_def fm_signal_def)
  then show ?thesis
    by (simp add: bnd_def shutdown_signals_def prog_defs within_def sys_close_def)
qed

end
