(* ===== verification/RM_Monitor.thy ===== *)
theory RM_Monitor
  imports RM_Config
begin

unbundle bit_operations_syntax

text \<open>
  The monitor's library \<open>src/libs/monitor_tool.c\<close>: reading a buffer of inotify events with the
  macros of \<open>monitor_tool.h\<close>, the message of an event, and the log file. Events are kept as
  the bytes the kernel writes.
\<close>

section \<open>Events in a buffer\<close>

definition INOTIFY_BUFFER_SIZE :: nat where "INOTIFY_BUFFER_SIZE = 8192"

record inotify_event =
  ev_wd :: u32
  ev_mask :: u32
  ev_cookie :: u32
  ev_len :: u32
  ev_name :: string

text \<open>Four bytes at an offset, in memory order.\<close>

definition u32_at :: "nat \<Rightarrow> byte list \<Rightarrow> u32" where
  "u32_at off buffer = ucast (word_of_bytes (take 4 (drop off buffer)))"

definition chars_of :: "byte list \<Rightarrow> string" where
  "chars_of = map (\<lambda>b. char_of (unat b))"

text \<open>The header of 16 bytes, and the name behind it up to the first NUL.\<close>

definition event_at :: "nat \<Rightarrow> byte list \<Rightarrow> inotify_event" where
  "event_at off buffer = \<lparr>ev_wd = u32_at off buffer, ev_mask = u32_at (off + 4) buffer,
     ev_cookie = u32_at (off + 8) buffer, ev_len = u32_at (off + 12) buffer,
     ev_name = c_str (chars_of (drop (off + 16) buffer))\<rparr>"

definition IN_EVENT_DATA_LEN :: int where "IN_EVENT_DATA_LEN = 16"

definition IN_EVENT_OK :: "inotify_event \<Rightarrow> int \<Rightarrow> bool" where
  "IN_EVENT_OK event len \<longleftrightarrow> len \<ge> IN_EVENT_DATA_LEN \<and>
     uint (ev_len event) \<ge> IN_EVENT_DATA_LEN \<and> uint (ev_len event) \<le> len"

text \<open>
  The loop of \<open>__monitor_paths\<close> over one buffer: the events handed to \<open>mt_event_process\<close>, in
  order. \<open>IN_EVENT_NEXT\<close> moves on by \<open>len\<close>, the length of the name alone.
\<close>

function events_from :: "byte list \<Rightarrow> nat \<Rightarrow> int \<Rightarrow> inotify_event list" where
  "events_from buffer off len =
     (let event = event_at off buffer in
      if \<not> IN_EVENT_OK event len then []
      else event # events_from buffer (off + unat (ev_len event)) (len - uint (ev_len event)))"
  by pat_completeness auto
termination
  by (relation "measure (\<lambda>(buffer, off, len). nat len)")
    (auto simp: IN_EVENT_OK_def IN_EVENT_DATA_LEN_def)

declare events_from.simps [simp del]

section \<open>Masks\<close>

definition IN_ACCESS :: u32 where "IN_ACCESS = 0x1"
definition IN_MODIFY :: u32 where "IN_MODIFY = 0x2"
definition IN_ATTRIB :: u32 where "IN_ATTRIB = 0x4"
definition IN_CLOSE_WRITE :: u32 where "IN_CLOSE_WRITE = 0x8"
definition IN_CLOSE_NOWRITE :: u32 where "IN_CLOSE_NOWRITE = 0x10"
definition IN_OPEN :: u32 where "IN_OPEN = 0x20"
definition IN_MOVED_FROM :: u32 where "IN_MOVED_FROM = 0x40"
definition IN_MOVED_TO :: u32 where "IN_MOVED_TO = 0x80"
definition IN_CREATE :: u32 where "IN_CREATE = 0x100"
definition IN_DELETE :: u32 where "IN_DELETE = 0x200"
definition IN_DELETE_SELF :: u32 where "IN_DELETE_SELF = 0x400"
definition IN_MOVE_SELF :: u32 where "IN_MOVE_SELF = 0x800"

lemmas in_masks = IN_ACCESS_def IN_MODIFY_def IN_ATTRIB_def IN_CLOSE_WRITE_def IN_CLOSE_NOWRITE_def
  IN_OPEN_def IN_MOVED_FROM_def IN_MOVED_TO_def IN_CREATE_def IN_DELETE_def IN_DELETE_SELF_def
  IN_MOVE_SELF_def

definition mon_t_event_mask :: u32 where
  "mon_t_event_mask = IN_ACCESS OR IN_ATTRIB OR IN_MODIFY OR IN_CREATE OR IN_DELETE OR IN_OPEN OR
     IN_CLOSE_WRITE OR IN_CLOSE_NOWRITE OR IN_DELETE_SELF OR IN_MOVE_SELF OR IN_MOVED_FROM OR IN_MOVED_TO"

definition event_masks :: "(u32 \<times> string) list" where
  "event_masks =
     [(IN_ACCESS, ''IN_ACCESS''), (IN_ATTRIB, ''IN_ATTRIB''), (IN_OPEN, ''IN_OPEN''),
      (IN_CLOSE_WRITE, ''IN_CLOSE_WRITE''), (IN_CLOSE_NOWRITE, ''IN_CLOSE_NOWRITE''),
      (IN_CREATE, ''IN_CREATE''), (IN_DELETE, ''IN_DELETE''), (IN_DELETE_SELF, ''IN_DELETE_SELF''),
      (IN_MODIFY, ''IN_MODIFY''), (IN_MOVE_SELF, ''IN_MOVE_SELF''), (IN_MOVED_FROM, ''IN_MOVED_FROM''),
      (IN_MOVED_TO, ''IN_MOVED_TO'')]"

fun first_mask :: "u32 \<Rightarrow> (u32 \<times> string) list \<Rightarrow> string" where
  "first_mask m [] = ''UNKNOWN''"
| "first_mask m ((bits, message) # rest) = (if m AND bits = 0 then first_mask m rest else message)"

definition get_log_message :: "inotify_event \<Rightarrow> string" where
  "get_log_message event = first_mask (ev_mask event) event_masks"

section \<open>The log\<close>

record dir_monitored =
  dm_path :: string
  dm_wd :: u32

record monlog =
  ml_conf :: monitor_conf
  ml_fd :: "string option"
  ml_files :: "string \<Rightarrow> string"
  ml_syslog :: "string list"

definition monlog_init :: "(string \<Rightarrow> string) \<Rightarrow> monlog" where
  "monlog_init files = \<lparr>ml_conf = \<lparr>log_file = M_LOG_PATH, log_sys_name = ''reportmand_monitor'',
     log_to_sys = False, log_to_file = True, log_to_stdout = False\<rparr>,
     ml_fd = None, ml_files = files, ml_syslog = []\<rparr>"

text \<open>Which of the three ways to open the log file succeed.\<close>

record log_env =
  le_read :: bool
  le_write :: bool
  le_append :: bool

definition M_LOG_FILE_CREATE_ERR :: int where "M_LOG_FILE_CREATE_ERR = -1"
definition M_LOG_FILE_CREATED :: int where "M_LOG_FILE_CREATED = 2"
definition M_LOG_FILE_EXISTED :: int where "M_LOG_FILE_EXISTED = 1"

definition mt_initialize_log_file :: "log_env \<Rightarrow> (monlog, int) prog" where
  "mt_initialize_log_file env m =
     (let path = log_file (ml_conf m) in
      if \<not> le_read env then
        (if \<not> le_write env then (Inr M_LOG_FILE_CREATE_ERR, m)
         else (Inr M_LOG_FILE_CREATED,
               m\<lparr>ml_fd := Some path, ml_files := (ml_files m)(path := [])\<rparr>))
      else (Inr M_LOG_FILE_EXISTED, m\<lparr>ml_fd := (if le_append env then Some path else None)\<rparr>))"

definition mt_close_log_file :: "(monlog, int) prog" where
  "mt_close_log_file m = (case ml_fd m of None \<Rightarrow> (Inr D_FAILURE, m) | Some p \<Rightarrow> (Inr 0, m\<lparr>ml_fd := None\<rparr>))"

definition mt_update_monitor_conf :: "monitor_conf \<Rightarrow> (monlog, unit) prog" where
  "mt_update_monitor_conf c = modify (\<lambda>m. m\<lparr>ml_conf := (ml_conf m)\<lparr>log_file := log_file c,
     log_sys_name := log_sys_name c, log_to_sys := log_to_sys c, log_to_file := log_to_file c\<rparr>\<rparr>)"

text \<open>
  \<open>syslog(LOG_NOTICE, message)\<close> takes the message as a format. A conversion other than
  \<open>%%\<close> and \<open>%m\<close> reads an argument that is not there.
\<close>

fun plain_format :: "string \<Rightarrow> bool" where
  "plain_format [] \<longleftrightarrow> True"
| "plain_format (c # cs) \<longleftrightarrow>
     (if c \<noteq> CHR ''%'' then plain_format cs
      else (case cs of [] \<Rightarrow> False | d # ds \<Rightarrow> (d = CHR ''%'' \<or> d = CHR ''m'') \<and> plain_format ds))"

definition syslog_format :: "string \<Rightarrow> (monlog, unit) prog" where
  "syslog_format message m =
     (if plain_format message then (Inr (), m\<lparr>ml_syslog := ml_syslog m @ [message]\<rparr>)
      else (Inl Undefined, m))"

text \<open>
  The notice of \<open>__monitor_paths\<close> for one directory. Each \<open>snprintf\<close> after the first prints the
  buffer into itself with the format's first \<open>%s\<close>, which leaves what stands there and appends.
\<close>

definition listing_message :: "monitor_conf \<Rightarrow> string \<Rightarrow> string" where
  "listing_message conf dir =
     (let put = \<lambda>b s. snprintf_buf (4 * 4096) (b @ s);
          m0 = put [] (''Monitoring '' @ dir @ '' '');
          m1 = (if log_to_sys conf then put m0 (''to syslog ('' @ log_sys_name conf @ '')'') else m0);
          m2 = (if log_to_sys conf \<and> log_to_file conf then put m1 '' and '' else m1) in
      if log_to_file conf then put m2 (''to log file('' @ dir @ '')'') else m2)"

fun list_directories :: "monitor_conf \<Rightarrow> string list \<Rightarrow> (monlog, unit) prog" where
  "list_directories conf [] = ret ()"
| "list_directories conf (d # ds) =
     bnd (syslog_format (listing_message conf d)) (\<lambda>_. list_directories conf ds)"

text \<open>Everything up to the first newline, and whether there was one.\<close>

definition remove_new_line :: "string \<Rightarrow> string \<times> bool" where
  "remove_new_line str =
     (takeWhile (\<lambda>c. c \<noteq> CHR 0x0A) str, CHR 0x0A \<in> set str)"

text \<open>
  \<open>__log_event\<close>. Writing to a null stream is undefined; the newline is removed from the
  system log's message, which is not used any more.
\<close>

definition log_event :: "string \<Rightarrow> string \<Rightarrow> (monlog, unit) prog" where
  "log_event event_file_message event_log_message =
     bnd (gets ml_conf) (\<lambda>conf.
     bnd (if log_to_sys conf then syslog_format event_log_message else ret ()) (\<lambda>_.
       if \<not> log_to_file conf then ret ()
       else bnd (gets ml_fd) (\<lambda>fd. case fd of
         None \<Rightarrow> stop Undefined
       | Some path \<Rightarrow> modify (\<lambda>m. m\<lparr>ml_files := (ml_files m)(path := ml_files m path @ event_file_message @ [CHR 0x0A])\<rparr>))))"

section \<open>Processing an event\<close>

definition M_LOG_BUFFER_SIZE :: nat where "M_LOG_BUFFER_SIZE = 1024"
definition M_DATE_STRING_SIZE :: nat where "M_DATE_STRING_SIZE = 32"

definition get_current_date_time :: "int \<Rightarrow> int \<Rightarrow> string" where
  "get_current_date_time off t =
     (let x = localtime off t in
      snprintf_buf M_DATE_STRING_SIZE
        (show_nat (tm_year x) @ ''-'' @ show_nat (tm_mon x + 1) @ ''-'' @ show_int (tm_mday x) @ '' '' @
         show_int (tm_hour x) @ '':'' @ show_int (tm_min x) @ '':'' @ show_int (tm_sec x)))"

definition event_log_message :: "dir_monitored \<Rightarrow> inotify_event \<Rightarrow> string" where
  "event_log_message d event = snprintf_buf M_LOG_BUFFER_SIZE
     (''Received event in '' @ [CHR 0x27] @ dm_path d @ ''/'' @ ev_name event @ [CHR 0x27] @ '': '' @
      get_log_message event @ '' by '' @ ''UNIMPLEMENTED'')"

definition event_file_message :: "string \<Rightarrow> dir_monitored \<Rightarrow> inotify_event \<Rightarrow> string" where
  "event_file_message time_string d event = snprintf_buf M_LOG_BUFFER_SIZE
     (if ev_len event > 0
      then get_log_message event @ '' by ['' @ ''UNIMPLEMENTED'' @ ''] @ ['' @ time_string @ '']: '' @
        dm_path d @ ''/'' @ ev_name event
      else get_log_message event @ '' by ['' @ time_string @ ''] @ '' @ ''UNIMPLEMENTED'' @ '': '' @
        dm_path d @ ''/'' @ ev_name event)"

text \<open>\<open>off\<close> and \<open>t\<close> are the time zone's offset and the time the clock shows.\<close>

fun mt_event_process :: "int \<Rightarrow> int \<Rightarrow> inotify_event \<Rightarrow> dir_monitored list \<Rightarrow> (monlog, unit) prog" where
  "mt_event_process off t event [] = ret ()"
| "mt_event_process off t event (d # monitors) =
     (if dm_wd d \<noteq> ev_wd event then mt_event_process off t event monitors
      else log_event (event_file_message (get_current_date_time off t) d event) (event_log_message d event))"

text \<open>All events of one buffer.\<close>

fun process_events :: "int \<Rightarrow> int \<Rightarrow> inotify_event list \<Rightarrow> dir_monitored list \<Rightarrow> (monlog, unit) prog" where
  "process_events off t [] monitors = ret ()"
| "process_events off t (e # es) monitors =
     bnd (mt_event_process off t e monitors) (\<lambda>_. process_events off t es monitors)"

section \<open>Watches\<close>

text \<open>
  \<open>add_watch\<close> is what \<open>inotify_add_watch\<close> answers for a path: a watch descriptor or an error.
\<close>

fun add_watches :: "(string \<Rightarrow> u32 option) \<Rightarrow> string list \<Rightarrow> halt + dir_monitored list" where
  "add_watches add_watch [] = Inr []"
| "add_watches add_watch (p # ps) =
     (case add_watch p of
        None \<Rightarrow> Inl (Exit EXIT_FAILURE)
      | Some wd \<Rightarrow>
          (case add_watches add_watch ps of
             Inl h \<Rightarrow> Inl h
           | Inr ms \<Rightarrow> Inr (\<lparr>dm_path = p, dm_wd = wd\<rparr> # ms)))"

definition mt_initialize_inotify ::
  "bool \<Rightarrow> (string \<Rightarrow> u32 option) \<Rightarrow> string list \<Rightarrow> halt + dir_monitored list option" where
  "mt_initialize_inotify init_ok add_watch paths =
     (if \<not> init_ok then Inr None
      else (case add_watches add_watch paths of Inl h \<Rightarrow> Inl h | Inr ms \<Rightarrow> Inr (Some ms)))"

definition mt_shutdown_inotify :: "dir_monitored list \<Rightarrow> u32 list \<Rightarrow> u32 list" where
  "mt_shutdown_inotify monitors watched = filter (\<lambda>wd. wd \<notin> set (map dm_wd monitors)) watched"

section \<open>What the kernel writes\<close>

definition u32_bytes :: "u32 \<Rightarrow> byte list" where
  "u32_bytes w = map (\<lambda>i. ucast (drop_bit (8 * i) w)) [0..<4]"

definition name_bytes :: "string \<Rightarrow> byte list" where
  "name_bytes name = map (\<lambda>c. word_of_nat (of_char c)) name"

text \<open>
  An event with a name: the name is ended by a NUL and padded with NULs to a multiple of
  sixteen bytes. And an event of the watched directory itself, which has no name.
\<close>

definition name_room :: "string \<Rightarrow> nat" where
  "name_room name = 16 * Suc (length name div 16)"

definition kernel_event :: "u32 \<Rightarrow> u32 \<Rightarrow> u32 \<Rightarrow> string \<Rightarrow> byte list" where
  "kernel_event wd msk cookie name = u32_bytes wd @ u32_bytes msk @ u32_bytes cookie @
     u32_bytes (word_of_nat (name_room name)) @ name_bytes name @ replicate (name_room name - length name) 0"

definition kernel_self_event :: "u32 \<Rightarrow> u32 \<Rightarrow> u32 \<Rightarrow> byte list" where
  "kernel_self_event wd msk cookie = u32_bytes wd @ u32_bytes msk @ u32_bytes cookie @ u32_bytes 0"

lemma length_u32_bytes [simp]: "length (u32_bytes w) = 4"
  by (simp add: u32_bytes_def)

lemma length_name_bytes [simp]: "length (name_bytes n) = length n"
  by (simp add: name_bytes_def)

lemma u32_of_bytes: "ucast (word_of_bytes (u32_bytes w)) = w"
proof (rule bit_word_eqI)
  fix n assume n: "n < LENGTH(32)"
  then have "n div 8 < 4" by simp
  then show "bit (ucast (word_of_bytes (u32_bytes w)) :: u32) n \<longleftrightarrow> bit w n"
    using n by (simp add: bit_ucast_iff bit_word_of_bytes u32_bytes_def bit_drop_bit_eq)
qed

lemma u32_at_skip: "length xs = n \<Longrightarrow> u32_at (n + k) (xs @ ys) = u32_at k ys"
  by (simp add: u32_at_def)

lemma u32_at_here: "u32_at 0 (u32_bytes w @ ys) = w"
  by (simp add: u32_at_def u32_of_bytes)

lemma header_fields:
  "u32_at 0 (u32_bytes a @ u32_bytes b @ u32_bytes c @ u32_bytes d @ ys) = a"
  "u32_at 4 (u32_bytes a @ u32_bytes b @ u32_bytes c @ u32_bytes d @ ys) = b"
  "u32_at 8 (u32_bytes a @ u32_bytes b @ u32_bytes c @ u32_bytes d @ ys) = c"
  "u32_at 12 (u32_bytes a @ u32_bytes b @ u32_bytes c @ u32_bytes d @ ys) = d"
  by (simp_all add: u32_at_def u32_of_bytes)

lemma chars_of_name: "chars_of (name_bytes n) = n"
proof -
  have "unat (word_of_nat (of_char c) :: byte) = of_char c" for c
    by (simp add: unat_of_nat)
  then show ?thesis by (simp add: chars_of_def name_bytes_def map_idI)
qed

lemma name_read:
  assumes "CHR 0x00 \<notin> set n" "0 < k"
  shows "c_str (chars_of (name_bytes n @ replicate k 0 @ rest)) = n"
proof -
  obtain j where "k = Suc j" using assms(2) by (cases k) auto
  then have "chars_of (name_bytes n @ replicate k 0 @ rest) = n @ CHR 0x00 # chars_of (replicate j 0 @ rest)"
    using chars_of_name [of n] by (simp add: chars_of_def char_of_def)
  then show ?thesis using assms(1) unfolding c_str_def
    by (simp add: takeWhile_append2 [where xs = n] takeWhile_tail) (metis (mono_tags) takeWhile_eq_all_conv)
qed

text \<open>The longest name a directory entry can have.\<close>

definition NAME_MAX :: nat where "NAME_MAX = 255"

lemma name_room_bounds:
  "length name < name_room name" "16 \<le> name_room name"
  "length name \<le> NAME_MAX \<Longrightarrow> name_room name \<le> 256"
  "length name mod 16 \<le> 12 \<Longrightarrow> length name + 4 \<le> name_room name"
proof -
  have d: "length name = 16 * (length name div 16) + length name mod 16" by simp
  show "length name < name_room name" "16 \<le> name_room name"
    using d mod_less_divisor [of 16 "length name"] by (simp_all add: name_room_def)
  show "length name + 4 \<le> name_room name" if "length name mod 16 \<le> 12"
    using that by (simp add: name_room_def) presburger
  show "name_room name \<le> 256" if "length name \<le> NAME_MAX"
  proof -
    have "length name div 16 \<le> NAME_MAX div 16" using that by (rule div_le_mono)
    then show ?thesis by (simp add: name_room_def NAME_MAX_def)
  qed
qed

lemma name_room_word: "length name \<le> NAME_MAX \<Longrightarrow> unat (word_of_nat (name_room name) :: u32) = name_room name"
  using name_room_bounds(3) [of name] by (simp add: unat_of_nat)

lemma length_kernel_event: "length (kernel_event wd msk cookie name) = 16 + name_room name"
  using name_room_bounds(1) [of name] by (simp add: kernel_event_def)

lemma kernel_event_fields:
  assumes "0 < length name" "CHR 0x00 \<notin> set name"
  shows "event_at 0 (kernel_event wd msk cookie name @ rest) =
    \<lparr>ev_wd = wd, ev_mask = msk, ev_cookie = cookie, ev_len = word_of_nat (name_room name), ev_name = name\<rparr>"
proof -
  have "0 < name_room name - length name" using name_room_bounds(1) [of name] by simp
  from name_read [OF assms(2) this, of rest] show ?thesis
    by (simp add: event_at_def kernel_event_def header_fields)
qed

text \<open>What stands at the end of a name's room where four bytes of padding are left.\<close>

lemma kernel_event_padding:
  assumes "length name mod 16 \<le> 12"
  shows "take 4 (drop (name_room name + 12) (kernel_event wd msk cookie name @ rest)) = replicate 4 0"
proof -
  obtain k where k: "name_room name = length name + 4 + k"
    using name_room_bounds(4) [OF assms] by (metis le_Suc_ex)
  have "kernel_event wd msk cookie name =
      (u32_bytes wd @ u32_bytes msk @ u32_bytes cookie @ u32_bytes (word_of_nat (name_room name)) @
        name_bytes name @ replicate k 0) @ replicate 4 0"
    by (simp add: kernel_event_def k add.commute flip: replicate_add)
  then show ?thesis by (simp add: k)
qed

text \<open>Four zero bytes make a length of zero, and an event of length zero ends the loop.\<close>

lemma zero_length_stops:
  assumes "take 4 (drop (off + 12) buffer) = replicate 4 0"
  shows "events_from buffer off len = []"
proof -
  have "u32_at (off + 12) buffer = 0"
    unfolding u32_at_def assms by (simp add: numeral_eq_Suc)
  then have "\<not> IN_EVENT_OK (event_at off buffer) len"
    by (simp add: IN_EVENT_OK_def event_at_def IN_EVENT_DATA_LEN_def)
  then show ?thesis by (subst events_from.simps) (simp add: Let_def)
qed

section \<open>Properties\<close>

text \<open>
  Of everything the kernel delivers in one read the monitor handles the first event only,
  when at least four bytes of padding follow that event's file name, and nothing at all when
  the first event is one of the watched directory itself: the loop takes the length of the
  name for the length of the event, so it goes on inside the name.
\<close>

lemma first_event_only:
  assumes "0 < length name" "length name \<le> NAME_MAX" "length name mod 16 \<le> 12" "CHR 0x00 \<notin> set name"
  shows "events_from (kernel_event wd msk cookie name @ more_events) 0
      (int (length (kernel_event wd msk cookie name @ more_events))) =
    [\<lparr>ev_wd = wd, ev_mask = msk, ev_cookie = cookie, ev_len = word_of_nat (name_room name), ev_name = name\<rparr>]"
proof -
  let ?b = "kernel_event wd msk cookie name @ more_events"
  note e = kernel_event_fields [OF assms(1,4), of wd msk cookie more_events]
  note u = name_room_word [OF assms(2)]
  have stop: "events_from ?b (name_room name) l = []" for l
    by (rule zero_length_stops [OF kernel_event_padding [OF assms(3)]])
  have "uint (word_of_nat (name_room name) :: u32) = int (name_room name)"
    using u by (simp add: uint_nat)
  then have ok: "IN_EVENT_OK (event_at 0 ?b) (int (length ?b))"
    using e assms(1) name_room_bounds(1,2) [of name]
    by (simp add: IN_EVENT_OK_def IN_EVENT_DATA_LEN_def length_kernel_event)
  show ?thesis using ok e u stop by (subst events_from.simps) (simp add: Let_def)
qed

lemma self_event_stops: "events_from (kernel_self_event wd msk cookie @ more_events) 0 len = []"
proof (rule zero_length_stops)
  show "take 4 (drop (0 + 12) (kernel_self_event wd msk cookie @ more_events)) = replicate 4 0"
    by (simp add: kernel_self_event_def) (simp add: u32_bytes_def numeral_eq_Suc)
qed

lemma and_or_zero: "((m :: u32) AND (a OR b) = 0) = (m AND a = 0 \<and> m AND b = 0)"
  by (auto simp: bit_eq_iff bit_and_iff bit_or_iff)

text \<open>
  The table of messages covers exactly the subscription: an event is called UNKNOWN if
  and only if it carries none of the bits the watches ask for.
\<close>

lemma log_message_covers_subscription:
  "get_log_message event = ''UNKNOWN'' \<longleftrightarrow> ev_mask event AND mon_t_event_mask = 0"
  by (auto simp: get_log_message_def event_masks_def mon_t_event_mask_def and_or_zero)

text \<open>
  An event is logged once, for the first watch that has its descriptor, as one line of at
  most 1023 characters at the end of the open log file, and an event of no watch changes
  nothing.
\<close>

lemma event_logged:
  assumes "log_to_file (ml_conf m)" "\<not> log_to_sys (ml_conf m)" "ml_fd m = Some path"
  shows "mt_event_process off t event monitors m =
     (case find (\<lambda>d. dm_wd d = ev_wd event) monitors of
        None \<Rightarrow> (Inr (), m)
      | Some d \<Rightarrow> (Inr (), m\<lparr>ml_files := (ml_files m)(path := ml_files m path @
          event_file_message (get_current_date_time off t) d event @ [CHR 0x0A])\<rparr>)) \<and>
    length (event_file_message (get_current_date_time off t) d event) < 1024"
proof
  show "mt_event_process off t event monitors m =
     (case find (\<lambda>d. dm_wd d = ev_wd event) monitors of
        None \<Rightarrow> (Inr (), m)
      | Some d \<Rightarrow> (Inr (), m\<lparr>ml_files := (ml_files m)(path := ml_files m path @
          event_file_message (get_current_date_time off t) d event @ [CHR 0x0A])\<rparr>))"
    using assms by (induction monitors) (simp_all add: prog_simps log_event_def)
  show "length (event_file_message (get_current_date_time off t) d event) < 1024"
    by (simp add: event_file_message_def snprintf_buf_def M_LOG_BUFFER_SIZE_def)
qed

definition sample_monlog :: monlog where
  "sample_monlog = (monlog_init (\<lambda>_. []))\<lparr>ml_fd := Some ''/l''\<rparr>"

text \<open>
  The log file given with \<open>-lf\<close> is never opened: the file is opened before the settings
  arrive, so the monitor writes to the default path while its settings name another, and a
  file that can be read but not opened for appending leaves it with no log at all.
\<close>

lemma custom_log_file_ignored:
  "(case bnd (mt_initialize_log_file env) (\<lambda>r. bnd (mt_update_monitor_conf c) (\<lambda>_. ret r)) (monlog_init files) of
      (r, m) \<Rightarrow> log_file (ml_conf m) = log_file c \<and>
        ml_fd m = (if (if le_read env then le_append env else le_write env) then Some M_LOG_PATH else None) \<and>
        (r = Inr M_LOG_FILE_CREATE_ERR) = (\<not> le_read env \<and> \<not> le_write env))"
  by (simp add: mt_initialize_log_file_def mt_update_monitor_conf_def prog_defs Let_def monlog_init_def
      M_LOG_FILE_CREATE_ERR_def M_LOG_FILE_CREATED_def M_LOG_FILE_EXISTED_def)

end
