(* ===== verification/RM_MonitorProc.thy ===== *)
theory RM_MonitorProc
  imports RM_Parent RM_Monitor
begin

text \<open>
  The monitor process \<open>src/reportman_mon.c\<close>: \<open>__monitor_paths\<close> with its start, its service loop
  and its end, \<open>__started_from_daemon\<close> and \<open>main\<close>. A run of the loop is a list of wake-ups, as
  for the file manager. No directory's name is a null pointer here: each is a copy of an
  argument or a constant.
\<close>

section \<open>State\<close>

record monproc =
  mp_os :: os
  mp_log :: monlog
  mp_monitors :: "dir_monitored list"
  mp_watched :: "u32 list"

abbreviation on_mon_os :: "(os, 'a) prog \<Rightarrow> (monproc, 'a) prog" where
  "on_mon_os \<equiv> within mp_os (\<lambda>o1 s. s\<lparr>mp_os := o1\<rparr>)"

abbreviation on_mon_log :: "(monlog, 'a) prog \<Rightarrow> (monproc, 'a) prog" where
  "on_mon_log \<equiv> within mp_log (\<lambda>l s. s\<lparr>mp_log := l\<rparr>)"

section \<open>The service loop\<close>

text \<open>
  \<open>mw_events\<close> is what \<open>read\<close> gives of the inotify descriptor (nothing on failure), \<open>mw_off\<close>
  and \<open>mw_now\<close> the time zone and the clock; \<open>mw_revents\<close> and \<open>mw_revents_inotify\<close> are the
  uninitialised \<open>revents\<close> of descriptors \<open>poll\<close> is not given.
\<close>

record mon_wake =
  mw_before :: "os \<Rightarrow> os"
  mw_poll :: poll_env
  mw_events :: "byte list"
  mw_off :: int
  mw_now :: int
  mw_command :: u32
  mw_junk :: u64
  mw_revents :: bool
  mw_revents_inotify :: bool
  mw_read_ok :: bool

record mon_setting =
  ms_pid :: pid
  ms_pipes :: ipc_pipes
  ms_signal :: fd
  ms_inotify :: fd
  ms_poll_count :: nat

text \<open>The array of polled descriptors: signals, inotify, parent, cut off after \<open>poll_count\<close>.\<close>

definition ms_polled :: "mon_setting \<Rightarrow> fd list" where
  "ms_polled M = take (ms_poll_count M) [ms_signal M, ms_inotify M, p_read (ms_pipes M)]"

definition mon_read_events :: "mon_wake \<Rightarrow> (monproc, unit) prog" where
  "mon_read_events w =
     bnd (gets mp_monitors) (\<lambda>ms.
       if length (mw_events w) > 0
       then on_mon_log (process_events (mw_off w) (mw_now w)
              (events_from (mw_events w) 0 (int (length (mw_events w)))) ms)
       else ret ())"

definition mon_signal :: "mon_setting \<Rightarrow> bool \<Rightarrow> (os, bool) prog" where
  "mon_signal M read_ok =
     bnd (sys_read_signal read_ok (ms_pid M) (ms_signal M)) (\<lambda>n. case n of
         None \<Rightarrow> stop (Exit EXIT_FAILURE)
       | Some n \<Rightarrow> ret (n = SIGINT \<or> n = SIGTERM))"

text \<open>The result says whether the loop is left.\<close>

definition mon_round :: "mon_setting \<Rightarrow> mon_wake \<Rightarrow> (monproc, bool) prog" where
  "mon_round M w =
     bnd (on_mon_os (modify (mw_before w))) (\<lambda>_. case mw_poll w of
       PollFails \<Rightarrow> stop (Exit EXIT_FAILURE)
     | PollInterrupted signo \<Rightarrow> stop (Exit EXIT_FAILURE)
     | PollReady ext \<Rightarrow> bnd (gets mp_os) (\<lambda>o1.
         if poll_blocks ext o1 (ms_pid M) (ms_polled M) then stop Blocked
         else
           (let events = (if 1 < ms_poll_count M then pollin ext o1 (ms_pid M) (ms_inotify M)
                          else mw_revents_inotify w);
                parent = (if 2 < ms_poll_count M then pollin ext o1 (ms_pid M) (p_read (ms_pipes M))
                          else mw_revents w);
                sig = pollin ext o1 (ms_pid M) (ms_signal M) in
            bnd (if events then mon_read_events w else ret ()) (\<lambda>_.
            bnd (if parent
                 then on_mon_os (mon_parent_command (ms_pid M) (ms_pipes M) (mw_command w) (mw_junk w))
                 else ret ()) (\<lambda>_.
            if sig then on_mon_os (mon_signal M (mw_read_ok w)) else ret False)))))"

definition mon_shutdown :: "mon_setting \<Rightarrow> (monproc, unit) prog" where
  "mon_shutdown M =
     bnd (modify (\<lambda>s. s\<lparr>mp_watched := mt_shutdown_inotify (mp_monitors s) (mp_watched s)\<rparr>)) (\<lambda>_.
     bnd (on_mon_os (sys_close (ms_pid M) (ms_inotify M))) (\<lambda>_.
     bnd (on_mon_os (mt_shutdown_signals (ms_pid M) (ms_signal M) (ms_pipes M))) (\<lambda>_.
     bnd (on_mon_log mt_close_log_file) (\<lambda>_. stop (Exit EXIT_SUCCESS)))))"

fun mon_loop :: "mon_setting \<Rightarrow> mon_wake list \<Rightarrow> (monproc, unit) prog" where
  "mon_loop M [] = stop Blocked"
| "mon_loop M (w # ws) =
     bnd (mon_round M w) (\<lambda>leave. if leave then mon_shutdown M else mon_loop M ws)"

interpretation mon_service: service_loop "mon_loop M" "mon_round M" "\<lambda>leave. \<not> leave" "\<lambda>_. True"
  for M
  by unfold_locales (simp_all add: bnd_def stop_run)

section \<open>Starting\<close>

definition inotify_obj :: fdobj where
  "inotify_obj = OtherFd 101"

record mon_env =
  mv_log :: log_env
  mv_sig :: sig_env
  mv_inotify_ok :: bool
  mv_add_watch :: "string \<Rightarrow> u32 option"
  mv_world :: "os \<Rightarrow> os"
  mv_junk :: u64

definition mon_panic :: "pid \<Rightarrow> ipc_pipes \<Rightarrow> bool \<Rightarrow> bool \<Rightarrow> (monproc, bool) prog" where
  "mon_panic self_pid pipes when panic =
     (if when then bnd (on_mon_os (ipc_send_panic self_pid pipes)) (\<lambda>(r, p). ret p) else ret panic)"

definition mon_inotify :: "mon_env \<Rightarrow> pid \<Rightarrow> string list \<Rightarrow> (monproc, fd) prog" where
  "mon_inotify env self_pid dirs =
     (case mt_initialize_inotify (mv_inotify_ok env) (mv_add_watch env) dirs of
        Inl h \<Rightarrow> stop h
      | Inr None \<Rightarrow> ret (-1)
      | Inr (Some ms) \<Rightarrow>
          bnd (modify (\<lambda>s. s\<lparr>mp_monitors := ms, mp_watched := map dm_wd ms\<rparr>)) (\<lambda>_.
          on_mon_os (sys_new_fd inotify_obj True self_pid)))"

definition monitor_paths :: "mon_env \<Rightarrow> pid \<Rightarrow> monitor_args \<Rightarrow> mon_wake list \<Rightarrow> (monproc, unit) prog" where
  "monitor_paths env self_pid args ws =
     (let pipes = ma_pipes args in
      bnd (on_mon_log (mt_initialize_log_file (mv_log env))) (\<lambda>r.
      bnd (mon_panic self_pid pipes (r = M_LOG_FILE_CREATE_ERR) False) (\<lambda>panic.
      bnd (on_mon_log (mt_update_monitor_conf (ma_conf args))) (\<lambda>_.
      bnd (mon_panic self_pid pipes (length (ma_dirs args) < 1) panic) (\<lambda>panic.
      bnd (on_mon_os (r_initialize_signals (mv_sig env) self_pid)) (\<lambda>signal_fd.
      bnd (mon_panic self_pid pipes (signal_fd < 0) panic) (\<lambda>panic.
      bnd (if panic then ret () else on_mon_log (list_directories (ma_conf args) (ma_dirs args))) (\<lambda>_.
      bnd (mon_inotify env self_pid (ma_dirs args)) (\<lambda>inotify_fd.
      bnd (if inotify_fd < 0
           then bnd (on_mon_os (ipc_send_command self_pid pipes IPC_COMMAND_PANIC)) (\<lambda>_. ret True)
           else ret panic) (\<lambda>panic.
        mon_loop \<lparr>ms_pid = self_pid, ms_pipes = pipes, ms_signal = signal_fd, ms_inotify = inotify_fd,
          ms_poll_count = (if p_read pipes > 0 then 3 else if panic then 1 else 2)\<rparr> ws))))))))))"

definition mon_started_from_daemon ::
  "mon_env \<Rightarrow> pid \<Rightarrow> monitor_args \<Rightarrow> mon_wake list \<Rightarrow> (monproc, int) prog" where
  "mon_started_from_daemon env self_pid args ws =
     (if \<not> ma_from_daemon args then ret 0
      else if p_read (ma_pipes args) < 0 \<or> p_write (ma_pipes args) < 0 then ret D_FAILURE
      else
        bnd (on_mon_os (acknowledge_daemon (mv_world env) self_pid (ma_pipes args) (mv_junk env))) (\<lambda>_.
        bnd (monitor_paths env self_pid args ws) (\<lambda>_. ret 0)))"

definition mon_main :: "mon_env \<Rightarrow> pid \<Rightarrow> string list \<Rightarrow> mon_wake list \<Rightarrow> (monproc, unit) prog" where
  "mon_main env self_pid argv ws =
     (case configure_monitor_args argv monitor_args_init of
        Inl h \<Rightarrow> stop h
      | Inr args \<Rightarrow> bnd (mon_started_from_daemon env self_pid args ws) (\<lambda>_. stop (Exit EXIT_SUCCESS)))"

section \<open>Properties\<close>

text \<open>
  C21: one wake-up of the monitor for any number of events, with no other descriptor ready and
  logging to the open log file only. When the first event has a file name with at least four
  bytes of padding behind it (a length of at most 12 modulo 16), it is logged as one line of
  at most 1023 characters, for the first watch with its descriptor, or not at all where no
  watch has it, and the events after it are lost; when the first event has no name, as one of
  the watched directory itself, everything is lost, that event included: the loop takes the
  length of an event's name for the length of the event.
\<close>

theorem monitor_logs_first_event_only:
  assumes "mw_before w = id" "mw_poll w = PollReady ext" "ms_poll_count M = 3"
    "pollin ext (mp_os s) (ms_pid M) (ms_inotify M)"
    "\<not> pollin ext (mp_os s) (ms_pid M) (p_read (ms_pipes M))" "\<not> pollin ext (mp_os s) (ms_pid M) (ms_signal M)"
    "log_to_file (ml_conf (mp_log s))" "\<not> log_to_sys (ml_conf (mp_log s))" "ml_fd (mp_log s) = Some path"
  shows "(mw_events w = kernel_event wd msk cookie name @ more_events \<and> 0 < length name \<and>
      length name \<le> NAME_MAX \<and> length name mod 16 \<le> 12 \<and> CHR 0x00 \<notin> set name \<longrightarrow>
      (case find (\<lambda>d. dm_wd d = wd) (mp_monitors s) of
         None \<Rightarrow> mon_round M w s = (Inr False, s)
       | Some d \<Rightarrow> \<exists>line. length line < 1024 \<and> mon_round M w s =
           (Inr False, s\<lparr>mp_log := (mp_log s)\<lparr>ml_files := (ml_files (mp_log s))(path :=
             ml_files (mp_log s) path @ line @ [CHR 0x0A])\<rparr>\<rparr>))) \<and>
    (mw_events w = kernel_self_event wd msk cookie @ more_events \<longrightarrow> mon_round M w s = (Inr False, s))"
proof -
  have nb: "\<not> poll_blocks ext (mp_os s) (ms_pid M) (ms_polled M)"
    using pollin_reports [OF assms(4)] assms(3) by (simp add: poll_blocks_def ms_polled_def)
  have round: "mon_round M w s = (Inr False, s')" if "mon_read_events w s = (Inr (), s')" "mp_os s' = mp_os s" for s'
    using that assms(1-6) nb by (simp add: mon_round_def prog_defs within_def Let_def)
  have named: "case find (\<lambda>d. dm_wd d = wd) (mp_monitors s) of
         None \<Rightarrow> mon_round M w s = (Inr False, s)
       | Some d \<Rightarrow> \<exists>line. length line < 1024 \<and> mon_round M w s =
           (Inr False, s\<lparr>mp_log := (mp_log s)\<lparr>ml_files := (ml_files (mp_log s))(path :=
             ml_files (mp_log s) path @ line @ [CHR 0x0A])\<rparr>\<rparr>)"
    if e: "mw_events w = kernel_event wd msk cookie name @ more_events" "0 < length name"
      "length name \<le> NAME_MAX" "length name mod 16 \<le> 12" "CHR 0x00 \<notin> set name"
  proof -
    let ?e = "\<lparr>ev_wd = wd, ev_mask = msk, ev_cookie = cookie, ev_len = word_of_nat (name_room name), ev_name = name\<rparr>"
    have ev: "events_from (mw_events w) 0 (int (length (mw_events w))) = [?e]"
      unfolding e(1) by (rule first_event_only [OF e(2-5)])
    have "0 < length (mw_events w)" by (simp add: e(1) length_kernel_event)
    then have rd: "mon_read_events w s = within mp_log (\<lambda>l s. s\<lparr>mp_log := l\<rparr>)
        (process_events (mw_off w) (mw_now w) [?e] (mp_monitors s)) s"
      by (simp add: mon_read_events_def prog_defs ev del: process_events.simps)
    note lg = event_logged [OF assms(7-9), of "mw_off w" "mw_now w" ?e "mp_monitors s"]
    show ?thesis
    proof (cases "find (\<lambda>d. dm_wd d = wd) (mp_monitors s)")
      case None
      with lg rd have "mon_read_events w s = (Inr (), s)" by (simp add: prog_defs within_def)
      from round [OF this refl] None show ?thesis by simp
    next
      case (Some d)
      let ?line = "event_file_message (get_current_date_time (mw_off w) (mw_now w)) d ?e"
      from Some lg [of d] rd have "mon_read_events w s = (Inr (), s\<lparr>mp_log := (mp_log s)\<lparr>ml_files :=
          (ml_files (mp_log s))(path := ml_files (mp_log s) path @ ?line @ [CHR 0x0A])\<rparr>\<rparr>)"
        by (simp add: prog_defs within_def)
      from round [OF this] lg [of d] Some show ?thesis by auto
    qed
  qed
  have "mon_round M w s = (Inr False, s)" if "mw_events w = kernel_self_event wd msk cookie @ more_events"
  proof -
    have "mon_read_events w s = (Inr (), s)"
      using self_event_stops [of wd msk cookie more_events]
      by (simp add: mon_read_events_def that prog_defs within_def)
    from round [OF this refl] show ?thesis .
  qed
  with named show ?thesis by blast
qed

definition sample_mon :: monproc where
  "sample_mon = \<lparr>mp_os = trio_os, mp_log = sample_monlog, mp_monitors = [\<lparr>dm_path = ''/x'', dm_wd = 1\<rparr>],
     mp_watched = [1]\<rparr>"

definition sample_mon_wake :: "byte list \<Rightarrow> mon_wake" where
  "sample_mon_wake es = \<lparr>mw_before = id, mw_poll = PollReady (\<lambda>f. f = 5), mw_events = es, mw_off = 0,
     mw_now = 0, mw_command = 0, mw_junk = 0, mw_revents = False, mw_revents_inotify = False, mw_read_ok = True\<rparr>"

definition sample_mon_setting :: mon_setting where
  "sample_mon_setting = \<lparr>ms_pid = 3, ms_pipes = \<lparr>p_write = 6, p_read = 8\<rparr>, ms_signal = 3, ms_inotify = 5,
     ms_poll_count = 3\<rparr>"

theorem monitor_logs_first_event_only_witness:
  "\<exists>line. length line < 1024 \<and> mon_round sample_mon_setting
      (sample_mon_wake (kernel_event 1 0x100 0 ''a.txt'' @ kernel_event 1 0x200 0 ''b.txt'')) sample_mon =
    (Inr False, sample_mon\<lparr>mp_log := sample_monlog\<lparr>ml_files := (ml_files sample_monlog)(''/l'' :=
       line @ [CHR 0x0A])\<rparr>\<rparr>)"
  using monitor_logs_first_event_only [of "sample_mon_wake (kernel_event 1 0x100 0 ''a.txt'' @ kernel_event 1 0x200 0 ''b.txt'')"
      "\<lambda>f. f = 5" sample_mon_setting sample_mon "''/l''" 1 "0x100" 0 "''a.txt''" "kernel_event 1 0x200 0 ''b.txt''"]
  by (simp add: sample_mon_wake_def sample_mon_setting_def sample_mon_def trio_os_def pollin_def fd_obj_def
      fds_of_def signalfd_obj_def sample_monlog_def monlog_init_def NAME_MAX_def)

section \<open>Without a daemon, and told to end\<close>

text \<open>
  The monitor after the daemon's end: the read end of its pipe has no writer any more, and
  no signal waits. A wake-up that leaves it so, without an event, is idle.
\<close>

definition orphaned :: "mon_setting \<Rightarrow> os \<Rightarrow> bool" where
  "orphaned M o1 \<longleftrightarrow> 0 \<le> p_read (ms_pipes M) \<and> (\<exists>p. fd_obj o1 (ms_pid M) (p_read (ms_pipes M)) = Some (PipeR p) \<and>
     bufs o1 p = [] \<and> \<not> holds o1 (PipeW p)) \<and>
     \<not> pollin (\<lambda>_. True) o1 (ms_pid M) (ms_signal M) \<and> fd_obj o1 (ms_pid M) (ms_inotify M) = Some inotify_obj"

definition idle_wake :: "mon_setting \<Rightarrow> mon_wake \<Rightarrow> bool" where
  "idle_wake M w \<longleftrightarrow> (\<exists>ext. mw_poll w = PollReady ext \<and> \<not> ext (ms_inotify M)) \<and>
     (\<forall>o1. orphaned M o1 \<longrightarrow> orphaned M (mw_before w o1))"

lemma pollin_mono: "pollin ext s i f \<Longrightarrow> pollin (\<lambda>_. True) s i f"
  by (auto simp: pollin_def split: option.splits fdobj.splits if_splits)

lemma orphaned_polls:
  assumes "orphaned M o1" "ms_poll_count M = 3"
  shows "\<not> poll_blocks ext o1 (ms_pid M) (ms_polled M)" "\<not> pollin ext o1 (ms_pid M) (p_read (ms_pipes M))"
    "\<not> pollin ext o1 (ms_pid M) (ms_signal M)" "\<not> ext (ms_inotify M) \<Longrightarrow> \<not> pollin ext o1 (ms_pid M) (ms_inotify M)"
proof -
  show "\<not> poll_blocks ext o1 (ms_pid M) (ms_polled M)" "\<not> pollin ext o1 (ms_pid M) (p_read (ms_pipes M))"
    using assms by (auto simp: orphaned_def poll_blocks_def ms_polled_def poll_reports_def pollin_def)
  show "\<not> pollin ext o1 (ms_pid M) (ms_signal M)"
    using assms pollin_mono by (auto simp: orphaned_def)
  show "\<not> ext (ms_inotify M) \<Longrightarrow> \<not> pollin ext o1 (ms_pid M) (ms_inotify M)"
    using assms by (auto simp: orphaned_def pollin_def inotify_obj_def signalfd_obj_def)
qed

lemma orphaned_monitor_spins:
  assumes "ms_poll_count M = 3" "orphaned M (mp_os s)" "list_all (idle_wake M) ws1"
  shows "mon_loop M (ws1 @ ws) s = mon_loop M ws (s\<lparr>mp_os := fold mw_before ws1 (mp_os s)\<rparr>)
    \<and> orphaned M (fold mw_before ws1 (mp_os s))"
  using assms(2,3)
proof (induction ws1 arbitrary: s)
  case (Cons w ws1)
  let ?s = "s\<lparr>mp_os := mw_before w (mp_os s)\<rparr>"
  from Cons.prems obtain ext where ext: "mw_poll w = PollReady ext" "\<not> ext (ms_inotify M)"
    and o': "orphaned M (mp_os ?s)"
    by (auto simp: idle_wake_def)
  have "mon_round M w s = (Inr False, ?s)"
    using ext orphaned_polls [OF o' assms(1), of ext] assms(1)
    by (simp add: mon_round_def prog_defs within_def Let_def)
  from mon_service.goes_on [OF TrueI this] Cons.IH [OF o'] Cons.prems(2) show ?case by simp
qed simp

text \<open>A monitor whose next signal is SIGTERM closes everything and exits with status 0.\<close>

lemma told_monitor_ends:
  assumes "ms_poll_count M = 3" "0 \<le> ms_signal M"
    "fd_obj (mp_os s) (ms_pid M) (ms_signal M) = Some signalfd_obj"
    "map_of (procs (mp_os s)) (ms_pid M) = Some p" "pending p = Some (SIGTERM # l)"
    "\<not> pollin ext (mp_os s) (ms_pid M) (p_read (ms_pipes M))" "\<not> pollin ext (mp_os s) (ms_pid M) (ms_inotify M)"
    "mw_before w = id" "mw_poll w = PollReady ext" "mw_read_ok w"
  shows "fst (mon_loop M (w # ws) s) = Inl (Exit EXIT_SUCCESS)"
proof -
  have sig: "pollin ext (mp_os s) (ms_pid M) (ms_signal M)"
    using assms(2-5) by (simp add: pollin_def signalfd_obj_def)
  then have nb: "\<not> poll_blocks ext (mp_os s) (ms_pid M) (ms_polled M)"
    using pollin_reports [OF sig] assms(1) by (simp add: poll_blocks_def ms_polled_def)
  let ?s = "s\<lparr>mp_os := upd_proc (ms_pid M) (\<lambda>p. p\<lparr>pending := Some l\<rparr>) (mp_os s)\<rparr>"
  have "mon_round M w s = (Inr True, ?s)"
    using sig nb assms(1,6-10) sys_read_signal_next [OF assms(3-5)]
    by (simp add: mon_round_def prog_defs within_def Let_def mon_signal_def)
  then show ?thesis
    by (simp add: bnd_def mon_shutdown_def prog_defs within_def mt_shutdown_signals_def sys_close_def
        mt_close_log_file_def split: option.split)
qed

end
