(* ===== verification/RM_Singleton.thy ===== *)
theory RM_Singleton
  imports RM_Config
begin

text \<open>
  One daemon per port (\<open>reportmand.c\<close>): binding the singleton socket, and when that fails
  asking \<open>lsof\<close> who holds the port, with the parser of its output, and ending that process
  where the command line asks for it. What the kernel and \<open>lsof\<close> answer are arguments.
\<close>

section \<open>Collecting the output of \<open>lsof\<close>\<close>

text \<open>\<open>fgets\<close> into a buffer of 1024 bytes: up to and with the next newline, at most 1023.\<close>

fun fgets_take :: "nat \<Rightarrow> string \<Rightarrow> string \<times> string" where
  "fgets_take 0 s = ([], s)"
| "fgets_take (Suc n) [] = ([], [])"
| "fgets_take (Suc n) (c # cs) =
     (if c = CHR 0x0A then ([c], cs) else (case fgets_take n cs of (a, b) \<Rightarrow> (c # a, b)))"

lemma fgets_take_append: "fgets_take n s = (a, b) \<Longrightarrow> a @ b = s"
  by (induction n s arbitrary: a b rule: fgets_take.induct) (auto split: if_splits prod.splits)

lemma fgets_take_shrinks: "fgets_take n s = (a, b) \<Longrightarrow> a \<noteq> [] \<Longrightarrow> length b < length s"
  by (drule fgets_take_append) auto

text \<open>
  The loop of \<open>__save_pipe_buffer\<close>: \<open>out\<close> is what the heap block holds (its length is
  \<open>data_used\<close>), \<open>allocated\<close> its size. Of a buffer only what stands before its first zero
  byte is kept. Writing past the block is undefined. A null pointer is \<open>None\<close>: nothing was
  read.
\<close>

function save_chunks :: "nat \<Rightarrow> string option \<Rightarrow> string \<Rightarrow> halt + string option" where
  "save_chunks data_allocated out input =
     (case fgets_take 1023 input of (buffer, rest) \<Rightarrow>
        if buffer = [] then Inr out
        else
          (let used = (case out of None \<Rightarrow> [] | Some o1 \<Rightarrow> o1);
               buffer_len = length (c_str buffer);
               new_allocated =
                 (if length used + buffer_len + 1 > data_allocated
                  then (if data_allocated = 0 then buffer_len * 2 else data_allocated * 2)
                  else data_allocated) in
           if length used + buffer_len + 1 > new_allocated then Inl Undefined
           else save_chunks new_allocated (Some (used @ c_str buffer)) rest))"
  by pat_completeness auto
termination
proof (relation "measure (\<lambda>(n, o1, s). length s)")
  fix n :: nat and o1 :: "string option" and input buffer rest used :: string and m :: nat
  assume "(buffer, rest) = fgets_take 1023 input" "buffer \<noteq> []"
  then show "((m, Some (used @ c_str buffer), rest), n, o1, input) \<in> measure (\<lambda>(n, o1, s). length s)"
    using fgets_take_shrinks [of 1023 input buffer rest] by simp
qed simp

declare save_chunks.simps [simp del]

definition save_pipe_buffer :: "string \<Rightarrow> halt + string option" where
  "save_pipe_buffer input = save_chunks 0 None input"

section \<open>Parsing it\<close>

record running_pid =
  rp_pid :: int
  rp_command :: string

definition lsof_format :: "directive list" where
  "lsof_format = [FStr, FSpace, FInt, FSpace, FSkipStr, FSpace, FInt, FStr, FSpace, FStr, FSpace, FStr,
     FSpace, FStr, FSpace, FStr, FSpace, FStr, FSpace, FStr]"

definition fits_512 :: "scanned \<Rightarrow> bool" where
  "fits_512 v = (case v of SStr t \<Rightarrow> length t < 512 | _ \<Rightarrow> True)"

text \<open>
  Every string goes into a buffer of 512 bytes. (The struct of 16 bytes is stored in a block
  that was asked for with the size of a pointer, 8 bytes. The model lets the second field land
  behind them: the smallest block that glibc gives out on a 64-bit Linux has room for 24.)
\<close>

definition parse_lsof_line :: "string \<Rightarrow> halt + running_pid option" where
  "parse_lsof_line line =
     (let vs = sscanf lsof_format line in
      if \<not> list_all fits_512 vs then Inl Undefined
      else if length vs \<ge> 9 then
        (case vs of SStr command # SInt pid # _ \<Rightarrow> Inr (Some \<lparr>rp_pid = pid, rp_command = command\<rparr>)
         | _ \<Rightarrow> Inr None)
      else Inr None)"

text \<open>\<open>strtok_r(output, "\n")\<close>: the non-empty lines.\<close>

fun split_lines :: "string \<Rightarrow> string \<Rightarrow> string list" where
  "split_lines acc [] = (if acc = [] then [] else [rev acc])"
| "split_lines acc (c # cs) =
     (if c = CHR 0x0A then (if acc = [] then [] else [rev acc]) @ split_lines [] cs
      else split_lines (c # acc) cs)"

text \<open>
  The array grows by \<open>realloc\<close> from a pointer that is never initialised: \<open>junk_null\<close> says
  that it happens to be null; with any other value the first \<open>realloc\<close> is undefined. The
  result is the entries and the capacity reached.
\<close>

fun parse_lsof_lines :: "bool \<Rightarrow> nat \<Rightarrow> running_pid list \<Rightarrow> string list \<Rightarrow> halt + (running_pid list \<times> nat)" where
  "parse_lsof_lines junk_null capacity found [] = Inr (found, capacity)"
| "parse_lsof_lines junk_null capacity found (line # ls) =
     (if length found \<ge> capacity \<and> capacity = 0 \<and> \<not> junk_null then Inl Undefined
      else
        (let capacity' = (if length found \<ge> capacity then (if capacity = 0 then 2 else capacity * 2)
                          else capacity) in
         case parse_lsof_line line of
           Inl h \<Rightarrow> Inl h
         | Inr None \<Rightarrow> parse_lsof_lines junk_null capacity' found ls
         | Inr (Some p) \<Rightarrow> parse_lsof_lines junk_null capacity' (found @ [p]) ls))"

definition parse_lsof_output :: "bool \<Rightarrow> string \<Rightarrow> halt + (running_pid list \<times> nat)" where
  "parse_lsof_output junk_null lsof_output = parse_lsof_lines junk_null 0 [] (split_lines [] lsof_output)"

text \<open>
  The indices whose command \<open>__free_running_pids\<close> frees; its loop runs while \<open>num_pids < i\<close>,
  and \<open>fuel\<close> bounds it where that would be for ever.
\<close>

fun freed_commands :: "nat \<Rightarrow> nat \<Rightarrow> nat \<Rightarrow> nat list" where
  "freed_commands 0 num_pids i = []"
| "freed_commands (Suc fuel) num_pids i =
     (if num_pids < i then i # freed_commands fuel num_pids (Suc i) else [])"

section \<open>Who holds the port\<close>

text \<open>
  \<open>lsof\<close> as the daemon meets it: whether it could be started, what it printed, the status
  \<open>pclose\<close> returns, and the values of uninitialised memory.
\<close>

record lsof_run =
  lr_popen :: bool
  lr_output :: string
  lr_status :: int
  lr_junk_null :: bool
  lr_junk_pid :: int

definition LSOF_FD_NOT_FOUND :: int where "LSOF_FD_NOT_FOUND = 2"
definition COMMAND_ERROR :: int where "COMMAND_ERROR = 1"

text \<open>
  \<open>running_pids[0].pid\<close> is read whether or not anything was found: from the array when it has
  an entry, from fresh heap memory when only its capacity is positive, through the
  uninitialised pointer otherwise.
\<close>

definition get_other_pid :: "lsof_run \<Rightarrow> halt + int" where
  "get_other_pid env =
     (if \<not> lr_popen env then Inr 0
      else (case save_pipe_buffer (lr_output env) of
        Inl h \<Rightarrow> Inl h
      | Inr lsof_output \<Rightarrow>
          if lr_status env = COMMAND_SUCCESSFUL then
            (case lsof_output of
               None \<Rightarrow> Inl Undefined
             | Some text \<Rightarrow>
                 (case parse_lsof_output (lr_junk_null env) text of
                    Inl h \<Rightarrow> Inl h
                  | Inr (p # ps, capacity) \<Rightarrow> Inr (rp_pid p)
                  | Inr ([], capacity) \<Rightarrow> if capacity = 0 then Inl Undefined else Inr (lr_junk_pid env)))
          else if lr_status env = LSOF_FD_NOT_FOUND then Inr (-1)
          else if lr_status env = COMMAND_NOT_FOUND then Inr (-2)
          else if lr_status env = COMMAND_ERROR then Inr (-1)
          else Inr (-1)))"

section \<open>The singleton socket\<close>

definition IS_SINGLETON :: int where "IS_SINGLETON = 0"
definition BIND_FAILED :: int where "BIND_FAILED = -1"

record bind_env =
  be_socket :: bool
  be_bind :: bool
  be_listen :: bool
  be_lsof :: lsof_run

text \<open>Whether the socket listens, and the processes sent SIGTERM, the latest first.\<close>

record singleton =
  sg_listening :: bool
  sg_killed :: "int list"

definition d_acquire_singleton :: "bind_env \<Rightarrow> (singleton, int) prog" where
  "d_acquire_singleton env s =
     (if \<not> be_socket env then (Inr D_FAILURE, s)
      else if \<not> be_bind env then
        (case get_other_pid (be_lsof env) of Inl h \<Rightarrow> (Inl h, s) | Inr r \<Rightarrow> (Inr r, s))
      else if \<not> be_listen env then (Inl (Exit EXIT_FAILURE), s)
      else (Inr IS_SINGLETON, s\<lparr>sg_listening := True\<rparr>))"

text \<open>\<open>errno\<close> is the argument the process exits with where \<open>kill\<close> fails.\<close>

definition kill_pid :: "(int \<Rightarrow> int option) \<Rightarrow> int \<Rightarrow> (singleton, unit) prog" where
  "kill_pid kill_errno pid s =
     (case kill_errno pid of
        Some errno \<Rightarrow> (Inl (Exit errno), s)
      | None \<Rightarrow> (Inr (), s\<lparr>sg_killed := pid # sg_killed s\<rparr>))"

definition force_singleton :: "(int \<Rightarrow> int option) \<Rightarrow> bind_env \<Rightarrow> int \<Rightarrow> (singleton, int) prog" where
  "force_singleton kill_errno env singleton_result =
     bnd (kill_pid kill_errno singleton_result) (\<lambda>_.
     bnd (d_acquire_singleton env) (\<lambda>r.
       if r \<noteq> IS_SINGLETON then stop (Exit EXIT_FAILURE) else ret r))"

definition acquire_singleton ::
  "(int \<Rightarrow> int option) \<Rightarrow> bind_env \<Rightarrow> bind_env \<Rightarrow> daemon_arguments \<Rightarrow> (singleton, unit) prog" where
  "acquire_singleton kill_errno env1 env2 args =
     bnd (d_acquire_singleton env1) (\<lambda>singleton_result.
       if da_close args then
         bnd (if singleton_result = IS_SINGLETON then ret ()
              else if singleton_result > 0 then kill_pid kill_errno singleton_result
              else ret ()) (\<lambda>_. stop (Exit EXIT_SUCCESS))
       else if singleton_result = IS_SINGLETON then ret ()
       else if singleton_result = BIND_FAILED then stop (Exit EXIT_FAILURE)
       else if \<not> force args then stop (Exit EXIT_FAILURE)
       else bnd (force_singleton kill_errno env2 singleton_result) (\<lambda>_. ret ()))"

section \<open>The buffer grows enough for lines that do not double\<close>

function fgets_chunks :: "string \<Rightarrow> string list" where
  "fgets_chunks input =
     (case fgets_take 1023 input of (buffer, rest) \<Rightarrow>
        if buffer = [] then [] else buffer # fgets_chunks rest)"
  by pat_completeness auto
termination
proof (relation "measure length")
  fix input buffer rest :: string
  assume "(buffer, rest) = fgets_take 1023 input" "buffer \<noteq> []"
  then show "(rest, input) \<in> measure length" using fgets_take_shrinks [of 1023 input buffer rest] by simp
qed simp

declare fgets_chunks.simps [simp del]

lemma fgets_take_nil: "fgets_take (Suc n) s = ([], b) \<Longrightarrow> s = []"
  by (cases s) (auto split: if_splits prod.splits)

lemma fgets_chunks_step:
  assumes "fgets_take 1023 input = (buffer, rest)"
  shows "fgets_chunks input = (if buffer = [] then [] else buffer # fgets_chunks rest)"
  using assms by (subst fgets_chunks.simps) simp

lemma save_chunks_step:
  assumes "fgets_take 1023 input = (buffer, rest)" "buffer \<noteq> []"
    "used = (case out of None \<Rightarrow> [] | Some o1 \<Rightarrow> o1)" "len = length (c_str buffer)"
    "new = (if length used + len + 1 > n then (if n = 0 then len * 2 else n * 2) else n)"
  shows "save_chunks n out input =
    (if length used + len + 1 > new then Inl Undefined
     else save_chunks new (Some (used @ c_str buffer)) rest)"
  using assms by (subst save_chunks.simps) (simp add: Let_def)

lemma save_chunks_end: "save_chunks n out [] = Inr out"
  by (subst save_chunks.simps) (simp add: numeral_eq_Suc)

lemma fgets_chunks_nil [simp]: "fgets_chunks [] = []"
  by (subst fgets_chunks.simps) (simp add: numeral_eq_Suc)

lemma save_chunks_undefined: "save_chunks n out input = Inl h \<Longrightarrow> h = Undefined"
proof (induction n out input rule: save_chunks.induct)
  case (1 n out input)
  obtain buffer rest where t: "fgets_take 1023 input = (buffer, rest)" by force
  show ?case
    using "1.prems" "1.IH" [OF t [symmetric]] unfolding save_chunks.simps [of n out input] t
    by (auto simp: Let_def split: if_splits)
qed

lemma save_chunks_collects:
  "length used + 1 \<le> n \<Longrightarrow> list_all (\<lambda>c. length (c_str c) \<le> n) (fgets_chunks input) \<Longrightarrow>
   save_chunks n (Some used) input = Inr (Some (used @ concat (map c_str (fgets_chunks input))))"
proof (induction "length input" arbitrary: n used input rule: less_induct)
  case less
  obtain buffer rest where t: "fgets_take 1023 input = (buffer, rest)" by force
  show ?case
  proof (cases "buffer = []")
    case True
    then have "input = []" using t fgets_take_nil [of 1022 input rest] by simp
    then show ?thesis using True by (simp add: save_chunks_end fgets_chunks_step [OF t])
  next
    case False
    let ?len = "length (c_str buffer)"
    define new where "new = (if length used + ?len + 1 > n then (if n = 0 then ?len * 2 else n * 2) else n)"
    have c: "?len \<le> n" "list_all (\<lambda>c. length (c_str c) \<le> n) (fgets_chunks rest)"
      using less.prems(2) False by (simp_all add: fgets_chunks_step [OF t])
    have n: "n \<noteq> 0" "n \<le> new" "length used + ?len + 1 \<le> new"
      using less.prems(1) c(1) by (auto simp: new_def)
    have "list_all (\<lambda>c. length (c_str c) \<le> new) (fgets_chunks rest)"
      using c(2) n(2) by (auto simp: list_all_iff)
    moreover have "length rest < length input" by (rule fgets_take_shrinks [OF t False])
    ultimately have "save_chunks new (Some (used @ c_str buffer)) rest =
        Inr (Some ((used @ c_str buffer) @ concat (map c_str (fgets_chunks rest))))"
      using n(3) by (intro less.hyps) simp_all
    moreover have "save_chunks n (Some used) input =
        (if length used + ?len + 1 > new then Inl Undefined
         else save_chunks new (Some (used @ c_str buffer)) rest)"
      by (rule save_chunks_step [OF t False _ refl new_def]) simp
    ultimately show ?thesis using n(3) False by (simp add: fgets_chunks_step [OF t])
  qed
qed

lemma concat_fgets_chunks: "concat (fgets_chunks input) = input"
proof (induction "length input" arbitrary: input rule: less_induct)
  case less
  obtain buffer rest where t: "fgets_take 1023 input = (buffer, rest)" by force
  show ?case
  proof (cases "buffer = []")
    case True
    then show ?thesis using t fgets_take_nil [of 1022 input rest] by (simp add: fgets_chunks_step [OF t])
  next
    case False
    then show ?thesis
      using less [OF fgets_take_shrinks [OF t]] fgets_take_append [OF t] by (simp add: fgets_chunks_step [OF t])
  qed
qed

lemma chunks_without_nul:
  assumes "CHR 0x00 \<notin> set input"
  shows "map c_str (fgets_chunks input) = fgets_chunks input"
proof -
  have "CHR 0x00 \<notin> set c" if "c \<in> set (fgets_chunks input)" for c
    using that assms concat_fgets_chunks [of input] by (metis UN_I set_concat)
  then show ?thesis by (intro map_idI c_str_no_nul)
qed

text \<open>The first two steps of the loop.\<close>

lemma save_pipe_first:
  assumes "fgets_chunks input = first # later"
  obtains rest where "fgets_chunks rest = later"
    "save_pipe_buffer input = (if c_str first = [] then Inl Undefined
      else save_chunks (length (c_str first) * 2) (Some (c_str first)) rest)"
proof -
  obtain buffer rest where t: "fgets_take 1023 input = (buffer, rest)" by force
  from assms have f: "buffer = first" "buffer \<noteq> []" "fgets_chunks rest = later"
    by (auto simp: fgets_chunks_step [OF t] split: if_splits)
  have "save_pipe_buffer input = (if length (c_str first) + 1 > length (c_str first) * 2 then Inl Undefined
      else save_chunks (length (c_str first) * 2) (Some (c_str first)) rest)"
    using save_chunks_step [OF t f(2), of "[]" None "length (c_str first)" "length (c_str first) * 2" 0] f(1)
    by (simp add: save_pipe_buffer_def)
  moreover have "length (c_str first) + 1 > length (c_str first) * 2 \<longleftrightarrow> c_str first = []"
    by (cases "c_str first") auto
  ultimately show thesis using that f(3) by simp
qed

lemma save_pipe_collects:
  assumes "fgets_chunks input = first # later" "c_str first \<noteq> []"
    "list_all (\<lambda>c. length (c_str c) \<le> 2 * length (c_str first)) later"
  shows "save_pipe_buffer input = Inr (Some (concat (map c_str (first # later))))"
proof -
  obtain rest where r: "fgets_chunks rest = later" "save_pipe_buffer input =
      save_chunks (length (c_str first) * 2) (Some (c_str first)) rest"
    using save_pipe_first [OF assms(1)] assms(2) by metis
  have "list_all (\<lambda>c. length (c_str c) \<le> length (c_str first) * 2) (fgets_chunks rest)"
    using assms(3) r(1) by (simp add: mult.commute)
  moreover have "length (c_str first) + 1 \<le> length (c_str first) * 2"
    using assms(2) by (cases "c_str first") auto
  ultimately show ?thesis using save_chunks_collects r by simp
qed

section \<open>Fields of a line\<close>

definition is_token :: "string \<Rightarrow> bool" where
  "is_token t \<longleftrightarrow> t \<noteq> [] \<and> list_all (\<lambda>c. \<not> is_space c) t \<and> length t < 512"

lemma space_is_space: "is_space CHR '' ''"
  by (simp add: is_space_def code_def)

lemma token_scan:
  assumes "is_token t" "r = [] \<or> is_space (hd r)"
  shows "skip_space (t @ r) = t @ r" "takeWhile (\<lambda>c. \<not> is_space c) (t @ r) = t"
    "dropWhile (\<lambda>c. \<not> is_space c) (t @ r) = r"
proof -
  from assms(1) have t: "t \<noteq> []" "\<forall>c \<in> set t. \<not> is_space c" by (auto simp: is_token_def list_all_iff)
  then show "skip_space (t @ r) = t @ r" by (cases t) (simp_all add: skip_space_def)
  have "takeWhile (\<lambda>c. \<not> is_space c) r = []" "dropWhile (\<lambda>c. \<not> is_space c) r = r"
    using assms(2) by (cases r; simp)+
  then show "takeWhile (\<lambda>c. \<not> is_space c) (t @ r) = t" "dropWhile (\<lambda>c. \<not> is_space c) (t @ r) = r"
    using t by (simp_all add: takeWhile_append2 dropWhile_append2)
qed

text \<open>One or more blanks, as a column is set off from the one before it.\<close>

definition blanks :: "nat \<Rightarrow> string" where
  "blanks k = replicate (Suc k) CHR '' ''"

lemma skip_blanks: "skip_space (blanks k @ s) = skip_space s"
proof -
  have "dropWhile is_space (replicate n CHR '' '' @ s) = dropWhile is_space s" for n
    by (induction n) (simp_all add: space_is_space)
  then show ?thesis unfolding blanks_def skip_space_def .
qed

lemma hd_blanks [simp]: "hd (blanks k @ s) = CHR '' ''" "blanks k \<noteq> []"
  by (simp_all add: blanks_def)

lemma scan_str:
  assumes "is_token t" "r = [] \<or> is_space (hd r)"
  shows "sscanf (FStr # ds) (t @ r) = SStr t # sscanf ds r"
    "sscanf (FSpace # FStr # ds) (blanks k @ t @ r) = SStr t # sscanf ds r"
    "sscanf (FSpace # FSkipStr # ds) (blanks k @ t @ r) = sscanf ds r"
  using token_scan [OF assms] assms(1) by (auto simp: skip_blanks Let_def is_token_def)

lemma scan_str_last:
  "is_token t \<Longrightarrow> sscanf (FSpace # FStr # ds) (blanks k @ t) = SStr t # sscanf ds []"
  "sscanf (FSpace # FStr # ds) [] = []"
  using scan_str(2) [of t "[]" ds k] by (simp_all add: skip_space_def Let_def)

lemma scan_num:
  assumes "r = [] \<or> \<not> is_digit (hd r)"
  shows "sscanf (FSpace # FInt # ds) (blanks k @ show_nat n @ r) = SInt (scanned_int 1 (int n)) # sscanf ds r"
proof -
  have "scan_int (skip_space (blanks k @ show_nat n @ r)) = Some (1, int n, r)"
    using scan_int_show_nat [OF assms] by (simp add: skip_blanks skip_space_show_nat)
  then show ?thesis by simp
qed

lemma scanned_int_small: "n \<le> 2147483647 \<Longrightarrow> scanned_int 1 (int n) = int n"
proof -
  assume n: "n \<le> 2147483647"
  have "sint (word_of_int (int n) :: 32 word) = (int n + 2 ^ 31) mod 2 ^ 32 - 2 ^ 31"
    by (simp only: int_word_sint) simp
  also have "\<dots> = int n" using n by simp
  finally show ?thesis using n by (simp add: scanned_int_def clamp_long_def LONG_MIN_def LONG_MAX_def)
qed

section \<open>What can go wrong\<close>

lemma parse_lsof_line_undefined: "parse_lsof_line l = Inl h \<Longrightarrow> h = Undefined"
  by (auto simp: parse_lsof_line_def Let_def split: if_splits list.splits scanned.splits)

lemma parse_lsof_lines_undefined: "parse_lsof_lines j c found ls = Inl h \<Longrightarrow> h = Undefined"
proof (induction j c found ls rule: parse_lsof_lines.induct)
  case (2 j c found l ls)
  then show ?case
    using parse_lsof_line_undefined [of l]
    by (cases "parse_lsof_line l") (auto simp: Let_def split: if_splits option.splits)
qed simp

lemma get_other_pid_undefined: "get_other_pid env = Inl h \<Longrightarrow> h = Undefined"
  by (auto simp: get_other_pid_def save_pipe_buffer_def parse_lsof_output_def
      dest: save_chunks_undefined parse_lsof_lines_undefined split: if_splits sum.splits option.splits list.splits)

section \<open>What \<open>lsof -i\<close> prints\<close>

text \<open>
  One line for every open socket, under a heading. The fields are set in columns, with one or
  more blanks between two of them; the descriptor and its mode are one word, and the connection
  state stands behind the name where there is one. \<open>le_pads\<close> are the widths of the gaps.
\<close>

record lsof_entry =
  le_pads :: "nat \<Rightarrow> nat"
  le_command :: string
  le_pid :: nat
  le_user :: string
  le_fd :: nat
  le_mode :: string
  le_type :: string
  le_device :: string
  le_size_off :: string
  le_node :: string
  le_name :: string
  le_state :: "string option"

definition lsof_line :: "lsof_entry \<Rightarrow> string" where
  "lsof_line e = (let gap = \<lambda>i. blanks (le_pads e i) in
     le_command e @ gap 0 @ show_nat (le_pid e) @ gap 1 @ le_user e @ gap 2 @ show_nat (le_fd e) @ le_mode e @
     gap 3 @ le_type e @ gap 4 @ le_device e @ gap 5 @ le_size_off e @ gap 6 @ le_node e @ gap 7 @ le_name e @
     (case le_state e of None \<Rightarrow> [] | Some st \<Rightarrow> gap 8 @ st))"

definition lsof_entry_ok :: "lsof_entry \<Rightarrow> bool" where
  "lsof_entry_ok e \<longleftrightarrow> list_all is_token [le_command e, le_user e, le_mode e, le_type e, le_device e, le_size_off e,
       le_node e, le_name e] \<and> (case le_state e of None \<Rightarrow> True | Some st \<Rightarrow> is_token st) \<and>
     \<not> is_digit (hd (le_mode e)) \<and> le_pid e \<le> 2147483647"

definition heading_ok :: "string \<Rightarrow> bool" where
  "heading_ok h \<longleftrightarrow> (\<exists>k rest. h = ''COMMAND'' @ blanks k @ ''PID'' @ rest \<and> CHR 0x0A \<notin> set rest)"

definition lsof_print :: "string \<Rightarrow> lsof_entry list \<Rightarrow> string" where
  "lsof_print heading es = concat (map (\<lambda>l. l @ [CHR 0x0A]) (heading # map lsof_line es))"

definition holder :: "lsof_entry \<Rightarrow> running_pid" where
  "holder e = \<lparr>rp_pid = int (le_pid e), rp_command = le_command e\<rparr>"

lemma blank_char: "\<not> is_digit CHR '' ''" "is_space CHR '' ''"
  by code_simp+

lemma lsof_line_scans:
  assumes "lsof_entry_ok e"
  shows "sscanf lsof_format (lsof_line e) =
    [SStr (le_command e), SInt (int (le_pid e)), SInt (scanned_int 1 (int (le_fd e))), SStr (le_mode e), SStr (le_type e),
     SStr (le_device e), SStr (le_size_off e), SStr (le_node e), SStr (le_name e)] @
    (case le_state e of None \<Rightarrow> [] | Some st \<Rightarrow> [SStr st])"
proof -
  from assms have t: "is_token (le_command e)" "is_token (le_user e)" "is_token (le_mode e)" "is_token (le_type e)"
      "is_token (le_device e)" "is_token (le_size_off e)" "is_token (le_node e)" "is_token (le_name e)"
      "case le_state e of None \<Rightarrow> True | Some st \<Rightarrow> is_token st" and md: "\<not> is_digit (hd (le_mode e))"
    and n: "scanned_int 1 (int (le_pid e)) = int (le_pid e)"
    by (simp_all add: lsof_entry_ok_def scanned_int_small)
  have "le_mode e \<noteq> []" using t(3) by (simp add: is_token_def)
  then show ?thesis
    using t md n unfolding lsof_format_def lsof_line_def Let_def
    by (cases "le_state e")
      (simp_all add: scan_str scan_str_last scan_num blank_char del: sscanf.simps(2,4,5,6))
qed

lemma parse_lsof_line_entry:
  assumes "lsof_entry_ok e"
  shows "parse_lsof_line (lsof_line e) = Inr (Some (holder e))"
  using lsof_line_scans [OF assms] assms
  by (cases "le_state e") (auto simp: parse_lsof_line_def Let_def fits_512_def is_token_def lsof_entry_ok_def holder_def)

lemma parse_lsof_line_heading:
  assumes "heading_ok h"
  shows "parse_lsof_line h = Inr None"
proof -
  obtain k rest where h: "h = ''COMMAND'' @ blanks k @ ''PID'' @ rest" using assms by (auto simp: heading_ok_def)
  have t: "is_token ''COMMAND''" by (simp add: is_token_def is_space_def code_def)
  have "skip_space (''PID'' @ rest) = ''PID'' @ rest" by (simp add: skip_space_def is_space_def code_def)
  then have "scan_int (skip_space (blanks k @ ''PID'' @ rest)) = None"
    by (simp add: skip_blanks scan_int_def split_sign_def is_digit_def code_def)
  then have "sscanf lsof_format h = [SStr ''COMMAND'']"
    using scan_str(1) [OF t, of "blanks k @ ''PID'' @ rest"] unfolding h lsof_format_def by (simp add: blank_char)
  then show ?thesis by (simp add: parse_lsof_line_def fits_512_def)
qed

lemma token_no_newline: "is_token t \<Longrightarrow> CHR 0x0A \<notin> set t"
  by (auto simp: is_token_def list_all_iff is_space_def code_def)

lemma lsof_lines_plain:
  "lsof_entry_ok e \<Longrightarrow> CHR 0x0A \<notin> set (lsof_line e) \<and> lsof_line e \<noteq> []"
  "heading_ok h \<Longrightarrow> CHR 0x0A \<notin> set h \<and> h \<noteq> []"
proof -
  have nl: "CHR 0x0A \<notin> set (show_nat n)" for n using show_nat_digits [of "CHR 0x0A" n] by (auto simp: is_digit_def code_def)
  have bl: "CHR 0x0A \<notin> set (blanks k)" for k by (simp add: blanks_def)
  show "lsof_entry_ok e \<Longrightarrow> CHR 0x0A \<notin> set (lsof_line e) \<and> lsof_line e \<noteq> []"
    using nl bl by (auto simp: lsof_line_def lsof_entry_ok_def Let_def token_no_newline split: option.splits)
  show "heading_ok h \<Longrightarrow> CHR 0x0A \<notin> set h \<and> h \<noteq> []" using bl by (auto simp: heading_ok_def)
qed

lemma split_lines_line:
  "CHR 0x0A \<notin> set l \<Longrightarrow> split_lines acc (l @ CHR 0x0A # s) = (if acc = [] \<and> l = [] then [] else [rev acc @ l]) @ split_lines [] s"
  by (induction l arbitrary: acc) auto

lemma split_lines_concat:
  "\<forall>l \<in> set ls. CHR 0x0A \<notin> set l \<and> l \<noteq> [] \<Longrightarrow> split_lines [] (concat (map (\<lambda>l. l @ [CHR 0x0A]) ls)) = ls"
  by (induction ls) (simp_all add: split_lines_line)

lemma parse_entries:
  "list_all lsof_entry_ok es \<Longrightarrow>
   \<exists>c'. parse_lsof_lines True c found (map lsof_line es) = Inr (found @ map holder es, c')"
proof (induction es arbitrary: c found)
  case (Cons e es)
  then show ?case
    using Cons.IH [of _ "found @ [holder e]"] by (simp add: parse_lsof_line_entry Let_def)
qed simp

lemma lsof_print_parses:
  assumes "heading_ok h" "list_all lsof_entry_ok es"
  shows "\<exists>c. parse_lsof_output True (lsof_print h es) = Inr (map holder es, c)"
proof -
  have "\<forall>l \<in> set (h # map lsof_line es). CHR 0x0A \<notin> set l \<and> l \<noteq> []"
    using lsof_lines_plain assms by (auto simp: list_all_iff)
  from split_lines_concat [OF this] show ?thesis
    using parse_entries [OF assms(2), of 2 "[]"] parse_lsof_line_heading [OF assms(1)]
    by (simp add: parse_lsof_output_def lsof_print_def)
qed

text \<open>Short lines are read one by one.\<close>

lemma fgets_take_line: "CHR 0x0A \<notin> set l \<Longrightarrow> length l < n \<Longrightarrow> fgets_take n (l @ CHR 0x0A # s) = (l @ [CHR 0x0A], s)"
proof (induction l arbitrary: n)
  case Nil
  then show ?case by (cases n) simp_all
next
  case (Cons c l)
  then show ?case by (cases n) auto
qed

lemma fgets_chunks_lines:
  "\<forall>l \<in> set ls. CHR 0x0A \<notin> set l \<and> length l < 1023 \<Longrightarrow>
   fgets_chunks (concat (map (\<lambda>l. l @ [CHR 0x0A]) ls)) = map (\<lambda>l. l @ [CHR 0x0A]) ls"
proof (induction ls)
  case (Cons l ls)
  then show ?case
    using fgets_chunks_step [OF fgets_take_line [of l 1023 "concat (map (\<lambda>l. l @ [CHR 0x0A]) ls)"]] by simp
qed simp

text \<open>Lines that fit the buffers on the way: at most 1022 characters, and at most twice the heading.\<close>

definition moderate :: "string \<Rightarrow> string \<Rightarrow> bool" where
  "moderate heading l \<longleftrightarrow> CHR 0x00 \<notin> set l \<and> length l < 1023 \<and> length l + 1 \<le> 2 * (length heading + 1)"

lemma lsof_print_saved:
  assumes "heading_ok h" "list_all lsof_entry_ok es" "list_all (moderate h) (h # map lsof_line es)"
  shows "save_pipe_buffer (lsof_print h es) = Inr (Some (lsof_print h es))"
proof -
  let ?ls = "h # map lsof_line es"
  have "\<forall>l \<in> set ?ls. CHR 0x0A \<notin> set l \<and> length l < 1023"
    using lsof_lines_plain assms by (auto simp: list_all_iff moderate_def)
  from fgets_chunks_lines [OF this]
  have ch: "fgets_chunks (lsof_print h es) = (h @ [CHR 0x0A]) # map (\<lambda>l. l @ [CHR 0x0A]) (map lsof_line es)"
    unfolding lsof_print_def by simp
  have nul: "CHR 0x00 \<notin> set (lsof_print h es)"
    using assms(3) by (auto simp: lsof_print_def list_all_iff moderate_def)
  have id: "c_str (l @ [CHR 0x0A]) = l @ [CHR 0x0A]" if "l \<in> set ?ls" for l
    using that assms(3) by (intro c_str_no_nul) (auto simp: list_all_iff moderate_def)
  have "save_pipe_buffer (lsof_print h es) = Inr (Some (concat (map c_str (fgets_chunks (lsof_print h es)))))"
    unfolding ch by (rule save_pipe_collects [OF ch])
      (use id assms(3) in \<open>auto simp: list_all_iff moderate_def\<close>)
  then show ?thesis using chunks_without_nul [OF nul] concat_fgets_chunks by simp
qed

section \<open>Properties\<close>

text \<open>
  C31: the output of \<open>lsof -i\<close>, a heading and one line set in columns for every open socket, with
  or without a connection state, is parsed into the number and command name of each process in
  order: the heading is passed over because no number stands in its second column. So when
  the lines fit the buffers and \<open>lsof\<close> succeeds, the process found for the port is that of
  the first line. (All this when the pointer that is never initialised happens to be null.)
\<close>

theorem lsof_output_roundtrip:
  assumes "heading_ok h" "list_all lsof_entry_ok es"
  shows "(\<forall>e \<in> set es. parse_lsof_line (lsof_line e) = Inr (Some \<lparr>rp_pid = int (le_pid e), rp_command = le_command e\<rparr>)) \<and>
    (\<exists>capacity. parse_lsof_output True (lsof_print h es) =
      Inr (map (\<lambda>e. \<lparr>rp_pid = int (le_pid e), rp_command = le_command e\<rparr>) es, capacity)) \<and>
    (\<forall>env e rest. lr_popen env \<and> lr_output env = lsof_print h es \<and> lr_status env = 0 \<and> lr_junk_null env \<and>
       list_all (moderate h) (h # map lsof_line es) \<and> es = e # rest \<longrightarrow> get_other_pid env = Inr (int (le_pid e)))"
proof -
  obtain c where c: "parse_lsof_output True (lsof_print h es) = Inr (map holder es, c)"
    using lsof_print_parses [OF assms] by blast
  then have "get_other_pid env = Inr (int (le_pid e))"
    if "lr_popen env" "lr_output env = lsof_print h es" "lr_status env = 0" "lr_junk_null env"
      "list_all (moderate h) (h # map lsof_line es)" "es = e # rest" for env e rest
    using that lsof_print_saved [OF assms] by (simp add: get_other_pid_def COMMAND_SUCCESSFUL_def holder_def)
  moreover have "\<forall>e \<in> set es. parse_lsof_line (lsof_line e) = Inr (Some (holder e))"
    using parse_lsof_line_entry assms(2) by (simp add: list_all_iff)
  ultimately show ?thesis using c unfolding holder_def by blast
qed

text \<open>What is printed for a daemon that listens.\<close>

definition sample_heading :: string where
  "sample_heading = ''COMMAND    PID USER   FD   TYPE DEVICE SIZE/OFF NODE NAME''"

definition sample_entry :: lsof_entry where
  "sample_entry = \<lparr>le_pads = (\<lambda>i. [0, 0, 4, 1, 2, 6, 1, 0, 0] ! i), le_command = ''reportman'', le_pid = 1234,
     le_user = ''root'', le_fd = 7, le_mode = ''u'', le_type = ''IPv4'', le_device = ''7770'', le_size_off = ''0t0'',
     le_node = ''TCP'', le_name = ''localhost:7770'', le_state = Some ''(LISTEN)''\<rparr>"

lemma sample_lsof:
  "lsof_line sample_entry = ''reportman 1234 root     7u  IPv4   7770       0t0  TCP localhost:7770 (LISTEN)''"
  "heading_ok sample_heading" "list_all lsof_entry_ok [sample_entry]"
  "list_all (moderate sample_heading) (sample_heading # map lsof_line [sample_entry])"
proof -
  show l: "lsof_line sample_entry = ''reportman 1234 root     7u  IPv4   7770       0t0  TCP localhost:7770 (LISTEN)''"
    by code_simp
  have "sample_heading = ''COMMAND'' @ blanks 3 @ ''PID'' @ '' USER   FD   TYPE DEVICE SIZE/OFF NODE NAME''"
    by (simp add: sample_heading_def blanks_def numeral_eq_Suc)
  then show "heading_ok sample_heading" unfolding heading_ok_def by (intro exI conjI) (assumption, simp)
  show "list_all lsof_entry_ok [sample_entry]"
    by (simp add: lsof_entry_ok_def sample_entry_def is_token_def is_space_def is_digit_def code_def)
  show "list_all (moderate sample_heading) (sample_heading # map lsof_line [sample_entry])"
    by (simp add: l moderate_def sample_heading_def)
qed

theorem lsof_output_roundtrip_witness:
  "\<exists>capacity. parse_lsof_output True (''COMMAND    PID USER   FD   TYPE DEVICE SIZE/OFF NODE NAME'' @ [CHR 0x0A] @
     ''reportman 1234 root     7u  IPv4   7770       0t0  TCP localhost:7770 (LISTEN)'' @ [CHR 0x0A]) =
   Inr ([\<lparr>rp_pid = 1234, rp_command = ''reportman''\<rparr>], capacity)"
proof -
  have "lsof_print sample_heading [sample_entry] = ''COMMAND    PID USER   FD   TYPE DEVICE SIZE/OFF NODE NAME'' @ [CHR 0x0A] @
     ''reportman 1234 root     7u  IPv4   7770       0t0  TCP localhost:7770 (LISTEN)'' @ [CHR 0x0A]"
    by (simp add: lsof_print_def sample_lsof(1) sample_heading_def)
  then show ?thesis
    using lsof_output_roundtrip [OF sample_lsof(2,3)] by (simp add: sample_entry_def)
qed

text \<open>
  C40: \<open>__save_pipe_buffer\<close> collects everything the command printed when no later line is more
  than twice as long as the first, and writes past its block when the second line is at
  least three times as long as the first: the block is doubled once, however much is needed.
  Lines count up to their first zero byte; a first line that begins with one is written into
  a block of no bytes.
\<close>

theorem save_pipe_buffer_bounds:
  assumes "fgets_chunks input = first # later"
  shows "(c_str first \<noteq> [] \<and> list_all (\<lambda>c. length (c_str c) \<le> 2 * length (c_str first)) later \<longrightarrow>
      save_pipe_buffer input = Inr (Some (concat (map c_str (first # later))))) \<and>
    (\<forall>second rest. later = second # rest \<and> 3 * length (c_str first) \<le> length (c_str second) \<longrightarrow>
       save_pipe_buffer input = Inl Undefined) \<and>
    (c_str first = [] \<longrightarrow> save_pipe_buffer input = Inl Undefined) \<and>
    (CHR 0x00 \<notin> set input \<longrightarrow> concat (map c_str (first # later)) = input \<and> c_str first \<noteq> [] \<and>
       (\<forall>c \<in> set (first # later). c_str c = c))"
proof (intro conjI)
  show "c_str first \<noteq> [] \<and> list_all (\<lambda>c. length (c_str c) \<le> 2 * length (c_str first)) later \<longrightarrow>
      save_pipe_buffer input = Inr (Some (concat (map c_str (first # later))))"
    using save_pipe_collects [OF assms] by blast
  obtain rest where r: "fgets_chunks rest = later" "save_pipe_buffer input = (if c_str first = [] then Inl Undefined
      else save_chunks (length (c_str first) * 2) (Some (c_str first)) rest)"
    using save_pipe_first [OF assms] by metis
  then show "c_str first = [] \<longrightarrow> save_pipe_buffer input = Inl Undefined" by simp
  let ?n = "length (c_str first)"
  show "\<forall>second rest2. later = second # rest2 \<and> 3 * ?n \<le> length (c_str second) \<longrightarrow> save_pipe_buffer input = Inl Undefined"
  proof (intro allI impI)
    fix second rest2 assume s: "later = second # rest2 \<and> 3 * ?n \<le> length (c_str second)"
    obtain b2 r2 where t2: "fgets_take 1023 rest = (b2, r2)" by force
    with r(1) s have b: "b2 = second" "b2 \<noteq> []" by (auto simp: fgets_chunks_step [OF t2] split: if_splits)
    show "save_pipe_buffer input = Inl Undefined"
    proof (cases "c_str first = []")
      case False
      then have "?n * 2 * 2 = (if ?n + length (c_str b2) + 1 > ?n * 2
          then (if ?n * 2 = 0 then length (c_str b2) * 2 else ?n * 2 * 2) else ?n * 2)"
        using s b(1) by auto
      then have "save_chunks (?n * 2) (Some (c_str first)) rest =
          (if ?n + length (c_str b2) + 1 > ?n * 2 * 2 then Inl Undefined
           else save_chunks (?n * 2 * 2) (Some (c_str first @ c_str b2)) r2)"
        by (intro save_chunks_step [OF t2 b(2)]) simp_all
      then show ?thesis using s b r(2) by simp
    qed (use r(2) in simp)
  qed
  have "first \<noteq> []" using assms by (subst (asm) fgets_chunks.simps) (auto split: prod.splits if_splits)
  moreover have "concat (map c_str (first # later)) = input \<and> (\<forall>c \<in> set (first # later). c_str c = c)"
    if "CHR 0x00 \<notin> set input"
  proof -
    from chunks_without_nul [OF that] have "map c_str (first # later) = map id (first # later)"
      unfolding assms list.map_id .
    moreover from this have "\<forall>c \<in> set (first # later). c_str c = id c" unfolding map_eq_conv .
    ultimately show ?thesis using concat_fgets_chunks [of input] assms by simp
  qed
  ultimately show "CHR 0x00 \<notin> set input \<longrightarrow> concat (map c_str (first # later)) = input \<and> c_str first \<noteq> [] \<and>
       (\<forall>c \<in> set (first # later). c_str c = c)" by force
qed

theorem save_pipe_buffer_bounds_witness:
  "save_pipe_buffer (''ab'' @ [CHR 0x0A] @ ''cd'') = Inr (Some (''ab'' @ [CHR 0x0A] @ ''cd''))"
proof -
  have "fgets_chunks (''ab'' @ [CHR 0x0A] @ ''cd'') = [''ab'' @ [CHR 0x0A], ''cd'']"
    by (subst fgets_chunks.simps, simp add: numeral_eq_Suc)+
  from save_pipe_buffer_bounds [OF this] show ?thesis by simp
qed

text \<open>
  C19: what acquiring the singleton promises. The daemon goes on only when its socket listens,
  except when \<open>lsof\<close> could not be started or named process 0: then 0 is taken for
  "acquired". Without \<open>--force\<close> and \<open>--close\<close> it never signals any process. With \<open>--close\<close> it
  never goes on: it signals the process found, where one was, and no other, and exits, with
  status 0 unless the socket cannot listen or the signal cannot be sent; the one exception is a
  port in use for which reading the answer of \<open>lsof\<close> is itself undefined.
\<close>

theorem acquire_singleton_safe:
  assumes "acquire_singleton kill_errno env1 env2 args \<lparr>sg_listening = False, sg_killed = []\<rparr> = (r, s')"
  shows "(r = Inr () \<longrightarrow> sg_listening s' \<or>
      get_other_pid (be_lsof env1) = Inr 0 \<or> get_other_pid (be_lsof env2) = Inr 0) \<and>
    (\<not> force args \<and> \<not> da_close args \<longrightarrow> sg_killed s' = []) \<and>
    (da_close args \<longrightarrow> (r, sg_killed s') =
      (if \<not> be_socket env1 then (Inl (Exit 0), [])
       else if be_bind env1 then (if be_listen env1 then (Inl (Exit 0), []) else (Inl (Exit 1), []))
       else (case get_other_pid (be_lsof env1) of
           Inl _ \<Rightarrow> (Inl Undefined, [])
         | Inr p \<Rightarrow> if p \<le> 0 then (Inl (Exit 0), [])
             else (case kill_errno p of Some errno \<Rightarrow> (Inl (Exit errno), []) | None \<Rightarrow> (Inl (Exit 0), [p])))))"
proof (intro conjI)
  show "r = Inr () \<longrightarrow> sg_listening s' \<or> get_other_pid (be_lsof env1) = Inr 0 \<or> get_other_pid (be_lsof env2) = Inr 0"
    "\<not> force args \<and> \<not> da_close args \<longrightarrow> sg_killed s' = []"
    using assms
    by (auto simp: acquire_singleton_def d_acquire_singleton_def force_singleton_def kill_pid_def
        prog_defs IS_SINGLETON_def D_FAILURE_def split: if_splits sum.splits option.splits)
  show "da_close args \<longrightarrow> (r, sg_killed s') =
      (if \<not> be_socket env1 then (Inl (Exit 0), [])
       else if be_bind env1 then (if be_listen env1 then (Inl (Exit 0), []) else (Inl (Exit 1), []))
       else (case get_other_pid (be_lsof env1) of
           Inl _ \<Rightarrow> (Inl Undefined, [])
         | Inr p \<Rightarrow> if p \<le> 0 then (Inl (Exit 0), [])
             else (case kill_errno p of Some errno \<Rightarrow> (Inl (Exit errno), []) | None \<Rightarrow> (Inl (Exit 0), [p]))))"
    using assms get_other_pid_undefined [of "be_lsof env1"]
    by (auto simp: acquire_singleton_def d_acquire_singleton_def kill_pid_def
        prog_defs IS_SINGLETON_def D_FAILURE_def split: if_splits sum.splits option.splits)
qed

text \<open>Another daemon holds the port.\<close>

definition held_port :: bind_env where
  "held_port = \<lparr>be_socket = True, be_bind = False, be_listen = True,
     be_lsof = \<lparr>lr_popen = True, lr_output = lsof_print sample_heading [sample_entry], lr_status = 0,
       lr_junk_null = True, lr_junk_pid = 7\<rparr>\<rparr>"

lemma held_port_pid: "get_other_pid (be_lsof held_port) = Inr 1234"
proof -
  obtain c where "parse_lsof_output True (lsof_print sample_heading [sample_entry]) = Inr ([holder sample_entry], c)"
    using lsof_print_parses [OF sample_lsof(2,3)] by auto
  then show ?thesis
    using lsof_print_saved [OF sample_lsof(2-4)]
    by (simp add: get_other_pid_def held_port_def COMMAND_SUCCESSFUL_def holder_def sample_entry_def)
qed

theorem acquire_singleton_safe_witness:
  "\<exists>s'. acquire_singleton (\<lambda>_. None) held_port held_port (exec_args\<lparr>da_close := True\<rparr>)
     \<lparr>sg_listening = False, sg_killed = []\<rparr> = (Inl (Exit 0), s') \<and> sg_killed s' = [1234]"
proof -
  obtain r s' where a: "acquire_singleton (\<lambda>_. None) held_port held_port (exec_args\<lparr>da_close := True\<rparr>)
     \<lparr>sg_listening = False, sg_killed = []\<rparr> = (r, s')" by (rule prod.exhaust)
  have "(r, sg_killed s') = (Inl (Exit 0), [1234])"
    using acquire_singleton_safe [OF a] held_port_pid by (simp add: held_port_def)
  with a show ?thesis by simp
qed

end
