(* ===== verification/RM_Daemonize.thy ===== *)
theory RM_Daemonize
  imports RM_Prelude
begin

unbundle bit_operations_syntax

text \<open>
  Turning a process into a daemon: \<open>src/libs/daemonize.c\<close>, and \<open>__is_daemon\<close> and
  \<open>__become_daemon\<close> of \<open>reportmand.c\<close>. The state is what these functions change of the
  calling process; which side of a \<open>fork\<close> is followed, and what the other calls answer,
  are arguments.
\<close>

section \<open>The process\<close>

record dproc =
  dp_pid :: int
  dp_pgid :: int
  dp_sid :: int
  dp_fds :: "int list"
  dp_umask :: nat
  dp_cwd :: string
  dp_ignored :: "nat list"
  dp_log :: "string option"

datatype fork_outcome = ForkFails | IsParent | IsChild int

record daemon_env =
  de_fork1 :: fork_outcome
  de_fork2 :: fork_outcome
  de_setsid :: bool
  de_chdir :: bool
  de_open_max :: int

definition SIGCHLD :: nat where "SIGCHLD = 17"
definition SIGHUP :: nat where "SIGHUP = 1"

section \<open>\<open>become_daemon\<close>\<close>

definition D_NO_FILE_CLOSE :: nat where "D_NO_FILE_CLOSE = 1"
definition D_NO_STD_TO_NULL :: nat where "D_NO_STD_TO_NULL = 2"

text \<open>The \<open>switch (fork())\<close>: a failing call and the parent exit.\<close>

definition fork_and_leave :: "fork_outcome \<Rightarrow> (dproc, unit) prog" where
  "fork_and_leave f = (case f of
     ForkFails \<Rightarrow> stop (Exit EXIT_FAILURE)
   | IsParent \<Rightarrow> stop (Exit EXIT_SUCCESS)
   | IsChild c \<Rightarrow> modify (\<lambda>p. p\<lparr>dp_pid := c\<rparr>))"

text \<open>\<open>setsid\<close> fails for the leader of a process group.\<close>

definition sys_setsid :: "bool \<Rightarrow> (dproc, unit) prog" where
  "sys_setsid ok p =
     (if \<not> ok \<or> dp_pid p = dp_pgid p then (Inl (Exit EXIT_FAILURE), p)
      else (Inr (), p\<lparr>dp_sid := dp_pid p, dp_pgid := dp_pid p\<rparr>))"

function close_from :: "int \<Rightarrow> int \<Rightarrow> int \<Rightarrow> int list \<Rightarrow> int list" where
  "close_from fd maxfd singleton_sock_fd fds =
     (if fd < maxfd then
        close_from (fd + 1) maxfd singleton_sock_fd
          (if fd = singleton_sock_fd then fds else filter (\<lambda>f. f \<noteq> fd) fds)
      else fds)"
  by pat_completeness auto
termination
  by (relation "measure (\<lambda>(fd, maxfd, sock, fds). nat (maxfd - fd))") auto

declare close_from.simps [simp del]

text \<open>
  The parameter \<open>use_flags\<close> is a C \<open>bool\<close>: whatever flags a caller passes arrive as 0 or 1.
\<close>

definition bool_arg :: "nat \<Rightarrow> nat" where
  "bool_arg flags = (if flags \<noteq> 0 then 1 else 0)"

definition become_daemon :: "daemon_env \<Rightarrow> nat \<Rightarrow> int \<Rightarrow> (dproc, unit) prog" where
  "become_daemon env flags singleton_sock_fd =
     (let use_flags = bool_arg flags in
      bnd (fork_and_leave (de_fork1 env)) (\<lambda>_.
      bnd (sys_setsid (de_setsid env)) (\<lambda>_.
      bnd (modify (\<lambda>p. p\<lparr>dp_ignored := SIGHUP # SIGCHLD # dp_ignored p\<rparr>)) (\<lambda>_.
      bnd (fork_and_leave (de_fork2 env)) (\<lambda>_.
      bnd (modify (\<lambda>p. p\<lparr>dp_umask := 0\<rparr>)) (\<lambda>_.
      bnd (modify (\<lambda>p. if de_chdir env then p\<lparr>dp_cwd := ''/''\<rparr> else p)) (\<lambda>_.
        if use_flags AND D_NO_FILE_CLOSE = 0 then
          (let maxfd = (if de_open_max env = -1 then 8192 else de_open_max env) in
           modify (\<lambda>p. p\<lparr>dp_fds := close_from 3 maxfd singleton_sock_fd (dp_fds p)\<rparr>))
        else ret ())))))))"

section \<open>The caller\<close>

definition is_daemon :: "dproc \<Rightarrow> int" where
  "is_daemon p = (if dp_pgid p = dp_sid p then 1 else 0)"

definition reportmand_become_daemon :: "daemon_env \<Rightarrow> bool \<Rightarrow> int \<Rightarrow> (dproc, unit) prog" where
  "reportmand_become_daemon env make_daemon d_socket =
     bnd (gets is_daemon) (\<lambda>already.
       if make_daemon \<and> already = 0 then
         bnd (become_daemon env 0 d_socket) (\<lambda>_.
           modify (\<lambda>p. p\<lparr>dp_log := Some ''LOG_DAEMON''\<rparr>))
       else modify (\<lambda>p. p\<lparr>dp_log := Some ''LOG_USER''\<rparr>))"

section \<open>What the loop closes\<close>

lemma close_from_set:
  "set (close_from fd maxfd sock fds) = {f \<in> set fds. f < fd \<or> maxfd \<le> f \<or> f = sock}"
proof (induction fd maxfd sock fds rule: close_from.induct)
  case (1 fd maxfd sock fds)
  show ?case
  proof (cases "fd < maxfd")
    case True
    then have "close_from fd maxfd sock fds =
        close_from (fd + 1) maxfd sock (if fd = sock then fds else filter (\<lambda>f. f \<noteq> fd) fds)"
      unfolding close_from.simps [of fd maxfd sock fds] by (simp only: if_True)
    then have e: "set (close_from fd maxfd sock fds) =
        {f \<in> set (if fd = sock then fds else filter (\<lambda>f. f \<noteq> fd) fds). f < fd + 1 \<or> maxfd \<le> f \<or> f = sock}"
      by (simp only: "1.IH" [OF True])
    have "x \<in> {f \<in> set (if fd = sock then fds else filter (\<lambda>f. f \<noteq> fd) fds). f < fd + 1 \<or> maxfd \<le> f \<or> f = sock} \<longleftrightarrow>
        x \<in> {f \<in> set fds. f < fd \<or> maxfd \<le> f \<or> f = sock}" for x
      using True by (cases "x = fd"; cases "fd = sock") auto
    then show ?thesis unfolding e by (rule set_eqI)
  next
    case False
    then have "close_from fd maxfd sock fds = fds"
      unfolding close_from.simps [of fd maxfd sock fds] by (simp only: if_False)
    moreover have "(f < fd \<or> maxfd \<le> f \<or> f = sock) = True" for f
      unfolding eq_True using False by linarith
    ultimately show ?thesis by simp
  qed
qed

section \<open>Properties\<close>

text \<open>A process that has become a daemon does not fork a second time.\<close>

lemma daemon_stays: "is_daemon p = 1 \<Longrightarrow>
  reportmand_become_daemon env mk sock p = (Inr (), p\<lparr>dp_log := Some ''LOG_USER''\<rparr>)"
  by (simp add: reportmand_become_daemon_def prog_defs)

text \<open>
  C20: \<open>become_daemon\<close> in each of the processes it makes, whatever fails. The process that calls
  it exits, unchanged, with status 0, or 1 when the first fork fails. The first child, once it
  has founded a session and a process group, exits with status 0; it exits with 1 when it
  cannot, or when its fork fails. Only the grandchild returns: a member, not the leader, of that
  session and group, so it can never acquire a terminal and a second call of
  \<open>__become_daemon\<close> does not fork; children that die are reaped, hang-ups are ignored, no
  permission bit is masked, it stands at the root if it could go there; and with no flags
  exactly the standard streams, the singleton socket and what lies beyond the limit stay open.
\<close>

theorem become_daemon_correct:
  assumes "become_daemon env flags sock p = (r, p')"
    "\<forall>c1 c2. de_fork1 env = IsChild c1 \<and> de_fork2 env = IsChild c2 \<longrightarrow> c1 \<noteq> c2"
  shows "(de_fork1 env = ForkFails \<longrightarrow> r = Inl (Exit 1) \<and> p' = p) \<and>
    (de_fork1 env = IsParent \<longrightarrow> r = Inl (Exit 0) \<and> p' = p) \<and>
    (\<forall>c1. de_fork1 env = IsChild c1 \<longrightarrow>
      (if \<not> de_setsid env \<or> c1 = dp_pgid p then r = Inl (Exit 1) \<and> p' = p\<lparr>dp_pid := c1\<rparr>
       else dp_sid p' = c1 \<and> dp_pgid p' = c1 \<and> SIGCHLD \<in> set (dp_ignored p') \<and> SIGHUP \<in> set (dp_ignored p') \<and>
         (de_fork2 env = ForkFails \<longrightarrow> r = Inl (Exit 1) \<and> dp_pid p' = c1 \<and> dp_fds p' = dp_fds p) \<and>
         (de_fork2 env = IsParent \<longrightarrow> r = Inl (Exit 0) \<and> dp_pid p' = c1 \<and> dp_fds p' = dp_fds p) \<and>
         (\<forall>c2. de_fork2 env = IsChild c2 \<longrightarrow> r = Inr () \<and> dp_pid p' = c2 \<and> dp_pid p' \<noteq> dp_sid p' \<and>
            dp_umask p' = 0 \<and> dp_cwd p' = (if de_chdir env then ''/'' else dp_cwd p) \<and>
            set (dp_fds p') = (if flags = 0
              then {f \<in> set (dp_fds p). f < 3 \<or> (if de_open_max env = -1 then 8192 else de_open_max env) \<le> f \<or> f = sock}
              else set (dp_fds p)) \<and>
            (\<forall>env' sock'. reportmand_become_daemon env' True sock' p' = (Inr (), p'\<lparr>dp_log := Some ''LOG_USER''\<rparr>)))))"
proof (cases "de_fork1 env")
  case (IsChild c1)
  let ?q = "p\<lparr>dp_pid := c1, dp_sid := c1, dp_pgid := c1, dp_ignored := SIGHUP # SIGCHLD # dp_ignored p\<rparr>"
  show ?thesis
  proof (cases "\<not> de_setsid env \<or> c1 = dp_pgid p")
    case True
    then show ?thesis using assms(1) IsChild
      by (auto simp: become_daemon_def Let_def fork_and_leave_def sys_setsid_def prog_defs)
  next
    case s: False
    show ?thesis
    proof (cases "de_fork2 env")
      case c2: (IsChild c2)
      have "r = Inr () \<and> p' = ?q\<lparr>dp_pid := c2, dp_umask := 0, dp_cwd := (if de_chdir env then ''/'' else dp_cwd p),
          dp_fds := (if flags = 0 then close_from 3 (if de_open_max env = -1 then 8192 else de_open_max env) sock (dp_fds p)
            else dp_fds p)\<rparr>"
        using assms(1) s IsChild c2
        by (auto simp: become_daemon_def Let_def fork_and_leave_def sys_setsid_def prog_defs bool_arg_def
            D_NO_FILE_CLOSE_def)
      moreover have "c1 \<noteq> c2" using assms(2) IsChild c2 by blast
      ultimately show ?thesis using s IsChild c2 by (simp add: close_from_set daemon_stays is_daemon_def)
    qed (use assms(1) s IsChild in
        \<open>auto simp: become_daemon_def Let_def fork_and_leave_def sys_setsid_def prog_defs\<close>)
  qed
qed (use assms(1) in \<open>auto simp: become_daemon_def Let_def fork_and_leave_def prog_defs\<close>)

definition sample_dproc :: dproc where
  "sample_dproc = \<lparr>dp_pid = 10, dp_pgid = 10, dp_sid = 5, dp_fds = [0, 1, 2, 3, 4, 7], dp_umask = 18,
     dp_cwd = ''/home'', dp_ignored = [], dp_log = None\<rparr>"

definition sample_forks :: "fork_outcome \<Rightarrow> fork_outcome \<Rightarrow> daemon_env" where
  "sample_forks f1 f2 = \<lparr>de_fork1 = f1, de_fork2 = f2, de_setsid = True, de_chdir = True, de_open_max = 1024\<rparr>"

lemma sample_forks_sel [simp]:
  "de_fork1 (sample_forks f1 f2) = f1" "de_fork2 (sample_forks f1 f2) = f2" "de_setsid (sample_forks f1 f2)"
  "de_open_max (sample_forks f1 f2) = 1024" "dp_pgid sample_dproc = 10"
  by (simp_all add: sample_forks_def sample_dproc_def)

theorem become_daemon_correct_witness:
  "fst (become_daemon (sample_forks IsParent ForkFails) 0 4 sample_dproc) = Inl (Exit 0) \<and>
   fst (become_daemon (sample_forks (IsChild 11) IsParent) 0 4 sample_dproc) = Inl (Exit 0) \<and>
   (\<exists>p'. become_daemon (sample_forks (IsChild 11) (IsChild 12)) 0 4 sample_dproc = (Inr (), p') \<and>
     dp_sid p' = 11 \<and> set (dp_fds p') = {0, 1, 2, 4})"
proof -
  have run: "become_daemon env flags sock p = (fst (become_daemon env flags sock p), snd (become_daemon env flags sock p))"
    for env flags sock p by simp
  note c = become_daemon_correct [OF run]
  have set: "{f \<in> set (dp_fds sample_dproc). f < 3 \<or> 1024 \<le> f \<or> f = 4} = {0, 1, 2, 4}"
    by (auto simp: sample_dproc_def)
  have "fst (become_daemon (sample_forks IsParent ForkFails) 0 4 sample_dproc) = Inl (Exit 0)"
    using c [of "sample_forks IsParent ForkFails" 0 4 sample_dproc] by simp
  moreover have "fst (become_daemon (sample_forks (IsChild 11) IsParent) 0 4 sample_dproc) = Inl (Exit 0)"
    using c [of "sample_forks (IsChild 11) IsParent" 0 4 sample_dproc] by simp
  moreover obtain r p' where p': "become_daemon (sample_forks (IsChild 11) (IsChild 12)) 0 4 sample_dproc = (r, p')"
    by (rule prod.exhaust)
  moreover have "r = Inr () \<and> dp_sid p' = 11 \<and> set (dp_fds p') = {0, 1, 2, 4}"
    using become_daemon_correct [OF p'] set by simp
  ultimately show ?thesis by auto
qed

end
