(* ===== verification/RM_System.thy ===== *)
theory RM_System
  imports RM_Client RM_FileManager RM_MonitorProc RM_Singleton RM_Daemonize
begin

text \<open>
  The daemon's \<open>main\<close> (\<open>reportmand.c\<close>), which joins all its parts, and what the parts give
  together: from the start of the file manager to the first answered health probe.
\<close>

section \<open>The program\<close>

definition directories :: "string list" where
  "directories = [R_REPORTS_DIRECTORY, R_BACKUP_DIRECTORY, R_DASHBOARD_DIRECTORY]"

text \<open>Everything the process keeps, and what the kernel answers on the way.\<close>

record reportmand =
  rm_singleton :: singleton
  rm_dproc :: dproc
  rm_daemon :: daemon

record main_env =
  mn_place :: place
  mn_kill :: "int \<Rightarrow> int option"
  mn_bind1 :: bind_env
  mn_bind2 :: bind_env
  mn_daemon :: daemon_env
  mn_fm_world :: world
  mn_mon_world :: world
  mn_listen :: listen_env

abbreviation on_singleton :: "(singleton, 'a) prog \<Rightarrow> (reportmand, 'a) prog" where
  "on_singleton \<equiv> within rm_singleton (\<lambda>x s. s\<lparr>rm_singleton := x\<rparr>)"

abbreviation on_dproc :: "(dproc, 'a) prog \<Rightarrow> (reportmand, 'a) prog" where
  "on_dproc \<equiv> within rm_dproc (\<lambda>x s. s\<lparr>rm_dproc := x\<rparr>)"

abbreviation on_daemon :: "(daemon, 'a) prog \<Rightarrow> (reportmand, 'a) prog" where
  "on_daemon \<equiv> within rm_daemon (\<lambda>x s. s\<lparr>rm_daemon := x\<rparr>)"

text \<open>The directory tool in the daemon: its files are the daemon's, and no timer is armed.\<close>

definition with_dirtool :: "(dirtool, 'a) prog \<Rightarrow> (daemon, 'a) prog" where
  "with_dirtool = within (\<lambda>s. \<lparr>dt_fs = dm_fs s, back_up_source_directory = None,
      back_up_target_directory = None, transfer_source_directory = None, transfer_target_directory = None,
      dt_handlers = (\<lambda>_. None), dt_timers = []\<rparr>) (\<lambda>d s. s\<lparr>dm_fs := dt_fs d\<rparr>)"

definition init_program_directories :: "(daemon, unit) prog" where
  "init_program_directories =
     bnd (with_dirtool (init_directories (length directories) directories)) (\<lambda>r.
       if r \<noteq> 0 then stop (Exit EXIT_FAILURE) else ret ())"

text \<open>The children are started with \<open>__directories\<close>, an array without a null pointer at its end.\<close>

definition serve_clients ::
  "('c, 'x) services \<Rightarrow> main_env \<Rightarrow> self \<Rightarrow> round list \<Rightarrow> (daemon, int) prog" where
  "serve_clients sv env self rs =
     bnd init_program_directories (\<lambda>_.
     bnd (spawn_into self (mn_fm_world env) FM None) (\<lambda>_.
     bnd (get_timers_into self (mn_fm_world env) FM) (\<lambda>_.
     bnd (spawn_into self (mn_mon_world env) MON (Some (map Some directories))) (\<lambda>_.
     listen_to_clients sv (mn_listen env) self rs))))"

definition reportmand_main ::
  "('c, 'x) services \<Rightarrow> main_env \<Rightarrow> self \<Rightarrow> string list \<Rightarrow> round list \<Rightarrow> (reportmand, unit) prog" where
  "reportmand_main sv env self argv rs =
     (case configure_daemon_args (mn_place env) argv exec_args of
        Inl h \<Rightarrow> stop h
      | Inr args \<Rightarrow>
          bnd (on_singleton (acquire_singleton (mn_kill env) (mn_bind1 env) (mn_bind2 env) args)) (\<lambda>_.
          bnd (on_dproc (reportmand_become_daemon (mn_daemon env) (make_daemon args) (d_socket self))) (\<lambda>_.
          bnd (on_daemon (serve_clients sv env self rs)) (\<lambda>exit_code.
          stop (Exit exit_code)))))"

section \<open>The start of the file manager\<close>

lemma no_hits: "hits i s = 0 \<longleftrightarrow> (\<forall>p. map_of (procs s) i = Some p \<longrightarrow> sigpipe_hits p = 0)"
  by (simp add: hits_def split: option.split)

lemma no_hits_calls:
  "preserves (\<lambda>s. hits i s = 0) (sys_pipe ok j)" "preserves (\<lambda>s. hits i s = 0) (sys_close j f)"
  "preserves (\<lambda>s. hits i s = 0) (sys_fork ok j)" "preserves (\<lambda>s. hits i s = 0) (modify (proc_ends c))"
  "preserves (\<lambda>s. hits i s = 0) (modify (exec_proc c))"
proof -
  show "preserves (\<lambda>s. hits i s = 0) (sys_pipe ok j)"
    by (rule preservesI) (auto simp: no_hits sys_pipe_def Let_def split: option.split)
  show "preserves (\<lambda>s. hits i s = 0) (sys_close j f)"
    by (rule preservesI) (auto simp: no_hits sys_close_def modify_def)
  show "preserves (\<lambda>s. hits i s = 0) (sys_fork ok j)"
    by (rule preservesI) (auto simp: no_hits sys_fork_def split: option.split)
  show "preserves (\<lambda>s. hits i s = 0) (modify (proc_ends c))"
    by (rule preservesI) (auto simp: no_hits modify_def proc_ends_def map_of_closed)
  show "preserves (\<lambda>s. hits i s = 0) (modify (exec_proc c))"
    by (rule preservesI) (auto simp: no_hits modify_def exec_proc_def)
qed

lemma hits_start:
  assumes "hits i s = 0" "start_child_process env j cp extra sock s = (r, s')"
  shows "hits i s' = 0"
proof -
  have "preserves (\<lambda>s. hits i s = 0) (start_child_process env j cp extra sock)"
    unfolding start_child_process_def initialize_pipes_def child_branch_def
    by (intro preserves_intros no_hits_calls)
      (auto intro!: preserves_intros no_hits_calls split: sum.split option.split prod.split)
  from preservesD [OF this assms(1)] assms(2) show ?thesis by simp
qed

lemma acknowledge_client_run:
  assumes "link s c cw i (p_read pipes) up" "link s i (p_write pipes) c cr down" "up \<noteq> down"
    "bufs s up = bytes_of_word (ucast IPC_COMMAND_ACK)" "bufs s down = []"
  shows "\<exists>a. acknowledge_client i pipes junk s =
    (Inr a, s\<lparr>bufs := (bufs s)(up := [], down := bytes_of_word (ucast IPC_COMMAND_ACK))\<rparr>)"
  using daemon_ack [of "\<lparr>daemon_pid = i, child_pid = c, d_pipes = pipes, c_pipes = \<lparr>p_write = cw, p_read = cr\<rparr>,
      t_backup = 0, t_transfer = 0, s_junk = junk\<rparr>" up down s] assms
  by (simp add: connected_def bnd_returns ret_run)

lemma get_timers_run:
  assumes "link s c cw i (p_read pipes) up" "b \<le> 0x0FFFFFFF" "t \<le> 0x0FFFFFFF"
    "bufs s up = bytes_of_word (R_IPC_VALUE_UINT_FLAG OR b) @ bytes_of_word (R_IPC_VALUE_UINT_FLAG OR t)"
  shows "reportman_fm_get_timers i pipes junk s = (Inr (b, t), s\<lparr>bufs := (bufs s)(up := [])\<rparr>)"
proof -
  have sel: "sys_select i (p_read pipes) s = (Inr 1, s)"
    using assms(4) by (simp add: sys_select_link [OF assms(1)])
  have "get_timer i pipes junk s = (Inr b, s\<lparr>bufs := (bufs s)(up := bytes_of_word (R_IPC_VALUE_UINT_FLAG OR t))\<rparr>)"
    using get_timer_link [OF assms(1,4)] assms(2) by (simp add: and_low_mask)
  moreover have "get_timer i pipes junk (s\<lparr>bufs := (bufs s)(up := bytes_of_word (R_IPC_VALUE_UINT_FLAG OR t))\<rparr>) =
      (Inr t, s\<lparr>bufs := (bufs s)(up := [])\<rparr>)"
    using get_timer_link [of "s\<lparr>bufs := (bufs s)(up := bytes_of_word (R_IPC_VALUE_UINT_FLAG OR t))\<rparr>" c cw i pipes up t "[]" junk]
      assms(1,3) by (simp add: and_low_mask)
  ultimately show ?thesis
    by (simp add: reportman_fm_get_timers_def prog_simps sel D_FAILURE_def)
qed

lemma report_run:
  assumes "link s c (p_write pipes) i r up" "bufs s up = []" "b \<le> 0x0FFFFFFF" "t \<le> 0x0FFFFFFF"
  shows "report_to_daemon c pipes b t s = (Inr D_SUCCESS, s\<lparr>bufs := (bufs s)(up :=
    bytes_of_word (R_IPC_VALUE_UINT_FLAG OR b) @ bytes_of_word (R_IPC_VALUE_UINT_FLAG OR t))\<rparr>)"
proof -
  have "ipc_send_ulong c pipes b s = (Inr True, s\<lparr>bufs := (bufs s)(up := bytes_of_word (R_IPC_VALUE_UINT_FLAG OR b))\<rparr>)"
    using ipc_send_ulong_link [OF assms(1)] assms(2) small_is_sendable [OF assms(3)] by (simp add: pipe_capacity_def)
  moreover have "ipc_send_ulong c pipes t (s\<lparr>bufs := (bufs s)(up := bytes_of_word (R_IPC_VALUE_UINT_FLAG OR b))\<rparr>) =
      (Inr True, s\<lparr>bufs := (bufs s)(up :=
        bytes_of_word (R_IPC_VALUE_UINT_FLAG OR b) @ bytes_of_word (R_IPC_VALUE_UINT_FLAG OR t))\<rparr>)"
    using assms(1) small_is_sendable [OF assms(4)]
    by (subst ipc_send_ulong_link [where p = up]) (simp_all add: pipe_capacity_def)
  ultimately show ?thesis by (simp add: report_to_daemon_def prog_simps)
qed

text \<open>
  The file manager as the daemon meets it: while the daemon waits it sends its
  acknowledgement, and then reads the daemon's and reports its timers.
\<close>

definition fm_answers :: "pid \<Rightarrow> ipc_pipes \<Rightarrow> u64 \<Rightarrow> u64 \<Rightarrow> world \<Rightarrow> bool" where
  "fm_answers c pipes b t w \<longleftrightarrow>
     wo_env w = \<lparr>se_pipe1 = True, se_pipe2 = True, se_fork = True, se_exec = True\<rparr> \<and>
     wo_start w = (\<lambda>o1. snd (ipc_send_ack c pipes o1)) \<and>
     wo_timers w = (\<lambda>o1. snd (bnd (ipc_get_ack c pipes 0) (\<lambda>_. report_to_daemon c pipes b t) o1))"

lemma fun_upd_same_twice: "f x = v \<Longrightarrow> (f(x := a))(x := v) = f" "x \<noteq> y \<Longrightarrow> f x = v \<Longrightarrow> f(x := a, y := b, x := v) = f(y := b)"
  by (auto simp: fun_eq_iff)

lemma spawn_run:
  assumes env: "wo_env w = \<lparr>se_pipe1 = True, se_pipe2 = True, se_fork = True, se_exec = True\<rparr>"
    and start: "start_child_process (wo_env w) (me self) (child_of which s) extra (d_socket self) (dm_os s) =
      (Inr (r, cp, fate), o1)"
    and h: "hits (me self) (dm_os s) = 0"
    and up: "link o1 c (p_write pipes) (me self) (p_read (cp_pipes cp)) up"
    and down: "link o1 (me self) (p_write (cp_pipes cp)) c (p_read pipes) down"
    and ne: "up \<noteq> down" and e: "bufs o1 up = []" "bufs o1 down = []"
    and w: "wo_start w = (\<lambda>o1. snd (ipc_send_ack c pipes o1))"
  shows "spawn_into self w which extra s =
    (Inr (), (set_child which cp s)\<lparr>dm_os := o1\<lparr>bufs := (bufs o1)(down := bytes_of_word (ucast IPC_COMMAND_ACK))\<rparr>\<rparr>)"
proof -
  have h1: "hits (me self) o1 = 0" by (rule hits_start [OF h start])
  let ?o2 = "o1\<lparr>bufs := (bufs o1)(up := bytes_of_word (ucast IPC_COMMAND_ACK))\<rparr>"
  have a: "on_os self (start_child_process (wo_env w) (me self) (child_of which s) extra (d_socket self)) s =
      (Inr (r, cp, fate), s\<lparr>dm_os := o1\<rparr>)"
    by (rule on_os_run) (rule start h1)+
  have b: "wo_start w o1 = ?o2"
    using w ipc_send_ack_link [OF up] e by (simp add: pipe_capacity_def)
  obtain x where "acknowledge_client (me self) (cp_pipes cp) (wo_junk w) ?o2 = (Inr x,
      ?o2\<lparr>bufs := (bufs ?o2)(up := [], down := bytes_of_word (ucast IPC_COMMAND_ACK))\<rparr>)"
    using acknowledge_client_run [of ?o2 c "p_write pipes" "me self" "cp_pipes cp" up "p_read pipes" down] up down ne e
    by auto
  then have c: "on_os self (acknowledge_client (me self) (cp_pipes cp) (wo_junk w)) ((set_child which cp s)\<lparr>dm_os := ?o2\<rparr>) =
      (Inr x, (set_child which cp s)\<lparr>dm_os := o1\<lparr>bufs := (bufs o1)(down := bytes_of_word (ucast IPC_COMMAND_ACK))\<rparr>\<rparr>)"
    using h1 e(1) by (subst on_os_run) (simp_all add: fun_upd_same_twice fun_upd_idem)
  show ?thesis
    unfolding spawn_into_def using a b c by (simp add: prog_simps bnd_def)
qed

lemma timers_run:
  assumes h: "hits (me self) (dm_os s) = 0" and o1: "dm_os s = o1\<lparr>bufs := (bufs o1)(down := bytes_of_word (ucast IPC_COMMAND_ACK))\<rparr>"
    and up: "link o1 c (p_write pipes) (me self) (p_read (cp_pipes (child_of which s))) up"
    and down: "link o1 (me self) fw c (p_read pipes) down"
    and ne: "up \<noteq> down" and e: "bufs o1 up = []" "bufs o1 down = []"
    and small: "b \<le> 0x0FFFFFFF" "t \<le> 0x0FFFFFFF"
    and w: "wo_timers w = (\<lambda>o1. snd (bnd (ipc_get_ack c pipes 0) (\<lambda>_. report_to_daemon c pipes b t) o1))"
  shows "get_timers_into self w which s = (Inr D_SUCCESS, s\<lparr>dm_os := o1, dm_backup_timer := b, dm_transfer_timer := t\<rparr>)"
proof -
  let ?words = "bytes_of_word (R_IPC_VALUE_UINT_FLAG OR b) @ bytes_of_word (R_IPC_VALUE_UINT_FLAG OR t)"
  let ?o3 = "o1\<lparr>bufs := (bufs o1)(up := ?words)\<rparr>"
  have "ipc_get_ack c pipes 0 (dm_os s) = (Inr True, o1)"
    using ipc_get_ack_link [of "dm_os s" "me self" fw c pipes down "ucast IPC_COMMAND_ACK" "[]" 0] down e
    by (simp add: o1 fun_upd_same_twice fun_upd_idem)
  moreover have "report_to_daemon c pipes b t o1 = (Inr D_SUCCESS, ?o3)"
    by (rule report_run [OF up e(1) small])
  ultimately have "wo_timers w (dm_os s) = ?o3" using w by (simp add: bnd_def)
  moreover have "on_os self (reportman_fm_get_timers (me self) (cp_pipes (child_of which s)) (wo_junk w)) (s\<lparr>dm_os := ?o3\<rparr>) =
      (Inr (b, t), s\<lparr>dm_os := o1\<rparr>)"
    using get_timers_run [of ?o3 c "p_write pipes" "me self" "cp_pipes (child_of which s)" up b t "wo_junk w"] up small h o1 e
    by (subst on_os_run) (simp_all add: fun_upd_same_twice fun_upd_idem)
  ultimately show ?thesis
    unfolding get_timers_into_def by (simp add: prog_simps bnd_def)
qed

text \<open>
  The start of the file manager as a whole, when the calls succeed: \<open>o1\<close> is the system after
  \<open>start_child_process\<close>, and what child and daemon exchange leaves nothing in the pipes.
\<close>

lemma fm_start_run:
  assumes p: "map_of (procs (dm_os s)) (me self) = Some p" "hits (me self) (dm_os s) = 0"
    "map_of (procs (dm_os s)) (npid (dm_os s)) = None"
    and sock: "d_socket self \<in> fst ` set (fdtab p) \<or> d_socket self < 0"
    and small: "b \<le> 0x0FFFFFFF" "t \<le> 0x0FFFFFFF"
  obtains cr cw pr pw o1 r cp where
    "new_fds (fdtab p) (npipe (dm_os s)) = (cr, cw, pr, pw)"
    "start_child_process \<lparr>se_pipe1 = True, se_pipe2 = True, se_fork = True, se_exec = True\<rparr>
       (me self) (dm_fm s) None (d_socket self) (dm_os s) = (Inr r, o1)"
    "cp = (dm_fm s)\<lparr>cp_pipes := \<lparr>p_write = pw, p_read = cr\<rparr>, cp_pid := npid (dm_os s), is_alive := True\<rparr>"
    "\<And>x. dm_os x = o1 \<Longrightarrow> dm_fm x = cp \<Longrightarrow>
       joined self FM \<lparr>p_write = cw, p_read = pr\<rparr> (Suc (npipe (dm_os s))) (npipe (dm_os s)) x"
    "\<And>w. fm_answers (npid (dm_os s)) \<lparr>p_write = cw, p_read = pr\<rparr> b t w \<Longrightarrow>
       bnd (spawn_into self w FM None) (\<lambda>_. get_timers_into self w FM) s =
         (Inr D_SUCCESS, s\<lparr>dm_fm := cp, dm_os := o1, dm_backup_timer := b, dm_transfer_timer := t\<rparr>)"
proof -
  let ?o = "dm_os s"
  let ?c = "npid ?o" and ?n = "npipe ?o"
  obtain cr cw pr pw where fds: "new_fds (fdtab p) ?n = (cr, cw, pr, pw)"
    using prod_cases4 by blast
  note fresh = new_fds_fresh [OF fds]
  let ?pipes = "\<lparr>p_write = cw, p_read = pr\<rparr>"
  let ?cp = "(dm_fm s)\<lparr>cp_pipes := \<lparr>p_write = pw, p_read = cr\<rparr>, cp_pid := ?c, is_alive := True\<rparr>"
  have extra: "(case None of None \<Rightarrow> Inr [] | Some as \<Rightarrow> scan_extra 0 as) = Inr []" by simp
  obtain o1 where st: "start_child_process \<lparr>se_pipe1 = True, se_pipe2 = True, se_fork = True, se_exec = True\<rparr>
      (me self) (dm_fm s) None (d_socket self) ?o =
      (Inr (?c, ?cp, Some (Runs (child_vector (executable (dm_fm s)) pr cw []))), o1)"
    and l: "link o1 ?c cw (me self) cr ?n" "link o1 (me self) pw ?c pr (Suc ?n)"
    and e: "bufs o1 ?n = []" "bufs o1 (Suc ?n) = []"
    by (rule start_child_run [OF refl p(1) refl p(3) fds sock extra, where cp = "dm_fm s"])
  have h1: "hits (me self) o1 = 0" by (rule hits_start [OF p(2) st])
  have ex: "exists_proc ?c o1"
    using linkD(1) [OF l(1)] by (auto simp: exists_proc_def fd_obj_def fds_of_def split: option.splits)
  have joined: "joined self FM ?pipes (Suc ?n) ?n x" if "dm_os x = o1" "dm_fm x = ?cp" for x
    using l e ex h1 fresh(2) that by (simp add: joined_def)
  have run: "bnd (spawn_into self w FM None) (\<lambda>_. get_timers_into self w FM) s =
      (Inr D_SUCCESS, s\<lparr>dm_fm := ?cp, dm_os := o1, dm_backup_timer := b, dm_transfer_timer := t\<rparr>)"
    if w: "fm_answers ?c ?pipes b t w" for w
  proof -
    let ?s1 = "(set_child FM ?cp s)\<lparr>dm_os := o1\<lparr>bufs := (bufs o1)(Suc ?n := bytes_of_word (ucast IPC_COMMAND_ACK))\<rparr>\<rparr>"
    have "spawn_into self w FM None s = (Inr (), ?s1)"
      by (rule spawn_run [where pipes = ?pipes and c = ?c and up = ?n])
        (use w st p(2) l e in \<open>simp_all add: fm_answers_def\<close>)
    moreover have "get_timers_into self w FM ?s1 = (Inr D_SUCCESS, ?s1\<lparr>dm_os := o1, dm_backup_timer := b, dm_transfer_timer := t\<rparr>)"
      by (rule timers_run [where pipes = ?pipes and c = ?c and up = ?n and down = "Suc ?n" and fw = pw])
        (use w h1 l e small in \<open>simp_all add: fm_answers_def\<close>)
    ultimately show ?thesis by (simp add: bnd_def)
  qed
  show thesis by (rule that [OF fds st refl joined run])
qed

section \<open>Property\<close>

text \<open>
  C2: from the start of the file manager to its first answered health probe. When the calls of
  the start succeed, there are pipe ends which the child reads from its own command line, and
  over them: a child that acknowledges and reports its two timers makes the daemon's start-up
  return with exactly these timers stored; daemon and child are then joined by two empty
  pipes; and from there every probe the child's loop handles is answered.
\<close>

theorem boot_to_first_probe:
  assumes "map_of (procs (dm_os s)) (me self) = Some p" "sigpipe_hits p = 0"
    "map_of (procs (dm_os s)) (npid (dm_os s)) = None"
    "d_socket self \<in> fst ` set (fdtab p) \<or> d_socket self < 0" "length (fdtab p) < 2000000000"
    "b \<le> 0x0FFFFFFF" "t \<le> 0x0FFFFFFF"
  shows "\<exists>pipes.
    (\<exists>fa. configure_reportman_fm_args off now (tl (child_vector (executable (dm_fm s)) (p_read pipes) (p_write pipes) []))
       fm_args_init = Inr fa \<and> fa_from_daemon fa \<and> fa_pipes fa = pipes) \<and>
    (\<forall>w. fm_answers (npid (dm_os s)) pipes b t w \<longrightarrow>
      (\<exists>s'. bnd (spawn_into self w FM None) (\<lambda>_. get_timers_into self w FM) s = (Inr D_SUCCESS, s') \<and>
        dm_backup_timer s' = b \<and> dm_transfer_timer s' = t \<and>
        joined self FM pipes (Suc (npipe (dm_os s))) (npipe (dm_os s)) s' \<and>
        (\<forall>w' jc j. wo_answer w' = (\<lambda>o1. snd (fm_parent_command (cp_pid (dm_fm s')) pipes jc j o1)) \<longrightarrow>
           fst (health_probe_child_process self w' FM True s') = Inr D_SUCCESS)))"
proof -
  have h: "hits (me self) (dm_os s) = 0" using assms(1,2) by (simp add: no_hits)
  obtain cr cw pr pw o1 r cp where fds: "new_fds (fdtab p) (npipe (dm_os s)) = (cr, cw, pr, pw)"
    and st: "start_child_process \<lparr>se_pipe1 = True, se_pipe2 = True, se_fork = True, se_exec = True\<rparr>
       (me self) (dm_fm s) None (d_socket self) (dm_os s) = (Inr r, o1)"
    and cp: "cp = (dm_fm s)\<lparr>cp_pipes := \<lparr>p_write = pw, p_read = cr\<rparr>, cp_pid := npid (dm_os s), is_alive := True\<rparr>"
    and j: "\<And>x. dm_os x = o1 \<Longrightarrow> dm_fm x = cp \<Longrightarrow>
       joined self FM \<lparr>p_write = cw, p_read = pr\<rparr> (Suc (npipe (dm_os s))) (npipe (dm_os s)) x"
    and run: "\<And>w. fm_answers (npid (dm_os s)) \<lparr>p_write = cw, p_read = pr\<rparr> b t w \<Longrightarrow>
       bnd (spawn_into self w FM None) (\<lambda>_. get_timers_into self w FM) s =
         (Inr D_SUCCESS, s\<lparr>dm_fm := cp, dm_os := o1, dm_backup_timer := b, dm_transfer_timer := t\<rparr>)"
    by (rule fm_start_run [OF assms(1) h assms(3,4,6,7)]) (rule that, assumption+)
  let ?pipes = "\<lparr>p_write = cw, p_read = pr\<rparr>"
  have args: "\<exists>fa. configure_reportman_fm_args off now (tl (child_vector (executable (dm_fm s)) pr cw []))
       fm_args_init = Inr fa \<and> fa_from_daemon fa \<and> fa_pipes fa = ?pipes"
    using fm_reads_vector [of pr cw off now "executable (dm_fm s)"] new_fds_fresh(2) [OF fds] assms(5) by auto
  have probe: "fst (health_probe_child_process self w' FM True x) = Inr D_SUCCESS"
    if "dm_os x = o1" "dm_fm x = cp" "wo_answer w' = (\<lambda>o1. snd (fm_parent_command (cp_pid cp) ?pipes jc k o1))"
    for x w' jc k
    using fm_handler.probe_round [OF j [OF that(1,2)], of w' jc k True] that by simp
  show ?thesis
    by (rule exI [of _ ?pipes]) (use args run j probe in auto)
qed

text \<open>The daemon before it starts its first child.\<close>

definition fresh_daemon :: daemon where
  "fresh_daemon = trio\<lparr>dm_os := lone_daemon, dm_fm := sample_child, dm_mon := sample_child\<rparr>"

definition fm_world :: "pid \<Rightarrow> ipc_pipes \<Rightarrow> u64 \<Rightarrow> u64 \<Rightarrow> world" where
  "fm_world c pipes b t = \<lparr>wo_answer = id, wo_exit = id, wo_start = (\<lambda>o1. snd (ipc_send_ack c pipes o1)),
     wo_timers = (\<lambda>o1. snd (bnd (ipc_get_ack c pipes 0) (\<lambda>_. report_to_daemon c pipes b t) o1)),
     wo_env = \<lparr>se_pipe1 = True, se_pipe2 = True, se_fork = True, se_exec = True\<rparr>, wo_junk = 0\<rparr>"

lemma fm_world_answers: "fm_answers c pipes b t (fm_world c pipes b t)"
  by (simp add: fm_answers_def fm_world_def)

theorem boot_to_first_probe_witness:
  "\<exists>pipes s'. bnd (spawn_into trio_self (fm_world 2 pipes 0 1) FM None)
      (\<lambda>_. get_timers_into trio_self (fm_world 2 pipes 0 1) FM) fresh_daemon = (Inr D_SUCCESS, s') \<and>
    dm_backup_timer s' = 0 \<and> dm_transfer_timer s' = 1"
proof -
  have "\<exists>pipes. \<forall>w. fm_answers 2 pipes 0 1 w \<longrightarrow>
    (\<exists>s'. bnd (spawn_into trio_self w FM None) (\<lambda>_. get_timers_into trio_self w FM) fresh_daemon = (Inr D_SUCCESS, s') \<and>
      dm_backup_timer s' = 0 \<and> dm_transfer_timer s' = 1)"
    using boot_to_first_probe [of fresh_daemon trio_self "\<lparr>fdtab = [(0, OtherFd 0), (3, OtherFd 3)], sigpipe = SigDfl,
       sigpipe_hits = 0, pending = None\<rparr>" 0 1 0 0]
    by (fastforce simp: fresh_daemon_def lone_daemon_def trio_self_def)
  then show ?thesis using fm_world_answers by blast
qed

section \<open>Options that go nowhere\<close>

text \<open>Two configurations that differ in the times and the log file at most.\<close>

definition same_but_times :: "halt + daemon_arguments \<Rightarrow> halt + daemon_arguments \<Rightarrow> bool" where
  "same_but_times a b \<longleftrightarrow> (case (a, b) of
     (Inl h, Inl h') \<Rightarrow> h = h'
   | (Inr x, Inr y) \<Rightarrow> make_daemon x = make_daemon y \<and> force x = force y \<and> da_close x = da_close y \<and>
       daemon_port x = daemon_port y
   | _ \<Rightarrow> False)"

lemma same_if: "(b \<Longrightarrow> same_but_times x x') \<Longrightarrow> (\<not> b \<Longrightarrow> same_but_times y y') \<Longrightarrow>
    same_but_times (if b then x else y) (if b then x' else y')"
  by simp

lemma same_option_arg:
  assumes "\<And>v rest. r = Inr (Some (v, rest)) \<Longrightarrow> same_but_times (f v rest) (f' v rest)"
    "same_but_times n n'"
  shows "same_but_times (case r of Inl h \<Rightarrow> Inl h | Inr None \<Rightarrow> n | Inr (Some (v, rest)) \<Rightarrow> f v rest)
    (case r of Inl h \<Rightarrow> Inl h | Inr None \<Rightarrow> n' | Inr (Some (v, rest)) \<Rightarrow> f' v rest)"
proof (cases r)
  case (Inr x)
  with assms show ?thesis by (cases x) auto
qed (simp add: same_but_times_def)

lemma same_path:
  assumes "\<And>l. same_but_times (f l) (f' l)"
  shows "same_but_times (case x of (n, Some l) \<Rightarrow> if n < 0 then Inl (Exit n) else f l | (n, None) \<Rightarrow> Inl (Exit n))
    (case x of (n, Some l) \<Rightarrow> if n < 0 then Inl (Exit n) else f' l | (n, None) \<Rightarrow> Inl (Exit n))"
  using assms by (cases x; cases "snd x") (auto simp: same_but_times_def)

lemma configure_same:
  "same_but_times (Inr args) (Inr args') \<Longrightarrow>
   same_but_times (configure_daemon_args env argv args) (configure_daemon_args env argv args')"
proof (induction argv arbitrary: args args' rule: length_induct)
  case (1 argv)
  show ?case
  proof (cases argv)
    case Nil
    with 1 show ?thesis by simp
  next
    case (Cons arg rest)
    have IH: "length l < length argv \<Longrightarrow> same_but_times (Inr a) (Inr a') \<Longrightarrow>
        same_but_times (configure_daemon_args env l a) (configure_daemon_args env l a')" for l a a'
      using 1 by blast
    have shrink: "arg_parse_ushort (arg # rest) n1 n2 = Inr (Some (v, l)) \<Longrightarrow> length l < length argv"
        "arg_parse_string (arg # rest) n1 n2 = Inr (Some (w, l)) \<Longrightarrow> length l < length argv"
      for n1 n2 v w l
      using Cons by (auto dest: value_args_shrink)
    have eqs: "make_daemon args = make_daemon args'" "force args = force args'" "da_close args = da_close args'"
        "daemon_port args = daemon_port args'"
      using 1 by (simp_all add: same_but_times_def)
    have rest: "length rest < length argv" using Cons by simp
    show ?thesis
      unfolding Cons configure_daemon_args.simps(2)
      by (intro same_if same_option_arg same_path IH; (rule rest shrink, assumption)?;
          (rule shrink, assumption)?; (rule rest)?; simp add: same_but_times_def eqs)
  qed
qed

text \<open>
  C24: the times and the log file on the daemon's command line go nowhere: whatever a command
  line means, the daemon does exactly the same with the options for the backup and transfer
  times in front of it; the children are started without them.
\<close>

theorem time_options_ignored:
  assumes "length b < COMMUNICATION_BUFFER_SIZE" "length t < COMMUNICATION_BUFFER_SIZE"
  shows "reportmand_main sv env self (''-bt'' # b # ''-tt'' # t # argv) rs = reportmand_main sv env self argv rs"
proof -
  let ?args = "exec_args\<lparr>backup_time_str := b, transfer_time_str := t\<rparr>"
  have c: "configure_daemon_args (mn_place env) (''-bt'' # b # ''-tt'' # t # argv) exec_args =
      configure_daemon_args (mn_place env) argv ?args"
    using assms by (simp add: R_PARSE_SUCCESS_def)
  have same: "same_but_times (configure_daemon_args (mn_place env) argv ?args) (configure_daemon_args (mn_place env) argv exec_args)"
    by (rule configure_same) (simp add: same_but_times_def)
  have acq: "acquire_singleton k e1 e2 x = acquire_singleton k e1 e2 y" if "da_close x = da_close y" "force x = force y"
    for k e1 e2 and x y :: daemon_arguments
    by (simp only: acquire_singleton_def that)
  show ?thesis
  proof (cases "configure_daemon_args (mn_place env) argv exec_args")
    case (Inl h)
    with same show ?thesis
      unfolding reportmand_main_def c by (simp add: same_but_times_def split: sum.splits)
  next
    case (Inr y)
    with same obtain x where x: "configure_daemon_args (mn_place env) argv ?args = Inr x"
      and eqs: "da_close x = da_close y" "force x = force y" "make_daemon x = make_daemon y"
      by (auto simp: same_but_times_def split: sum.splits)
    show ?thesis
      unfolding reportmand_main_def c x Inr sum.case acq [OF eqs(1,2)] eqs(3) ..
  qed
qed

theorem time_options_ignored_witness:
  "\<forall>env. reportmand_main sample_services env trio_self [''-bt'', ''09:00'', ''-tt'', ''10:00'', ''-nd''] [] =
    reportmand_main sample_services env trio_self [''-nd''] []"
  using time_options_ignored [of "''09:00''" "''10:00''" sample_services _ trio_self "[''-nd'']" "[]"]
  by (simp add: COMMUNICATION_BUFFER_SIZE_def)

end
