(* ===== verification/RM_Recovery.thy ===== *)
theory RM_Recovery
  imports RM_System
begin

text \<open>
  What happens when a part of the system ends: a child that the daemon restarts, a child that
  reports a panic, and the daemon itself. The lemmas follow descriptors over the start of a
  process and the termination signal over the processes of the group.
\<close>

section \<open>Descriptors over the start of a child\<close>

text \<open>
  Process \<open>i\<close> has descriptor \<open>f\<close> open on the read end of a pipe \<open>q\<close> with nothing in it and
  without a writer. No start of a child changes that: the new descriptors are others, and
  what the new process inherits is no write end of \<open>q\<close>.
\<close>

definition left_behind :: "pid \<Rightarrow> fd \<Rightarrow> nat \<Rightarrow> os \<Rightarrow> bool" where
  "left_behind i f q s \<longleftrightarrow> fd_obj s i f = Some (PipeR q) \<and> 0 \<le> f \<and> bufs s q = [] \<and>
     \<not> holds s (PipeW q) \<and> q < npipe s \<and> i < npid s"

lemma holds_iff: "holds s ob \<longleftrightarrow> (\<exists>j p f. (j, p) \<in> set (procs s) \<and> (f, ob) \<in> set (fdtab p))"
  by (auto simp: holds_def list_ex_iff)

lemma in_upd_proc:
  "(j, p) \<in> set (procs (upd_proc i g s)) \<longleftrightarrow> (\<exists>p0. (j, p0) \<in> set (procs s) \<and> p = (if j = i then g p0 else p0))"
  by (force simp: upd_proc_def image_iff)

lemma left_behind_pipe:
  "valid (left_behind i f q) (sys_pipe ok i)
     (\<lambda>r s. left_behind i f q s \<and> (\<forall>a b. r = Some (a, b) \<longrightarrow> a \<noteq> f \<and> b \<noteq> f)) (\<lambda>_ _. True)"
proof (rule validI)
  fix s r s' assume l: "left_behind i f q s" and r: "sys_pipe ok i s = (Inr r, s')"
  from l obtain p where p: "map_of (procs s) i = Some p" "map_of (fdtab p) f = Some (PipeR q)"
    by (auto simp: left_behind_def fd_obj_def fds_of_def split: option.splits)
  let ?a = "free_fd (fdtab p)"
  have ne: "free_fd (fdtab p) \<noteq> f" "free_fd ((?a, PipeR (npipe s)) # fdtab p) \<noteq> f"
    using free_fd(1) [of "fdtab p"] free_fd(1) [of "(?a, PipeR (npipe s)) # fdtab p"] p(2)
    by (force dest: map_of_SomeD)+
  have "holds s' (PipeW q) \<Longrightarrow> holds s (PipeW q)"
    using l r p map_of_SomeD [OF p(1)]
    by (auto simp: sys_pipe_def Let_def left_behind_def in_upd_proc holds_iff split: if_splits)
  with l r p ne show "left_behind i f q s' \<and> (\<forall>a b. r = Some (a, b) \<longrightarrow> a \<noteq> f \<and> b \<noteq> f)"
    by (auto simp: sys_pipe_def Let_def left_behind_def fd_obj_def fds_of_def split: if_splits)
qed simp

lemma left_behind_close:
  assumes "i \<noteq> j \<or> f \<noteq> g"
  shows "valid (left_behind i f q) (sys_close j g) (\<lambda>_. left_behind i f q) (\<lambda>_ _. True)"
proof (rule validI)
  fix s r s' assume l: "left_behind i f q s" and r: "sys_close j g s = (Inr r, s')"
  have "holds s' (PipeW q) \<Longrightarrow> holds s (PipeW q)"
    using r by (auto simp: sys_close_def modify_def in_upd_proc holds_iff split: if_splits; blast)
  with l r assms show "left_behind i f q s'"
    by (auto simp: left_behind_def sys_close_def modify_def fd_obj_closed)
qed simp

lemma left_behind_fork:
  "valid (left_behind i f q) (sys_fork ok i) (\<lambda>r s. left_behind i f q s \<and> (\<forall>c. r = Some c \<longrightarrow> i \<noteq> c)) (\<lambda>_ _. True)"
proof (rule validI)
  fix s r s' assume l: "left_behind i f q s" and r: "sys_fork ok i s = (Inr r, s')"
  from l obtain p where p: "map_of (procs s) i = Some p"
    by (auto simp: left_behind_def fd_obj_def fds_of_def split: option.splits)
  have "holds s' (PipeW q) \<Longrightarrow> holds s (PipeW q)"
    using r p map_of_SomeD [OF p] by (fastforce simp: sys_fork_def holds_iff split: if_splits)
  with l r p show "left_behind i f q s' \<and> (\<forall>c. r = Some c \<longrightarrow> i \<noteq> c)"
    by (auto simp: left_behind_def sys_fork_def fd_obj_def fds_of_def split: if_splits)
qed simp

lemma left_behind_child:
  assumes "i \<noteq> c"
  shows "valid (left_behind i f q) (modify (proc_ends c)) (\<lambda>_. left_behind i f q) (\<lambda>_ _. True)"
    "valid (left_behind i f q) (modify (exec_proc c)) (\<lambda>_. left_behind i f q) (\<lambda>_ _. True)"
proof -
  have "left_behind i f q (proc_ends c s)" if "left_behind i f q s" for s
    using that assms by (auto simp: left_behind_def proc_ends_def fd_obj_def fds_of_def map_of_closed holds_iff)
  then show "valid (left_behind i f q) (modify (proc_ends c)) (\<lambda>_. left_behind i f q) (\<lambda>_ _. True)"
    by (simp add: valid_modify)
  have "holds (exec_proc c s) ob \<Longrightarrow> holds s ob" for s ob
    by (auto simp: exec_proc_def in_upd_proc holds_iff split: if_splits; blast)
  then have "left_behind i f q (exec_proc c s)" if "left_behind i f q s" for s
    using that by (auto simp: left_behind_def fd_obj_exec) (auto simp: exec_proc_def)
  then show "valid (left_behind i f q) (modify (exec_proc c)) (\<lambda>_. left_behind i f q) (\<lambda>_ _. True)"
    by (simp add: valid_modify)
qed

lemma left_behind_branch:
  assumes "i \<noteq> c"
  shows "valid (left_behind i f q) (child_branch env c exe extra sock pp cp) (\<lambda>_. left_behind i f q) (\<lambda>_ _. True)"
  unfolding child_branch_def
  by (rule valid_bnd [OF left_behind_close], simp add: assms)+
    (auto intro!: valid_bnd [OF left_behind_child(1)] valid_bnd [OF left_behind_child(2)] valid_ret
      simp: assms split: sum.split)

lemma start_keeps_left_behind:
  "valid (left_behind i f q) (start_child_process env i cp extra sock) (\<lambda>_. left_behind i f q) (\<lambda>_ _. True)"
proof -
  let ?L = "left_behind i f q" and ?T = "\<lambda>(_ :: halt) (_ :: os). True"
  let ?P = "\<lambda>r s. ?L s \<and> (\<forall>a b c d. r = Some ((a, b), (c, d)) \<longrightarrow> a \<noteq> f \<and> d \<noteq> f)"
  have two: "valid (\<lambda>s. ?L s \<and> x \<noteq> f \<and> y \<noteq> f)
      (bnd (sys_pipe (se_pipe2 env) i) (\<lambda>d. case d of None \<Rightarrow> ret None | Some d \<Rightarrow> ret (Some (d, (x, y))))) ?P ?T" for x y
  proof (cases "x \<noteq> f \<and> y \<noteq> f")
    case True
    then show ?thesis
      by (intro valid_weaken [OF valid_bnd [OF left_behind_pipe]]) (auto intro!: valid_ret split: option.split)
  qed (auto simp: valid_def)
  have pipes: "valid ?L (initialize_pipes env i) ?P ?T"
    unfolding initialize_pipes_def
    by (rule valid_bnd [OF left_behind_pipe]) (auto intro!: valid_ret two split: option.split)
  have rest: "valid ?L (bnd (child_branch env c (executable cp) extra sock (a, b) (x, y)) (\<lambda>fate.
      bnd (sys_close i a) (\<lambda>_. bnd (sys_close i y) (\<lambda>_.
        ret (c, cp\<lparr>cp_pipes := \<lparr>p_write = b, p_read = x\<rparr>, cp_pid := c, is_alive := True\<rparr>, Some fate)))))
      (\<lambda>_. ?L) ?T" if "i \<noteq> c" "f \<noteq> a" "f \<noteq> y" for a b x y c
    by (rule valid_bnd [OF left_behind_branch [OF that(1)]])
      (rule valid_bnd [OF left_behind_close], simp add: that, rule valid_bnd [OF left_behind_close],
        simp add: that, simp add: valid_ret)
  show ?thesis
    unfolding start_child_process_def
  proof (rule valid_bnd [OF pipes])
    fix r
    show "valid (?P r) (case r of None \<Rightarrow> ret (D_FAILURE, cp, None) | Some (pp, cc) \<Rightarrow>
         bnd (sys_fork (se_fork env) i) (\<lambda>fork_pid. case fork_pid of None \<Rightarrow> stop (Exit EXIT_FAILURE)
         | Some c \<Rightarrow> bnd (child_branch env c (executable cp) extra sock pp cc) (\<lambda>fate.
             bnd (sys_close i (fst pp)) (\<lambda>_. bnd (sys_close i (snd cc)) (\<lambda>_.
               ret (c, cp\<lparr>cp_pipes := \<lparr>p_write = snd pp, p_read = fst cc\<rparr>, cp_pid := c, is_alive := True\<rparr>,
                 Some fate)))))) (\<lambda>_. ?L) ?T"
    proof (cases r)
      case (Some x)
      obtain a b y z where x: "x = ((a, b), (y, z))" by (metis prod.exhaust)
      show ?thesis
      proof (cases "f \<noteq> a \<and> f \<noteq> z")
        case True
        have fork: "valid (\<lambda>s. ?L s \<and> (\<forall>c. p = Some c \<longrightarrow> i \<noteq> c)) (case p of None \<Rightarrow> stop (Exit EXIT_FAILURE)
         | Some c \<Rightarrow> bnd (child_branch env c (executable cp) extra sock (a, b) (y, z)) (\<lambda>fate.
             bnd (sys_close i a) (\<lambda>_. bnd (sys_close i z) (\<lambda>_.
               ret (c, cp\<lparr>cp_pipes := \<lparr>p_write = b, p_read = y\<rparr>, cp_pid := c, is_alive := True\<rparr>,
                 Some fate))))) (\<lambda>_. ?L) ?T" for p
          by (cases p; rule validI) (auto simp: stop_def dest: valid_returns [OF rest [of _ a z]] simp: True)
        have "valid ?L (bnd (sys_fork (se_fork env) i) (\<lambda>p. case p of None \<Rightarrow> stop (Exit EXIT_FAILURE)
         | Some c \<Rightarrow> bnd (child_branch env c (executable cp) extra sock (a, b) (y, z)) (\<lambda>fate.
             bnd (sys_close i a) (\<lambda>_. bnd (sys_close i z) (\<lambda>_.
               ret (c, cp\<lparr>cp_pipes := \<lparr>p_write = b, p_read = y\<rparr>, cp_pid := c, is_alive := True\<rparr>,
                 Some fate)))))) (\<lambda>_. ?L) ?T"
          by (rule valid_bnd [OF left_behind_fork fork])
        then show ?thesis unfolding Some x by (auto intro: valid_weaken)
      qed (auto simp: valid_def Some x)
    qed (simp add: valid_ret)
  qed
qed

section \<open>A restarted child\<close>

lemma dead_child_restart:
  assumes "\<not> exists_proc (cp_pid (child_of which s)) (dm_os s)" "hits (me self) (dm_os s) = 0"
    "retries (child_of which s) \<le> max_retries (child_of which s)"
  shows "health_probe_child_process self w which has_post s =
    bnd (spawn_into self w which None) (\<lambda>_. bnd (post_launch self w which has_post) (\<lambda>_.
      bnd (modify (\<lambda>s. s\<lparr>dm_current := None\<rparr>)) (\<lambda>_. ret D_SUCCESS)))
    (set_child which ((child_of which s)\<lparr>is_alive := False, retries := retries (child_of which s) + 1\<rparr>)
      (s\<lparr>dm_current := Some which\<rparr>))"
proof -
  let ?s1 = "s\<lparr>dm_current := Some which\<rparr>"
  have k: "on_os self (sys_kill0 (cp_pid (child_of which s))) ?s1 = (Inr (-1), ?s1)"
    using on_os_run [of "sys_kill0 (cp_pid (child_of which s))" ?s1 "-1" "dm_os s" self] assms(1,2)
    by (simp add: sys_kill0_def prog_simps)
  have two: "set_child which x (set_child which y t) = set_child which x t" for x y t
    by (cases which) simp_all
  show ?thesis
    using k leD [OF assms(3)] by (simp add: health_probe_child_process_def restart_child_def prog_simps bnd_def two)
qed

text \<open>A round in which \<open>poll\<close> has nothing to read from any descriptor but the file manager's.\<close>

definition idle_round :: "self \<Rightarrow> listen_fds \<Rightarrow> os \<Rightarrow> (fd \<Rightarrow> bool) \<Rightarrow> round \<Rightarrow> bool" where
  "idle_round self L o1 ext r \<longleftrightarrow> rd_before r = id \<and> rd_poll r = PollReady ext \<and>
     (\<forall>f \<in> {lf_signal L, d_socket self, lf_mon L, lf_timer L}. \<not> pollin ext o1 (me self) f)"

lemma stale_descriptor_spins:
  assumes "left_behind (me self) (lf_fm L) q (dm_os s)" "idle_round self L (dm_os s) ext r" "\<not> dm_close_request s"
  shows "\<not> poll_blocks ext (dm_os s) (me self) (polled self L)"
    "listen_loop sv self L (replicate n r @ rs) s = listen_loop sv self L rs s"
proof -
  have "poll_reports ext (dm_os s) (me self) (lf_fm L)" "\<not> pollin ext (dm_os s) (me self) (lf_fm L)"
    using assms(1) by (simp_all add: left_behind_def poll_reports_def pollin_def)
  moreover from this show b: "\<not> poll_blocks ext (dm_os s) (me self) (polled self L)"
    by (simp add: poll_blocks_def polled_def)
  ultimately have "daemon_round sv self L r s = (Inr Continue, s)"
    using assms(2) b by (simp add: daemon_round_def idle_round_def prog_defs Let_def then_part_def signal_part_def
      client_part_def children_part_def probe_part_def)
  then show "listen_loop sv self L (replicate n r @ rs) s = listen_loop sv self L rs s"
    by (rule listen_service.idles [OF assms(3)]) simp
qed

section \<open>Property: the restarted file manager\<close>

text \<open>
  C12: a file manager that has ended is started again by the next probe: daemon and new child are
  joined by new pipes, and the timers are the new ones. But the daemon goes on polling the
  read end of the old pipe, which is still open, has no writer any more and so is reported
  at once every time: from then on the daemon's loop never waits, while it
  has no effect, for as long as nothing else is ready; and the descriptor of the new child is
  not among those polled.
\<close>

theorem restart_leaves_stale_descriptor:
  assumes "map_of (procs (dm_os s)) (me self) = Some p" "sigpipe_hits p = 0"
    "map_of (procs (dm_os s)) (npid (dm_os s)) = None"
    "d_socket self \<in> fst ` set (fdtab p) \<or> d_socket self < 0" "b \<le> 0x0FFFFFFF" "t \<le> 0x0FFFFFFF"
    "\<not> exists_proc (cp_pid (dm_fm s)) (dm_os s)" "retries (dm_fm s) \<le> max_retries (dm_fm s)"
    "left_behind (me self) (lf_fm L) q (dm_os s)" "\<not> dm_close_request s"
    "\<forall>f \<in> {lf_signal L, d_socket self, lf_mon L, lf_timer L}. f \<in> fst ` set (fdtab p)"
  shows "\<exists>pipes. \<forall>w. fm_answers (npid (dm_os s)) pipes b t w \<longrightarrow>
    (\<exists>s'. health_probe_child_process self w FM True s = (Inr D_SUCCESS, s') \<and>
      joined self FM pipes (Suc (npipe (dm_os s))) (npipe (dm_os s)) s' \<and>
      dm_backup_timer s' = b \<and> dm_transfer_timer s' = t \<and>
      p_read (cp_pipes (dm_fm s')) \<notin> set (polled self L) \<and>
      (\<forall>ext r n sv :: ('c, 'x) services. \<forall>rs. idle_round self L (dm_os s') ext r \<longrightarrow>
        \<not> poll_blocks ext (dm_os s') (me self) (polled self L) \<and>
        listen_loop sv self L (replicate n r @ rs) s' = listen_loop sv self L rs s'))"
proof -
  have h: "hits (me self) (dm_os s) = 0" using assms(1,2) by (simp add: no_hits)
  define s1 where "s1 = s\<lparr>dm_current := Some FM,
     dm_fm := (dm_fm s)\<lparr>is_alive := False, retries := retries (dm_fm s) + 1\<rparr>\<rparr>"
  have s1: "dm_os s1 = dm_os s" "\<not> dm_close_request s1" using assms(10) by (simp_all add: s1_def)
  have a: "map_of (procs (dm_os s1)) (me self) = Some p" "hits (me self) (dm_os s1) = 0"
      "map_of (procs (dm_os s1)) (npid (dm_os s1)) = None"
    using assms(1,3) h by (simp_all add: s1)
  obtain cr cw pr pw o1 r cp where fds: "new_fds (fdtab p) (npipe (dm_os s1)) = (cr, cw, pr, pw)"
    and st: "start_child_process \<lparr>se_pipe1 = True, se_pipe2 = True, se_fork = True, se_exec = True\<rparr>
       (me self) (dm_fm s1) None (d_socket self) (dm_os s1) = (Inr r, o1)"
    and cp: "cp = (dm_fm s1)\<lparr>cp_pipes := \<lparr>p_write = pw, p_read = cr\<rparr>, cp_pid := npid (dm_os s1), is_alive := True\<rparr>"
    and j: "\<And>x. dm_os x = o1 \<Longrightarrow> dm_fm x = cp \<Longrightarrow>
       joined self FM \<lparr>p_write = cw, p_read = pr\<rparr> (Suc (npipe (dm_os s1))) (npipe (dm_os s1)) x"
    and run: "\<And>w. fm_answers (npid (dm_os s1)) \<lparr>p_write = cw, p_read = pr\<rparr> b t w \<Longrightarrow>
       bnd (spawn_into self w FM None) (\<lambda>_. get_timers_into self w FM) s1 =
         (Inr D_SUCCESS, s1\<lparr>dm_fm := cp, dm_os := o1, dm_backup_timer := b, dm_transfer_timer := t\<rparr>)"
    by (rule fm_start_run [OF a assms(4-6)]) (rule that, assumption+)
  let ?pipes = "\<lparr>p_write = cw, p_read = pr\<rparr>"
  define s' where "s' = s1\<lparr>dm_fm := cp, dm_os := o1, dm_backup_timer := b, dm_transfer_timer := t, dm_current := None\<rparr>"
  have s': "dm_os s' = o1" "dm_fm s' = cp" "dm_backup_timer s' = b" "dm_transfer_timer s' = t" "\<not> dm_close_request s'"
    using s1 by (simp_all add: s'_def)
  have old: "left_behind (me self) (lf_fm L) q (dm_os s')"
    using valid_returns [OF start_keeps_left_behind _ st] assms(9) by (simp add: s' s1)
  have "lf_fm L \<in> fst ` set (fdtab p)"
    using assms(1,9) by (force simp: left_behind_def fd_obj_def fds_of_def dest: map_of_SomeD)
  then have new: "p_read (cp_pipes (dm_fm s')) \<notin> set (polled self L)"
    using new_fds_fresh(2) [OF fds] assms(11) by (auto simp: polled_def cp s')
  have probe: "health_probe_child_process self w FM True s = (Inr D_SUCCESS, s')"
    if "fm_answers (npid (dm_os s)) ?pipes b t w" for w
  proof -
    have "bnd (bnd (spawn_into self w FM None) (\<lambda>_. get_timers_into self w FM))
        (\<lambda>_. bnd (modify (\<lambda>s. s\<lparr>dm_current := None\<rparr>)) (\<lambda>_. ret D_SUCCESS)) s1 = (Inr D_SUCCESS, s')"
      using run [of w] that by (simp add: s1 s'_def bnd_ok prog_simps)
    then show ?thesis
      using dead_child_restart [of FM s self w True] assms(7,8) h
      by (simp add: post_launch_def bnd_assoc bnd_ret_left s1_def [symmetric])
  qed
  show ?thesis
    by (rule exI [of _ ?pipes])
      (use probe new j [of s'] stale_descriptor_spins [OF old] in \<open>auto simp: s1 s'\<close>)
qed

text \<open>The running system, whose file manager has ended.\<close>

definition dead_fm :: daemon where
  "dead_fm = trio\<lparr>dm_os := proc_ends 2 trio_os\<rparr>"

lemma dead_fm_facts:
  "map_of (procs (dm_os dead_fm)) (me trio_self) = map_of (procs trio_os) 1"
  "map_of (procs (dm_os dead_fm)) (npid (dm_os dead_fm)) = None" "npid (dm_os dead_fm) = 4"
  "\<not> exists_proc (cp_pid (dm_fm dead_fm)) (dm_os dead_fm)"
  "retries (dm_fm dead_fm) \<le> max_retries (dm_fm dead_fm)" "\<not> dm_close_request dead_fm"
  "left_behind (me trio_self) (lf_fm trio_fds) 0 (dm_os dead_fm)"
  by (simp_all add: dead_fm_def trio_def trio_os_def proc_ends_def trio_self_def trio_fds_def exists_proc_def
      left_behind_def fd_obj_def fds_of_def holds_def signalfd_obj_def)

theorem restart_leaves_stale_descriptor_witness:
  "\<exists>pipes s'. health_probe_child_process trio_self (fm_world 4 pipes 0 1) FM True dead_fm = (Inr D_SUCCESS, s') \<and>
    dm_transfer_timer s' = 1 \<and> p_read (cp_pipes (dm_fm s')) \<notin> {3, 4, 5, 6, 8}"
proof -
  obtain p where p: "map_of (procs trio_os) 1 = Some p" "sigpipe_hits p = 0"
      "\<forall>f \<in> {3, 4, 5, 6, 8}. f \<in> fst ` set (fdtab p)"
    by (simp add: trio_os_def)
  have "\<exists>pipes. \<forall>w. fm_answers 4 pipes 0 1 w \<longrightarrow>
    (\<exists>s'. health_probe_child_process trio_self w FM True dead_fm = (Inr D_SUCCESS, s') \<and>
      dm_transfer_timer s' = 1 \<and> p_read (cp_pipes (dm_fm s')) \<notin> set (polled trio_self trio_fds))"
    using restart_leaves_stale_descriptor [OF dead_fm_facts(1) [unfolded p(1)] p(2) dead_fm_facts(2) _ _ _ dead_fm_facts(4,5,7,6),
        of 0 1, where ?'c = "byte list" and ?'x = unit] p(3)
    by (fastforce simp: dead_fm_facts(3) trio_self_def trio_fds_def)
  moreover have "set (polled trio_self trio_fds) = {3, 4, 5, 6, 8}"
    by (auto simp: polled_def trio_self_def trio_fds_def)
  ultimately show ?thesis using fm_world_answers [of 4 _ 0 1] by blast
qed

section \<open>Property: the children of a daemon that has ended\<close>

text \<open>
  C23: neither child notices that the daemon has ended. The monitor, whose pipe has no writer
  any more, goes round its loop without waiting, leaving or doing anything, in every sequence
  of wake-ups that bring it no event and no signal, whatever else happens meanwhile. The file
  manager sees no end of its pipe, since the monitor has inherited the write end: it waits,
  until one of its own timers interrupts \<open>poll\<close>, and then exits with status 1 once the
  timer's handler has returned.
\<close>

theorem daemon_death_unnoticed:
  assumes "fs_polled F = [fs_signal F, p_read (fs_pipes F)]" "fw_before w (fp_os s) = o1"
    "fd_obj o1 (fs_pid F) (fs_signal F) = Some signalfd_obj" "\<not> pollin ext o1 (fs_pid F) (fs_signal F)"
    "fd_obj o1 (fs_pid F) (p_read (fs_pipes F)) = Some (PipeR p)" "bufs o1 p = []"
    "fd_obj o1 (ms_pid M) inherited = Some (PipeW p)"
    "ms_poll_count M = 3" "0 \<le> p_read (ms_pipes M)"
    "fd_obj (mp_os m) (ms_pid M) (p_read (ms_pipes M)) = Some (PipeR q)" "bufs (mp_os m) q = []"
    "\<not> holds (mp_os m) (PipeW q)" "\<not> pollin (\<lambda>_. True) (mp_os m) (ms_pid M) (ms_signal M)"
    "fd_obj (mp_os m) (ms_pid M) (ms_inotify M) = Some inotify_obj" "list_all (idle_wake M) ws1"
  shows "(fw_poll w = PollReady ext \<longrightarrow> fm_loop H fuel F (w # ws) s = (Inl Blocked, s\<lparr>fp_os := o1\<rparr>)) \<and>
    (\<forall>signo. fw_poll w = PollInterrupted signo \<and> fst (deliver H fuel signo (fp_dt s)) = Inr () \<longrightarrow>
       fst (fm_loop H fuel F (w # ws) s) = Inl (Exit 1)) \<and>
    \<not> poll_blocks ext' (fold mw_before ws1 (mp_os m)) (ms_pid M) (ms_polled M) \<and>
    mon_loop M (ws1 @ ws') m = mon_loop M ws' (m\<lparr>mp_os := fold mw_before ws1 (mp_os m)\<rparr>)"
proof -
  have o: "orphaned M (mp_os m)" using assms(9-14) by (auto simp: orphaned_def)
  note spin = orphaned_monitor_spins [OF assms(8) o assms(15)]
  have "fw_poll w = PollReady ext \<Longrightarrow> fm_loop H fuel F (w # ws) s = (Inl Blocked, s\<lparr>fp_os := o1\<rparr>)"
    by (rule held_file_manager_waits [OF assms(1,2,3,5,6) holds_fd_obj [OF assms(7)] assms(4)])
  then show ?thesis
    using spin orphaned_polls(1) [OF conjunct2 [OF spin] assms(8)] interrupted_file_manager_exits by blast
qed

theorem daemon_death_unnoticed_witness:
  "fm_loop sample_sha 1 sample_setting [sample_wake (PollReady (\<lambda>_. False))] (srv_fm (proc_ends 1 trio_os)) =
      (Inl Blocked, srv_fm (proc_ends 1 trio_os)) \<and>
   mon_loop sample_mon_setting (replicate 1000 (sample_mon_wake []\<lparr>mw_poll := PollReady (\<lambda>_. False)\<rparr>))
      (sample_mon\<lparr>mp_os := proc_ends 1 trio_os\<rparr>) = (Inl Blocked, sample_mon\<lparr>mp_os := proc_ends 1 trio_os\<rparr>)"
proof -
  let ?o = "proc_ends 1 trio_os"
  let ?w = "sample_mon_wake []\<lparr>mw_poll := PollReady (\<lambda>_. False)\<rparr>"
  have o: "fp_os (srv_fm ?o) = ?o" "mp_os (sample_mon\<lparr>mp_os := ?o\<rparr>) = ?o" by (simp_all add: srv_fm_def)
  have f: "fd_obj ?o 2 3 = Some signalfd_obj" "\<not> pollin (\<lambda>_. False) ?o 2 3" "fd_obj ?o 2 6 = Some (PipeR 1)"
      "bufs ?o 1 = []" "\<not> pollin (\<lambda>_. True) ?o 3 3" "fd_obj ?o 3 5 = Some inotify_obj" "fd_obj ?o 3 8 = Some (PipeR 3)"
      "bufs ?o 3 = []" "fd_obj ?o 3 7 = Some (PipeW 1)" "\<not> holds ?o (PipeW 3)"
    by (simp_all add: trio_os_def proc_ends_def fd_obj_def fds_of_def holds_def pollin_def signalfd_obj_def inotify_obj_def)
  have idle: "list_all (idle_wake sample_mon_setting) (replicate 1000 ?w)"
    by (simp add: list_all_iff idle_wake_def sample_mon_wake_def)
  have "fold mw_before (replicate n ?w) o1 = o1" for n o1
    by (induction n) (simp_all add: sample_mon_wake_def)
  then show ?thesis
    using daemon_death_unnoticed [of sample_setting "sample_wake (PollReady (\<lambda>_. False))" "srv_fm ?o" ?o "\<lambda>_. False" 1
      sample_mon_setting 7 "sample_mon\<lparr>mp_os := ?o\<rparr>" 3 "replicate 1000 ?w" sample_sha 1 "[]" "\<lambda>_. False" "[]"] idle
    unfolding o by (simp add: f sample_setting_def sample_wake_def sample_mon_setting_def stop_run srv_fm_def
      del: One_nat_def fm_loop.simps(2) mon_loop.simps(2))
qed

section \<open>The termination signal\<close>
























section \<open>Property: a panic\<close>










end
