(* ===== verification/RM_TestData.thy ===== *)
theory RM_TestData
  imports RM_Protocol
begin

text \<open>
  The test message of \<open>src/libs/reportman.c\<close>: \<open>ipc_send_test_data\<close> and \<open>ipc_get_test_data\<close>, with
  the struct \<open>test_data_t\<close> as it lies in memory. Nothing in the program calls them.
\<close>

section \<open>The struct in memory\<close>

definition bytes_of_u32 :: "u32 \<Rightarrow> byte list" where
  "bytes_of_u32 w = map (\<lambda>i. ucast (drop_bit (8 * i) w)) [0..<4]"

lemma length_bytes_of_u32 [simp]: "length (bytes_of_u32 w) = 4"
  by (simp add: bytes_of_u32_def)

lemma u32_of_bytes_of_u32 [simp]: "(ucast (word_of_bytes (bytes_of_u32 w)) :: u32) = w"
proof (rule bit_word_eqI)
  fix n assume n: "n < LENGTH(32)"
  then have "n div 8 < 4" "8 * (n div 8) + n mod 8 = n" "n mod 8 < 8" by auto
  then show "bit (ucast (word_of_bytes (bytes_of_u32 w)) :: u32) n \<longleftrightarrow> bit w n"
    using n by (simp add: bit_ucast_iff bit_word_of_bytes bytes_of_u32_def bit_drop_bit_eq)
qed

text \<open>
  \<open>test_string\<close> is the whole array; the three bytes behind \<open>test_bool\<close> fill the struct up to a
  multiple of four.
\<close>

record test_data =
  test_num :: u32
  test_string :: "byte list"
  test_bool :: byte
  test_padding :: "byte list"

definition TEST_STRING_SIZE :: nat where "TEST_STRING_SIZE = 1024"
definition SIZEOF_TEST_DATA :: nat where "SIZEOF_TEST_DATA = 1032"

definition well_sized :: "test_data \<Rightarrow> bool" where
  "well_sized data \<longleftrightarrow> length (test_string data) = TEST_STRING_SIZE \<and> length (test_padding data) = 3"

definition memory_of :: "test_data \<Rightarrow> byte list" where
  "memory_of data = bytes_of_u32 (test_num data) @ test_string data @ test_bool data # test_padding data"

definition of_memory :: "byte list \<Rightarrow> test_data" where
  "of_memory m = \<lparr>test_num = ucast (word_of_bytes (take 4 m)), test_string = take TEST_STRING_SIZE (drop 4 m),
     test_bool = m ! (4 + TEST_STRING_SIZE), test_padding = drop (5 + TEST_STRING_SIZE) m\<rparr>"

text \<open>What \<open>read\<close> gave is stored at the front of the array or struct it was given.\<close>

definition overlay :: "byte list \<Rightarrow> byte list \<Rightarrow> byte list" where
  "overlay bs m = bs @ drop (length bs) m"

lemma memory_length: "well_sized data \<Longrightarrow> length (memory_of data) = SIZEOF_TEST_DATA"
  by (simp add: well_sized_def memory_of_def TEST_STRING_SIZE_def SIZEOF_TEST_DATA_def)

lemma of_memory_of: "well_sized data \<Longrightarrow> of_memory (memory_of data) = data"
  by (cases data) (simp add: of_memory_def memory_of_def well_sized_def nth_append)

section \<open>The two functions\<close>

text \<open>\<open>strlen\<close> of an array without a null byte reads on behind it.\<close>

definition ipc_send_test_data :: "pid \<Rightarrow> ipc_pipes \<Rightarrow> test_data \<Rightarrow> (os, bool) prog" where
  "ipc_send_test_data i pipes data =
     bnd (sys_write i (p_write pipes) (memory_of data)) (\<lambda>n.
       if n = -1 then ret False
       else if 0 \<notin> set (test_string data) then stop Undefined
       else
         bnd (sys_write i (p_write pipes) (takeWhile (\<lambda>c. c \<noteq> 0) (test_string data))) (\<lambda>n.
         if n = -1 then ret False else ret True))"

text \<open>A read that fills the whole array has its terminator stored behind it.\<close>

definition ipc_get_test_data :: "pid \<Rightarrow> ipc_pipes \<Rightarrow> test_data \<Rightarrow> (os, int \<times> test_data) prog" where
  "ipc_get_test_data i pipes data =
     bnd (sys_read i (p_read pipes) SIZEOF_TEST_DATA) (\<lambda>(n, bs).
       if n < 0 then ret (0, data)
       else
         (let data = of_memory (overlay bs (memory_of data)) in
          bnd (sys_read i (p_read pipes) TEST_STRING_SIZE) (\<lambda>(read_str, bs).
            if read_str < 0 then ret (0, data)
            else
              (let string = overlay bs (test_string data) in
               if nat read_str \<ge> length string then stop Undefined
               else ret (1, data\<lparr>test_string := string[nat read_str := 0]\<rparr>)))))"

section \<open>Round trip\<close>

lemma overlay_whole [simp]: "length bs = length m \<Longrightarrow> overlay bs m = bs"
  by (simp add: overlay_def)

lemma overlay_takeWhile: "overlay (takeWhile P xs) xs = xs"
  by (simp add: overlay_def dropWhile_eq_drop [symmetric])

lemma update_first_zero:
  "0 \<in> set (xs :: byte list) \<Longrightarrow> xs[length (takeWhile (\<lambda>c. c \<noteq> 0) xs) := 0] = xs"
  by (induction xs) auto

lemma takeWhile_shorter: "0 \<in> set (xs :: byte list) \<Longrightarrow> length (takeWhile (\<lambda>c. c \<noteq> 0) xs) < length xs"
  by (induction xs) auto

text \<open>
  The test message arrives as it was sent, whatever the receiver's struct held before, when
  its text is not empty; of an empty text no byte is written and the receiver waits.
\<close>

lemma test_data_roundtrip:
  assumes "link s a (p_write pa) b (p_read pb) p" "bufs s p = []" "well_sized data" "well_sized old"
    "0 \<in> set (test_string data)"
  shows "\<exists>s'. ipc_send_test_data a pa data s = (Inr True, s') \<and>
    (if hd (test_string data) = 0 then ipc_get_test_data b pb old s' = (Inl Blocked, s)
     else ipc_get_test_data b pb old s' = (Inr (1, data), s))"
proof -
  let ?m = "memory_of data" and ?t = "takeWhile (\<lambda>c. c \<noteq> 0) (test_string data)"
  let ?s = "\<lambda>bs. s\<lparr>bufs := (bufs s)(p := bs)\<rparr>"
  have l: "length ?m = SIZEOF_TEST_DATA" "?m \<noteq> []" "length ?t < TEST_STRING_SIZE"
    using memory_length [OF assms(3)] takeWhile_shorter [OF assms(5)] assms(3)
    by (auto simp: memory_of_def well_sized_def)
  have w1: "sys_write a (p_write pa) ?m s = (Inr (int (length ?m)), ?s ?m)"
    using sys_write_link [OF assms(1), of ?m] assms(2) l by (simp add: pipe_capacity_def SIZEOF_TEST_DATA_def)
  have w2: "sys_write a (p_write pa) ?t (?s ?m) = (Inr (int (length ?t)), ?s (?m @ ?t))"
    using sys_write_link [of "?s ?m" a "p_write pa" b "p_read pb" p ?t] assms(1) l
    by (simp add: pipe_capacity_def SIZEOF_TEST_DATA_def TEST_STRING_SIZE_def)
  have send: "ipc_send_test_data a pa data s = (Inr True, ?s (?m @ ?t))"
    unfolding ipc_send_test_data_def using w1 w2 assms(5) by (simp add: prog_simps)
  have r1: "sys_read b (p_read pb) SIZEOF_TEST_DATA (?s (?m @ ?t)) = (Inr (int SIZEOF_TEST_DATA, ?m), ?s ?t)"
    using sys_read_link [of "?s (?m @ ?t)" a "p_write pa" b "p_read pb" p ?m ?t SIZEOF_TEST_DATA] assms(1) l by simp
  have ov: "of_memory (overlay ?m (memory_of old)) = data"
    using memory_length [OF assms(4)] l of_memory_of [OF assms(3)] by simp
  show ?thesis
  proof (cases "hd (test_string data) = 0")
    case True
    then have t: "?t = []" using assms(5) by (cases "test_string data") auto
    have "sys_read b (p_read pb) TEST_STRING_SIZE (?s []) = (Inl Blocked, ?s [])"
      by (rule sys_read_link_empty [of _ a "p_write pa" b "p_read pb" p]) (use assms(1) in simp_all)
    then have "ipc_get_test_data b pb old (?s (?m @ ?t)) = (Inl Blocked, ?s [])"
      unfolding ipc_get_test_data_def using r1 t by (simp add: bnd_def Let_def)
    with send True assms(2) show ?thesis by (simp add: fun_upd_idem)
  next
    case False
    then have t: "?t \<noteq> []" using assms(5) by (cases "test_string data") auto
    have "sys_read b (p_read pb) TEST_STRING_SIZE (?s ?t) = (Inr (int (length ?t), ?t), ?s [])"
      using linkD [OF assms(1)] l t by (simp add: sys_read_def Let_def)
    then have "ipc_get_test_data b pb old (?s (?m @ ?t)) = (Inr (1, data), ?s [])"
      unfolding ipc_get_test_data_def using r1 ov l assms(3) update_first_zero [OF assms(5)]
      by (simp add: bnd_def Let_def overlay_takeWhile well_sized_def ret_run)
    with send False assms(2) show ?thesis by (simp add: fun_upd_idem)
  qed
qed

end
