(* ===== verification/Spec2Isabelle.thy ===== *)
theory Spec2Isabelle
  imports RM_TransferThms RM_Timers RM_Startup RM_Recovery RM_TestData
begin

text \<open>
  Verification development for reportman, a daemon that moves the reports of a company from
  an upload directory to a dashboard and makes backups of them. All paths below are under
  \<open>src/src/\<close>.

  The program. \<open>reportmand\<close> (\<open>reportmand.c\<close>) makes sure it is the only one, turns itself into a
  daemon, starts two children and then serves commands from clients. \<open>reportman_fm\<close>
  (\<open>reportman_fm.c\<close>), the file manager, arms a backup and a transfer timer; \<open>reportman_mon\<close>
  (\<open>reportman_mon.c\<close>) logs what happens in the directories. \<open>reportmanc\<close> (\<open>reportmanc.c\<close>) is
  the client. They share \<open>libs/reportman.c\<close> (messages over pipes, argument parsing, times,
  starting children), \<open>libs/directory_tool.c\<close> (copying, permissions, timers),
  \<open>libs/monitor_tool.c\<close> (events and the log file) and \<open>libs/daemonize.c\<close>. Daemon and children
  talk over two pipes each: at the start the daemon acknowledges the child, the child answers
  and the file manager reports its two timers; afterwards the daemon sends a health probe
  every five seconds and expects an acknowledgement, or restarts the child.

  Programs. A C function is a \<open>prog\<close>: a function of the state that returns the new state and
  either a value or a way the process stops: an exit status, undefined behaviour of C, death
  by a signal, or \<open>Blocked\<close>, waiting for something that does not come. \<open>bnd\<close> composes them;
  \<open>valid\<close>, \<open>preserves\<close> and \<open>keeps\<close> are its Hoare triples, with one rule per construct in a
  collection. What is outside a process appears as an argument: the result of a call that can
  fail, what the other processes do while this one waits (a function on the system state,
  \<open>world\<close> for one exchange with a child), and, for a service loop, the list of its wake-ups:
  the loop is recursive over that list and is \<open>Blocked\<close> at its end, so a statement about all
  lists is a statement about all finite runs.

  The theories, in the order of their dependencies.

  \<^item> \<open>RM_Prelude\<close>: programs and their rules, lemmas on lists, maps and words, and the locale
    \<open>service_loop\<close>, of which the three service loops are interpretations.
  \<^item> \<open>RM_OS\<close>: processes with descriptor tables, pipes with their bytes, and the outcomes of
    \<open>read\<close>, \<open>write\<close>, \<open>select\<close>, \<open>fork\<close>, \<open>kill\<close> and \<open>waitpid\<close>. A process that ends becomes a
    zombie unless its parent ignores \<open>SIGCHLD\<close>.
  \<^item> \<open>RM_IPC\<close>: the \<open>ipc_\<close> functions of \<open>reportman.c\<close>, words of 64 bits as eight bytes.
    \<open>RM_Channel\<close>: the locale of a channel of messages, interpreted on the pipes. \<open>RM_Protocol\<close>:
    both sides of the start-up handshake; round trips, end of file and bounds, and the order of
    commands by an interpretation of the channel on \<open>ipc_send_command\<close> and \<open>ipc_get_command\<close>.
  \<^item> \<open>RM_TestData\<close>: the test message, a struct as it lies in memory, which nothing sends.
  \<^item> \<open>RM_Startup\<close>: the start-up of daemon and file manager as a relation of interleaved steps,
    in which the daemon's waits may run out at any time, its invariant, the agreement of both
    sides on the timers, and termination under every schedule by a measure.
  \<^item> \<open>RM_Scan\<close>, \<open>RM_Time\<close>, \<open>RM_Args\<close>, \<open>RM_Config\<close>: the C library functions that parse text,
    \<open>get_hh_mm_str\<close>, the argument parsers behind one locale, the four command lines. The log
    file's path is followed component by component, dots and double dots included, and measured
    against a relation (\<open>leads\<close>).
  \<^item> \<open>RM_FS\<close>, \<open>RM_Directory\<close>, \<open>RM_Transfer\<close>, \<open>RM_TransferThms\<close>, \<open>RM_Timers\<close>: a tree of files
    with permissions, a disk on which reading a file may fail from some position on and writing
    one beyond some length, and open streams; \<open>directory_tool.c\<close> over it, and its theorems:
    what is and is not lost, that nothing else is touched, the result and the number of errors
    as an independent description of the two trees says. \<open>legible\<close> is what of a content can be
    read, \<open>copied\<close> what of it arrives; both are the content itself where nothing fails. The recursion into directories has fuel;
    the depth of the source tree is proved enough (\<open>transfer_terminates\<close>), and \<open>transfer_directory\<close>
    without enough of it is \<open>None\<close>, never a result.
  \<^item> \<open>RM_Spawn\<close>: the pipes, \<open>fork\<close>, the argument vector and the child's own parsing of it.
  \<^item> \<open>RM_Signals\<close>: signals read from a descriptor and \<open>poll\<close>. \<open>RM_Health\<close>: the state of the
    daemon (record \<open>daemon\<close>: the static variables of \<open>reportmand.c\<close>, the system and the
    directories), health probes, restarts and shutdown.
  \<^item> \<open>RM_Parent\<close>: what a child does with a command of its parent; the locale
    \<open>parent_handler\<close> states what the daemon relies on, both children are interpretations.
  \<^item> \<open>RM_FileManager\<close>, \<open>RM_Monitor\<close>, \<open>RM_MonitorProc\<close>: the two children with their service loops
    and \<open>main\<close>.
  \<^item> \<open>RM_Listen\<close>, \<open>RM_ListenThms\<close>: \<open>__handle_command\<close>, the conversation with a client, the five
    parts of a round of \<open>__listen_to_clients\<close> and the loop. The conversation is proved to
    implement the abstract server \<open>serve\<close>; the loop's exit statuses and restarts are bounded.
  \<^item> \<open>RM_Client\<close>: the client, and client and daemon together.
  \<^item> \<open>RM_Daemonize\<close>, \<open>RM_Singleton\<close>: \<open>become_daemon\<close> on either side of each fork; the port, and
    the parser of the output of \<open>lsof\<close>, measured against a printer of its columns.
  \<^item> \<open>RM_System\<close>: \<open>main\<close> of the daemon over all its parts, and the run from the start of the
    file manager to its first answered probe.
  \<^item> \<open>RM_Recovery\<close>: what happens when a part ends: a child that is started again, a panic that
    ends the whole group, the daemon's own end. Its lemmas follow descriptors through \<open>fork\<close>
    and the termination signal through the group.

  Bounds. Integers are words of their C width where they are stored in one (\<open>u16\<close> to \<open>u64\<close>) and
  integers otherwise; a pipe holds 65536 bytes; buffers are cut where \<open>snprintf\<close>, \<open>fgets\<close> and
  \<open>read\<close> cut them. Signed overflow and the use of a null pointer are \<open>Undefined\<close>.

  Two stores that are undefined in C are let pass, because the program makes them in every run
  and nothing could be said of it beyond them: the terminating null pointer of a child's argument
  vector, one element behind the array (\<open>child_vector_overflow\<close>), and the second field of the
  record that \<open>__parse_lsof_line\<close> stores in a block of 8 bytes.

  Not modelled. The system log and the terminal, unless the text is what a client sees; the
  contents of uninitialised variables (they are arguments); daylight saving (the offset from UTC is
  fixed); symbolic links, and errors of \<open>readdir\<close> and OpenSSL; a read or write that fails once and
  later succeeds; the bound of the error count, a C \<open>int\<close>;
  SHA-256, which belongs to OpenSSL and is a parameter with the law of its incremental
  interface as the hypothesis \<open>streaming\<close>; descriptors of client connections (each is opened
  and closed in its conversation, which is an argument of the round).
\<close>

end
